(* ===== verification/Kprelude.thy ===== *)
theory Kprelude
  imports Main "HOL-Library.Word"
begin

text \<open>
  Shared vocabulary of the development: the machine integers of the i686 target, byte-addressed
  memory with little-endian 32-bit accesses, the masks the kernel's macros use for page
  arithmetic, and generic list lemmas. Every component theory imports this one.

  The collections: \<open>mem_simps\<close> holds the laws of loads and stores, \<open>page_simps\<close> the
  arithmetic of page masks, \<open>kdef\<close> the definitional equations a component unfolds when it
  evaluates a concrete state.
\<close>

unbundle bit_operations_syntax

named_theorems mem_simps "loads and stores"
named_theorems page_simps "page masks"
named_theorems kdef "definitions unfolded on concrete states"

type_synonym u8 = "8 word"
type_synonym u16 = "16 word"
type_synonym u32 = "32 word"
type_synonym u64 = "64 word"
type_synonym mem = "u32 \<Rightarrow> u8"

text \<open>A C pointer is its 32-bit address; the null pointer is address 0.\<close>

type_synonym ptr = u32

abbreviation NULL :: ptr where "NULL \<equiv> 0"

text \<open>The constants of include/system.h and include/memory/vmm.h.\<close>

abbreviation KERN_BASE :: u32 where "KERN_BASE \<equiv> 0xc0000000"
abbreviation PAGE_SIZE :: u32 where "PAGE_SIZE \<equiv> 4096"
abbreviation M :: u32 where "M \<equiv> 0x100000"

text \<open>Ways in which C code leaves its defined behaviour, as values.\<close>

datatype kerr = Div_by_zero | Buffer_overflow | Bad_va_arg | Null_deref | Panic | Use_after_free

section \<open>Words\<close>

lemma low12_nat [page_simps]: "unat (x AND 0xFFF :: u32) = unat x mod 4096"
proof -
  have "x AND 0xFFF = take_bit 12 x" by (simp add: take_bit_eq_mask mask_eq_exp_minus_1)
  then show ?thesis by (simp add: take_bit_eq_mod unat_mod)
qed

lemma page_mask_diff: "x AND 0xFFFFF000 = x - (x AND 0xFFF)" for x :: u32
proof -
  have n: "(0xFFFFF000 :: u32) = NOT 0xFFF" by simp
  have "(x AND NOT 0xFFF) + (x AND 0xFFF) = (x AND NOT 0xFFF) OR (x AND 0xFFF)"
    by (rule disjunctive_add) (auto simp: bit_simps)
  also have "\<dots> = x" by (rule bit_word_eqI) (auto simp: bit_simps)
  finally show ?thesis unfolding n by (simp add: algebra_simps)
qed

lemma page_mask_nat [page_simps]: "unat (x AND 0xFFFFF000 :: u32) = unat x - unat x mod 4096"
proof -
  have "x AND 0xFFF \<le> x" by (simp add: word_le_nat_alt low12_nat)
  then show ?thesis by (simp add: page_mask_diff unat_sub low12_nat)
qed

lemma unat_plus_small: "unat a + unat b < 2 ^ 32 \<Longrightarrow> unat (a + b) = unat a + unat b"
  for a b :: u32
  by (simp add: unat_word_ariths)

lemma unat_of_nat32 [simp]: "n < 2 ^ 32 \<Longrightarrow> unat (of_nat n :: u32) = n"
  by (simp add: unat_of_nat take_bit_eq_mod)

lemma unat_uminus32: "d \<noteq> 0 \<Longrightarrow> unat (- d) = 2 ^ 32 - unat d" for d :: u32
proof -
  assume "d \<noteq> 0"
  then have "0 < unat d" "unat d < 2 ^ 32" "unat (- d) < 2 ^ 32"
    using unsigned_less [of d, where 'a = nat] unsigned_less [of "- d", where 'a = nat]
    by (simp_all add: word_neq_0_conv unat_gt_0)
  moreover have "(unat d + unat (- d)) mod 2 ^ 32 = 0" using unat_word_ariths(1) [of d "- d"] by simp
  ultimately have "unat d + unat (- d) = 2 ^ 32"
    by (cases "unat d + unat (- d) < 2 ^ 32") (auto simp: mod_if split: if_splits)
  then show "unat (- d) = 2 ^ 32 - unat d" by simp
qed

lemma sint_pos32: "0 < unat n \<Longrightarrow> unat n < 2 ^ 31 \<Longrightarrow> 0 < sint n" for n :: u32
proof -
  assume n: "0 < unat n" "unat n < 2 ^ 31"
  have "int (unat n) < int (2 ^ 31)" "int 0 < int (unat n)" using n unfolding of_nat_less_iff by simp_all
  then have u: "0 < uint n" "uint n < 2 ^ 31" by simp_all
  have "sint n = signed_take_bit 31 (uint n)" by (simp add: sint_uint)
  also have "\<dots> = uint n" by (rule signed_take_bit_int_eq_self) (use u in simp_all)
  finally show "0 < sint n" using u by simp
qed

lemma of_nat_unat32: "of_nat (unat w) = w" for w :: u32
  by simp

lemma of_nat32_inject: "i < 2 ^ 32 \<Longrightarrow> j < 2 ^ 32 \<Longrightarrow> (of_nat i :: u32) = of_nat j \<longleftrightarrow> i = j"
  by (metis unat_of_nat32)

section \<open>Byte-addressed memory\<close>

definition load32 :: "mem \<Rightarrow> ptr \<Rightarrow> u32" where
  "load32 m a = ucast (m a) OR push_bit 8 (ucast (m (a + 1)))
     OR push_bit 16 (ucast (m (a + 2))) OR push_bit 24 (ucast (m (a + 3)))"

definition store32 :: "mem \<Rightarrow> ptr \<Rightarrow> u32 \<Rightarrow> mem" where
  "store32 m a v = m(a := ucast v, a + 1 := ucast (drop_bit 8 v),
     a + 2 := ucast (drop_bit 16 v), a + 3 := ucast (drop_bit 24 v))"

text \<open>Two objects of \<open>n\<close> bytes at \<open>a\<close> and \<open>b\<close> share no byte (addresses wrap).\<close>

definition apart :: "u32 \<Rightarrow> ptr \<Rightarrow> ptr \<Rightarrow> bool" where
  "apart n a b \<longleftrightarrow> n \<le> a - b \<and> n \<le> b - a"

lemma apart_sym: "apart n a b \<longleftrightarrow> apart n b a"
  by (auto simp: apart_def)

lemma load_store_same [simp, mem_simps]: "load32 (store32 m a v) a = v"
proof (rule bit_word_eqI)
  fix n assume "n < LENGTH(32)"
  then consider "n < 8" | "8 \<le> n" "n < 16" | "16 \<le> n" "n < 24" | "24 \<le> n" "n < 32" by fastforce
  then show "bit (load32 (store32 m a v) a) n = bit v n"
    by cases (auto simp: load32_def store32_def bit_simps)
qed

lemma apart4_neq:
  assumes "apart 4 a b"
  shows "b \<noteq> a" "b \<noteq> a + 1" "b \<noteq> a + 2" "b \<noteq> a + 3"
    "b + 1 \<noteq> a" "b + 2 \<noteq> a" "b + 3 \<noteq> a" "b + 1 \<noteq> a + 2" "b + 1 \<noteq> a + 3"
    "b + 2 \<noteq> a + 1" "b + 2 \<noteq> a + 3" "b + 3 \<noteq> a + 1" "b + 3 \<noteq> a + 2"
  using assms unfolding apart_def by unat_arith+

lemma load_store_apart [mem_simps]: "apart 4 a b \<Longrightarrow> load32 (store32 m a v) b = load32 m b"
  using apart4_neq [of a b] by (simp add: load32_def store32_def)

lemma apart_offset: "unat n \<le> unat d \<Longrightarrow> unat d + unat n \<le> 2 ^ 32 \<Longrightarrow> d \<noteq> 0 \<Longrightarrow> apart n (b + d) b"
  by (simp add: apart_def word_le_nat_alt unat_uminus32)

text \<open>Equal words are equal bytes: the four bytes of a word determine it.\<close>

lemma load32_bytes:
  "ucast (load32 m c) = m c" "ucast (drop_bit 8 (load32 m c)) = m (c + 1)"
  "ucast (drop_bit 16 (load32 m c)) = m (c + 2)" "ucast (drop_bit 24 (load32 m c)) = m (c + 3)"
  by (rule bit_word_eqI; auto simp: load32_def bit_simps dest: bit_imp_le_length)+

lemma store32_load32: "store32 m a (load32 m a) = m"
  by (auto simp: store32_def load32_bytes fun_eq_iff)

lemma load32_eq_iff:
  "load32 m a = load32 m b \<longleftrightarrow>
     m a = m b \<and> m (a + 1) = m (b + 1) \<and> m (a + 2) = m (b + 2) \<and> m (a + 3) = m (b + 3)"
  by (metis load32_bytes load32_def)

section \<open>Invariants of step relations\<close>

text \<open>What a component owes for an invariant of everything it can reach: each step keeps it.\<close>

locale step_invariant =
  fixes step :: "'s \<Rightarrow> 's \<Rightarrow> bool"
    and inv :: "'s \<Rightarrow> bool"
  assumes inv_step: "step s s' \<Longrightarrow> inv s \<Longrightarrow> inv s'"
begin

lemma inv_steps: "step\<^sup>*\<^sup>* s s' \<Longrightarrow> inv s \<Longrightarrow> inv s'"
  by (induction rule: rtranclp_induct) (auto intro: inv_step)

end

end
