(* ===== verification/Kstring.thy ===== *)
theory Kstring
  imports Kprelude "HOL-Library.Monad_Syntax"
begin

unbundle bit_operations_syntax

text \<open>
  The memory and string routines of kernel/utils/string.c over byte-addressed memory. Loops with
  a counter are structural recursions on it; the two loops that only a terminating byte stops
  (\<open>strlen\<close>, \<open>strcmp\<close>) are partial functions into \<open>option\<close>, where \<open>None\<close> is a loop
  that never ends. \<open>cstr m p xs\<close> says that a NUL-terminated string \<open>xs\<close> lies at \<open>p\<close>.
\<close>

section \<open>The routines\<close>

text \<open>The two pointers have type \<open>uint32_t*\<close>, so the loop compares \<open>len\<close> words.\<close>

fun memcmp_loop :: "mem \<Rightarrow> ptr \<Rightarrow> ptr \<Rightarrow> nat \<Rightarrow> int" where
  "memcmp_loop m p q 0 = 0"
| "memcmp_loop m p q (Suc len) =
     (if load32 m p \<noteq> load32 m q then (if load32 m p > load32 m q then 1 else - 1)
      else memcmp_loop m (p + 4) (q + 4) len)"

definition memcmp :: "mem \<Rightarrow> ptr \<Rightarrow> ptr \<Rightarrow> u32 \<Rightarrow> int" where
  "memcmp m s1 s2 len = (if s1 = s2 then 0 else memcmp_loop m s1 s2 (nat (sint len)))"

text \<open>
  \<open>rep movsb\<close> with the direction flag clear. The assembly operand \<open>+D\<close> is the variable
  \<open>dest\<close> itself, so the pointer returned is the advanced one.
\<close>

fun rep_movsb :: "nat \<Rightarrow> ptr \<Rightarrow> ptr \<Rightarrow> mem \<Rightarrow> mem" where
  "rep_movsb 0 dest src m = m"
| "rep_movsb (Suc count) dest src m = rep_movsb count (dest + 1) (src + 1) (m(dest := m src))"

definition memcpy :: "mem \<Rightarrow> ptr \<Rightarrow> ptr \<Rightarrow> u32 \<Rightarrow> ptr \<times> mem" where
  "memcpy m dest src count = (dest + count, rep_movsb (unat count) dest src m)"

fun memset_loop :: "nat \<Rightarrow> ptr \<Rightarrow> u8 \<Rightarrow> mem \<Rightarrow> mem" where
  "memset_loop 0 su uc m = m"
| "memset_loop (Suc n) su uc m = memset_loop n (su + 1) uc (m(su := uc))"

definition memset :: "mem \<Rightarrow> ptr \<Rightarrow> u32 \<Rightarrow> u32 \<Rightarrow> ptr \<times> mem" where
  "memset m s c n = (s, memset_loop (unat n) s (ucast c) m)"

partial_function (option) strcmp :: "mem \<Rightarrow> ptr \<Rightarrow> ptr \<Rightarrow> int option" where
  "strcmp m str1 str2 =
     (if m str1 = m str2 then (if m str1 = 0 then Some 0 else strcmp m (str1 + 1) (str2 + 1))
      else Some (if m str1 < m str2 then - 1 else 1))"

partial_function (option) strlen_loop :: "mem \<Rightarrow> ptr \<Rightarrow> u32 \<Rightarrow> u32 option" where
  "strlen_loop m str i = (if m (str + i) \<noteq> 0 then strlen_loop m str (i + 1) else Some i)"

definition strlen :: "mem \<Rightarrow> ptr \<Rightarrow> u32 option" where
  "strlen m str = strlen_loop m str 0"

definition strcpy :: "mem \<Rightarrow> ptr \<Rightarrow> ptr \<Rightarrow> (ptr \<times> mem) option" where
  "strcpy m str1 str2 =
     (case strlen m str2 of None \<Rightarrow> None
      | Some len \<Rightarrow> Some (str1, snd (memcpy m str1 str2 (len + 1))))"

fun strncpy_loop :: "nat \<Rightarrow> mem \<Rightarrow> ptr \<Rightarrow> ptr \<Rightarrow> ptr \<times> mem" where
  "strncpy_loop 0 m dst src = (dst, m)"
| "strncpy_loop (Suc n) m dst src =
     (if m src = 0 then (dst + 1, m(dst := m src))
      else strncpy_loop n (m(dst := m src)) (dst + 1) (src + 1))"

definition strncpy :: "mem \<Rightarrow> ptr \<Rightarrow> ptr \<Rightarrow> u32 \<Rightarrow> ptr \<times> mem" where
  "strncpy m dst src n = strncpy_loop (unat n) m dst src"

section \<open>Strings in memory\<close>

fun cstr :: "mem \<Rightarrow> ptr \<Rightarrow> u8 list \<Rightarrow> bool" where
  "cstr m p [] = (m p = 0)"
| "cstr m p (x # xs) = (x \<noteq> 0 \<and> m p = x \<and> cstr m (p + 1) xs)"

lemma cstr_cong:
  "(\<And>i. i \<le> length xs \<Longrightarrow> m' (p' + of_nat i) = m (p + of_nat i)) \<Longrightarrow> cstr m' p' xs = cstr m p xs"
proof (induction xs arbitrary: p p')
  case Nil
  then show ?case using Nil [of 0] by simp
next
  case (Cons x xs)
  have "cstr m' (p' + 1) xs = cstr m (p + 1) xs"
    using Cons.prems [of "Suc _"] by (intro Cons.IH) (simp add: add.assoc)
  moreover have "m' p' = m p" using Cons.prems [of 0] by simp
  ultimately show ?case by simp
qed

lemma strlen_loop_cstr:
  "cstr m (str + i) xs \<Longrightarrow> strlen_loop m str i = Some (i + of_nat (length xs))"
proof (induction xs arbitrary: i)
  case Nil
  then show ?case by (simp add: strlen_loop.simps)
next
  case (Cons x xs)
  then have "strlen_loop m str (i + 1) = Some (i + 1 + of_nat (length xs))"
    by (intro Cons.IH) (simp add: add.assoc)
  with Cons.prems show ?case by (subst strlen_loop.simps) (simp add: algebra_simps)
qed

lemma strlen_cstr: "cstr m p xs \<Longrightarrow> strlen m p = Some (of_nat (length xs))"
  using strlen_loop_cstr [of m p 0 xs] by (simp add: strlen_def)

lemma strcmp_cstr:
  assumes "cstr m p xs" and "cstr m q ys"
  shows "strcmp m p q = Some (if xs = ys then 0
           else if (xs, ys) \<in> lexord {(a, b). a < b} then - 1 else 1)"
  using assms
proof (induction xs arbitrary: p q ys)
  case Nil
  then show ?case by (cases ys) (auto simp: strcmp.simps word_gt_0)
next
  case (Cons x xs)
  show ?case
  proof (cases ys)
    case Nil
    with Cons.prems show ?thesis by (subst strcmp.simps) (auto simp: word_gt_0)
  next
    case (Cons y zs)
    with Cons.prems Cons.IH [of "p + 1" "q + 1" zs] show ?thesis
      by (subst strcmp.simps) auto
  qed
qed

section \<open>Copying\<close>

text \<open>
  A forward copy moves the bytes it means to move unless the destination starts inside the
  source: every byte \<open>x\<close> of the destination range holds the old source byte, every other byte
  is unchanged.
\<close>

lemma rep_movsb_bytes:
  "n \<le> unat (d - s) \<Longrightarrow>
     rep_movsb n d s m x = (if unat (x - d) < n then m (s + (x - d)) else m x)"
proof (induction n arbitrary: d s m)
  case 0
  then show ?case by simp
next
  case (Suc n)
  have IH: "rep_movsb n (d + 1) (s + 1) (m(d := m s)) x =
    (if unat (x - (d + 1)) < n then (m(d := m s)) (s + 1 + (x - (d + 1))) else (m(d := m s)) x)"
    using Suc.prems by (intro Suc.IH) simp
  show ?case
  proof (cases "x = d")
    case True
    have "\<not> unat (d - (d + 1)) < n"
      using Suc.prems unsigned_less [of "d - s", where 'a = nat] by (simp add: unsigned_minus_1_eq_mask mask_eq_exp_minus_1)
    with True IH show ?thesis by simp
  next
    case False
    then have suc: "unat (x - d) = Suc (unat (x - (d + 1)))"
      using unatSuc [of "x - d - 1"] by (simp add: algebra_simps)
    have "s + (x - d) = d \<Longrightarrow> unat (x - d) = unat (d - s)" by (metis add_diff_cancel_left')
    then have "unat (x - d) < Suc n \<Longrightarrow> s + (x - d) \<noteq> d" using Suc.prems by auto
    with False suc IH show ?thesis by (simp add: algebra_simps)
  qed
qed

lemma memset_loop_bytes:
  "n \<le> 2 ^ 32 \<Longrightarrow> memset_loop n s c m x = (if unat (x - s) < n then c else m x)"
proof (induction n arbitrary: s m)
  case 0
  then show ?case by simp
next
  case (Suc n)
  have IH: "memset_loop n (s + 1) c (m(s := c)) x =
    (if unat (x - (s + 1)) < n then c else (m(s := c)) x)"
    using Suc.prems by (intro Suc.IH) simp
  show ?case
  proof (cases "x = s")
    case False
    then have "unat (x - s) = Suc (unat (x - (s + 1)))"
      using unatSuc [of "x - s - 1"] by (simp add: algebra_simps)
    with False IH show ?thesis by simp
  qed (use IH in simp)
qed

lemma memcmp_loop_zero:
  "memcmp_loop m p q n = 0 \<longleftrightarrow> (\<forall>i < 4 * n. m (p + of_nat i) = m (q + of_nat i))"
proof (induction n arbitrary: p q)
  case 0
  then show ?case by simp
next
  case (Suc n)
  have split: "(\<forall>i < 4 * Suc n. P i) \<longleftrightarrow>
     P 0 \<and> P 1 \<and> P 2 \<and> P 3 \<and> (\<forall>i < 4 * n. P (i + 4))" for P :: "nat \<Rightarrow> bool"
  proof -
    have "i < 4 * Suc n \<longleftrightarrow> i = 0 \<or> i = 1 \<or> i = 2 \<or> i = 3 \<or> (\<exists>j < 4 * n. i = j + 4)" for i
      by (cases "i < 4") (auto intro: exI [of _ "i - 4"])
    then show ?thesis by (metis (no_types, lifting))
  qed
  show ?case
    by (subst split) (auto simp: load32_eq_iff Suc.IH ac_simps)
qed

section \<open>Properties\<close>

text \<open>
  C36: on two NUL-terminated strings \<open>strcmp\<close> always returns, and it returns 0 exactly for equal
  strings, -1 when the first comes before the second in the byte-wise lexicographic order and 1
  otherwise. The file systems compare node names with it.
\<close>

theorem strcmp_lexicographic:
  assumes "cstr m p xs" and "cstr m q ys"
  shows "strcmp m p q = Some (if xs = ys then 0
           else if (xs, ys) \<in> lexord {(a, b). a < b} then - 1 else 1)"
  using assms by (rule strcmp_cstr)

theorem strcmp_lexicographic_witness:
  "strcmp ((\<lambda>_. 0)(16 := 104, 17 := 105, 32 := 104)) 16 32 = Some 1"
  using strcmp_lexicographic [of "(\<lambda>_. 0)(16 := 104, 17 := 105, 32 := 104)" 16 "[104, 105]" 32 "[104]"]
  by simp

text \<open>
  \<open>strcpy\<close> of a NUL-terminated string whose bytes the destination does not start inside
  returns the destination, leaves the same string there and changes no byte outside the
  \<open>length + 1\<close> bytes of the copy.
\<close>

theorem strcpy_copies:
  assumes "cstr m s xs" and "length xs < unat (d - s)"
  shows "\<exists>m'. strcpy m d s = Some (d, m') \<and> cstr m' d xs
           \<and> (\<forall>x. length xs < unat (x - d) \<longrightarrow> m' x = m x)"
proof -
  define n where "n = Suc (length xs)"
  have n: "n \<le> unat (d - s)" using assms(2) by (simp add: n_def)
  then have n32: "n < 2 ^ 32" using unsigned_less [of "d - s", where 'a = nat] by simp
  then have len: "unat (of_nat (length xs) + 1 :: u32) = n"
    using unat_of_nat32 [of n] by (simp add: n_def add.commute)
  let ?m' = "rep_movsb n d s m"
  note bytes = rep_movsb_bytes [OF n, of m]
  have "cstr ?m' d xs = cstr m s xs"
  proof (rule cstr_cong)
    fix i assume "i \<le> length xs"
    then have "i < n" by (simp add: n_def)
    with n32 show "?m' (d + of_nat i) = m (s + of_nat i)" by (simp add: bytes)
  qed
  moreover have "\<forall>x. length xs < unat (x - d) \<longrightarrow> ?m' x = m x"
    by (simp add: bytes) (simp add: n_def)
  moreover have "strcpy m d s = Some (d, ?m')"
    using assms(1) len by (simp add: strcpy_def strlen_cstr memcpy_def)
  ultimately show ?thesis using assms(1) by blast
qed

theorem strcpy_copies_witness:
  "\<exists>m'. strcpy ((\<lambda>_. 0)(16 := 104, 17 := 105)) 64 16 = Some (64, m') \<and> cstr m' 64 [104, 105]
     \<and> (\<forall>x. length [104, 105 :: u8] < unat (x - 64)
          \<longrightarrow> m' x = ((\<lambda>_. 0)(16 := 104, 17 := 105)) x)"
  by (rule strcpy_copies [of "(\<lambda>_. 0)(16 := 104, 17 := 105)" 16 "[104, 105]" 64]) simp_all

text \<open>
  \<open>memcmp\<close> reports equality for distinct addresses exactly when \<open>4 * len\<close> bytes agree, four
  times the length its callers pass: its pointers are \<open>uint32_t*\<close> and it steps over words.
\<close>

theorem memcmp_compares_words:
  "memcmp m s1 s2 len = 0 \<longleftrightarrow>
     s1 = s2 \<or> (\<forall>i < 4 * nat (sint len). m (s1 + of_nat i) = m (s2 + of_nat i))"
  by (simp add: memcmp_def memcmp_loop_zero)

theorem memcmp_compares_words_witness:
  "memcmp ((\<lambda>_. 0)(100 := 95, 104 := 1, 200 := 95)) 100 200 4 \<noteq> 0
   \<and> map ((\<lambda>_. 0)(100 := 95, 104 := 1, 200 := 95) :: mem) [100, 101, 102, 103]
     = map ((\<lambda>_. 0)(100 := 95, 104 := 1, 200 := 95) :: mem) [200, 201, 202, 203]"
proof -
  let ?m = "((\<lambda>_. 0)(100 := 95, 104 := 1, 200 := 95)) :: mem"
  have "4 < 4 * nat (sint (4 :: u32))" by simp
  moreover have "?m (100 + of_nat 4 :: u32) \<noteq> ?m (200 + of_nat 4)" by simp
  moreover have "(100 :: u32) \<noteq> 200" by simp
  ultimately have "memcmp ?m 100 200 4 \<noteq> 0"
    using memcmp_compares_words [of ?m 100 200 4] by blast
  moreover have "map ?m [100, 101, 102, 103] = map ?m [200, 201, 202, 203]" by simp
  ultimately show ?thesis by (rule conjI)
qed

end
