(* ===== verification/Kdisplay.thy ===== *)
theory Kdisplay
  imports Kprelude
begin

unbundle bit_operations_syntax

text \<open>
  Number formatting and formatted printing of kernel/utils/display.c. A call produces a list of
  console actions in the order the code issues them: characters sent to the VGA text screen and
  to the serial line, colour changes and clearing the screen (the kernel is built with TEXTMODE, config.mk). The
  conversion buffer \<open>tbuf\<close> has 32 cells; a write past its end is the error
  \<open>Buffer_overflow\<close>. A \<open>va_arg\<close> that finds no argument of the type it asks for is the
  error \<open>Bad_va_arg\<close>.
\<close>

section \<open>Number conversion\<close>

abbreviation bchars :: string where "bchars \<equiv> ''0123456789ABCDEF''"

text \<open>
  The conversion loop. The counter is the room left in \<open>tbuf\<close>; the digits found so far are
  kept with the latest first, which is the order in which the second loop copies them out.
\<close>

fun itoa_loop :: "nat \<Rightarrow> u32 \<Rightarrow> u32 \<Rightarrow> string \<Rightarrow> kerr + string" where
  "itoa_loop room i base buf =
     (if i = 0 then Inr buf
      else if base = 0 then Inl Div_by_zero
      else case room of
        0 \<Rightarrow> Inl Buffer_overflow
      | Suc room' \<Rightarrow> itoa_loop room' (i div base) base (bchars ! unat (i mod base) # buf))"

declare itoa_loop.simps [simp del]

definition itoa :: "u32 \<Rightarrow> u32 \<Rightarrow> kerr + string" where
  "itoa i base = (if i = 0 \<or> base > 16 then Inr ''0'' else itoa_loop 32 i base [])"

text \<open>
  The signed version. Negating a word wraps, so the most negative integer is passed on as
  \<open>2 ^ 31\<close>. With a base above 16 nothing is written to the buffer.
\<close>

definition itoa_s :: "u32 \<Rightarrow> u32 \<Rightarrow> kerr + string" where
  "itoa_s i base =
     (if base > 16 then Inr []
      else if sint i < 0 then map_sum id (Cons CHR ''-'') (itoa (- i) base)
      else itoa i base)"

section \<open>Formatted output\<close>

datatype vga_color = VGA_COLOR_BLACK | VGA_COLOR_BLUE | VGA_COLOR_GREEN | VGA_COLOR_CYAN
  | VGA_COLOR_RED | VGA_COLOR_MAGENTA | VGA_COLOR_BROWN | VGA_COLOR_LIGHT_GRAY
  | VGA_COLOR_DARK_GRAY | VGA_COLOR_LIGHT_BLUE | VGA_COLOR_LIGHT_GREEN | VGA_COLOR_LIGHT_CYAN
  | VGA_COLOR_LIGHT_RED | VGA_COLOR_PINK | VGA_COLOR_YELLOW | VGA_COLOR_WHITE

datatype con_action = Vga_putc char | Serial_putc char | Vga_set_color vga_color vga_color | Vga_clear

datatype va = VInt u32 | VStr string

definition con_puts :: "string \<Rightarrow> con_action list" where
  "con_puts s = map Vga_putc s @ map Serial_putc s"

definition con_putc :: "char \<Rightarrow> con_action list" where
  "con_putc c = [Vga_putc c, Serial_putc c]"

text \<open>
  The format loop. In the default branch of the switch only the percent sign is consumed: the
  character after it is looked at again as ordinary text.
\<close>

fun kprintf_va_list :: "string \<Rightarrow> va list \<Rightarrow> kerr + con_action list" where
  "kprintf_va_list [] ap = Inr []"
| "kprintf_va_list (c # str) ap =
     (if c = CHR ''%'' then
        (case str of
           [] \<Rightarrow> Inr []
         | d # rest \<Rightarrow>
             if d = CHR ''s'' then
               (case ap of VStr s # ap' \<Rightarrow> map_sum id (\<lambda>out. con_puts s @ out) (kprintf_va_list rest ap')
                | _ \<Rightarrow> Inl Bad_va_arg)
             else if d = CHR ''d'' then
               (case ap of VInt n # ap' \<Rightarrow>
                  (case itoa_s n 10 of Inl e \<Rightarrow> Inl e
                   | Inr s \<Rightarrow> map_sum id (\<lambda>out. con_puts s @ out) (kprintf_va_list rest ap'))
                | _ \<Rightarrow> Inl Bad_va_arg)
             else if d = CHR ''x'' then
               (case ap of VInt n # ap' \<Rightarrow>
                  (case itoa n 16 of Inl e \<Rightarrow> Inl e
                   | Inr s \<Rightarrow> map_sum id (\<lambda>out. con_puts s @ out) (kprintf_va_list rest ap'))
                | _ \<Rightarrow> Inl Bad_va_arg)
             else if d = CHR ''c'' then
               (case ap of VInt n # ap' \<Rightarrow>
                  map_sum id (\<lambda>out. con_putc (char_of (unat (n AND 0xFF))) @ out) (kprintf_va_list rest ap')
                | _ \<Rightarrow> Inl Bad_va_arg)
             else kprintf_va_list str ap)
      else map_sum id (\<lambda>out. con_putc c @ out) (kprintf_va_list str ap))"

definition kprintf :: "string option \<Rightarrow> va list \<Rightarrow> kerr + int \<times> con_action list" where
  "kprintf str ap = (case str of None \<Rightarrow> Inr (0, [])
     | Some f \<Rightarrow> map_sum id (Pair 1) (kprintf_va_list f ap))"

datatype status = LOG_OK | LOG_ERR | LOG_WARN

definition vga_puts_out :: "string \<Rightarrow> con_action list" where
  "vga_puts_out s = map Vga_putc s"

definition serial_puts_out :: "string \<Rightarrow> con_action list" where
  "serial_puts_out s = map Serial_putc s"

definition esc :: char where "esc = CHR 0x1B"

definition klog_prefix :: "status \<Rightarrow> con_action list" where
  "klog_prefix st = (case st of
     LOG_OK \<Rightarrow> vga_puts_out ''[ '' @ [Vga_set_color VGA_COLOR_LIGHT_GREEN VGA_COLOR_BLACK]
       @ vga_puts_out ''OK'' @ [Vga_set_color VGA_COLOR_WHITE VGA_COLOR_BLACK] @ vga_puts_out '' ] ''
       @ serial_puts_out ''[ '' @ serial_puts_out ([esc] @ ''[92mOK'' @ [esc] @ ''[0m'')
       @ serial_puts_out '' ] ''
   | LOG_ERR \<Rightarrow> vga_puts_out ''[ '' @ [Vga_set_color VGA_COLOR_LIGHT_RED VGA_COLOR_BLACK]
       @ vga_puts_out ''ERROR'' @ [Vga_set_color VGA_COLOR_WHITE VGA_COLOR_BLACK] @ vga_puts_out '' ] ''
       @ serial_puts_out ''[ '' @ serial_puts_out ([esc] @ ''[91mERROR'' @ [esc] @ ''[0m'')
       @ serial_puts_out '' ] ''
   | LOG_WARN \<Rightarrow> vga_puts_out ''[ '' @ [Vga_set_color VGA_COLOR_YELLOW VGA_COLOR_BLACK]
       @ vga_puts_out ''WARNING'' @ [Vga_set_color VGA_COLOR_WHITE VGA_COLOR_BLACK] @ vga_puts_out '' ] ''
       @ serial_puts_out ''[ '' @ serial_puts_out ([esc] @ ''[93mWARNING'' @ [esc] @ ''[0m'')
       @ serial_puts_out '' ] '')"

text \<open>A status outside the enumeration takes the default branch and returns 0: \<open>None\<close> here.\<close>

definition klog :: "status option \<Rightarrow> string option \<Rightarrow> va list \<Rightarrow> kerr + int \<times> con_action list" where
  "klog st str ap = (case str of None \<Rightarrow> Inr (0, [])
     | Some f \<Rightarrow> (case st of None \<Rightarrow> Inr (0, [])
       | Some st' \<Rightarrow> map_sum id (\<lambda>out. (1, klog_prefix st' @ out)) (kprintf_va_list f ap)))"

section \<open>Reading numbers back\<close>

definition digit_val :: "char \<Rightarrow> nat" where
  "digit_val c = length (takeWhile (\<lambda>x. x \<noteq> c) bchars)"

definition digits_val :: "nat \<Rightarrow> string \<Rightarrow> nat" where
  "digits_val b s = foldl (\<lambda>n c. n * b + digit_val c) 0 s"

fun signed_val :: "nat \<Rightarrow> string \<Rightarrow> int" where
  "signed_val b [] = 0"
| "signed_val b (c # s) = (if c = CHR ''-'' then - int (digits_val b s) else int (digits_val b (c # s)))"

lemma digits_val_snoc: "digits_val b (s @ [c]) = digits_val b s * b + digit_val c"
  by (simp add: digits_val_def)

lemma digit_val_bchars: "d < 16 \<Longrightarrow> digit_val (bchars ! d) = d"
proof -
  assume "d < 16"
  then have "d \<in> set [0..<16]" by simp
  moreover have "\<forall>d \<in> set [0..<16]. digit_val (bchars ! d) = d"
    by (simp add: digit_val_def upt_rec)
  ultimately show ?thesis by blast
qed

lemma bchars_zero: "d < 16 \<Longrightarrow> bchars ! d = CHR ''0'' \<longleftrightarrow> d = 0"
  using digit_val_bchars [of d] digit_val_bchars [of 0] by auto

lemma bchars_no_minus: "d < 16 \<Longrightarrow> bchars ! d \<noteq> CHR ''-''"
proof -
  assume "d < 16"
  then have "bchars ! d \<in> set bchars" by (intro nth_mem) simp
  then show ?thesis by auto
qed

definition numeral_of :: "u32 \<Rightarrow> u32 \<Rightarrow> string \<Rightarrow> bool" where
  "numeral_of base i s \<longleftrightarrow> digits_val (unat base) s = unat i \<and> CHR ''-'' \<notin> set s
     \<and> (i = 0 \<longleftrightarrow> s = []) \<and> (s \<noteq> [] \<longrightarrow> hd s \<noteq> CHR ''0'')
     \<and> (\<forall>k. unat i < unat base ^ k \<longrightarrow> length s \<le> k)"

lemma numeral_of_zero: "numeral_of base 0 []"
  by (simp add: numeral_of_def digits_val_def)

text \<open>One more digit: the numeral of \<open>i div base\<close> followed by the digit \<open>i mod base\<close>.\<close>

lemma numeral_of_step:
  assumes q: "numeral_of base (i div base) s" and i: "i \<noteq> 0" and b: "2 \<le> base" "base \<le> 16"
  shows "numeral_of base i (s @ [bchars ! unat (i mod base)])"
proof -
  let ?d = "unat (i mod base)"
  have b': "2 \<le> unat base" "unat base \<le> 16" using b by (simp_all add: word_le_nat_alt)
  have d1: "?d = unat i mod unat base" by (simp add: unat_mod)
  have d2: "?d < unat base" using b' d1 by simp
  have d3: "?d < 16" using d2 b' by simp
  note d = d1 d2 d3
  have v: "digits_val (unat base) (s @ [bchars ! ?d]) = unat i"
    using q d by (simp add: numeral_of_def digits_val_snoc digit_val_bchars unat_div)
  have len: "length s + 1 \<le> k" if k: "unat i < unat base ^ k" for k
  proof (cases k)
    case 0
    with k i show ?thesis by (simp add: unat_eq_zero)
  next
    case (Suc k')
    with k have "unat (i div base) < unat base ^ k'"
      using b' by (simp add: unat_div less_mult_imp_div_less mult.commute)
    with q Suc show ?thesis by (simp add: numeral_of_def)
  qed
  have hd0: "hd (s @ [bchars ! ?d]) \<noteq> CHR ''0''"
  proof (cases "s = []")
    case True
    with q have "i div base = 0" by (simp add: numeral_of_def)
    then have "unat i div unat base = 0" by (metis unat_0 unat_div)
    then have "?d = unat i" using d b' by (simp add: div_eq_0_iff)
    with i have "?d \<noteq> 0" by (simp add: unat_eq_zero)
    with True bchars_zero [OF d3] show ?thesis by (simp del: nth_Cons_numeral)
  qed (use q in \<open>simp add: numeral_of_def\<close>)
  show ?thesis
    unfolding numeral_of_def using v len hd0 i q d bchars_no_minus [of ?d]
    by (auto simp: numeral_of_def)
qed

lemma itoa_loop_numeral:
  assumes "unat i < 2 ^ room" and "2 \<le> base" "base \<le> 16"
  shows "\<exists>s. itoa_loop room i base buf = Inr (s @ buf) \<and> numeral_of base i s"
  using assms(1)
proof (induction room arbitrary: i buf)
  case 0
  then have "i = 0" by (simp add: unat_eq_zero)
  then show ?case by (simp add: itoa_loop.simps numeral_of_zero)
next
  case (Suc room)
  show ?case
  proof (cases "i = 0")
    case False
    have "unat (i div base) \<le> unat i div 2"
      using assms(2) by (simp add: unat_div word_le_nat_alt div_le_mono2)
    also have "\<dots> < 2 ^ room" using Suc.prems by auto
    finally obtain s where s: "itoa_loop room (i div base) base (bchars ! unat (i mod base) # buf)
        = Inr (s @ bchars ! unat (i mod base) # buf)" and n: "numeral_of base (i div base) s"
      using Suc.IH by blast
    have "base \<noteq> 0" using assms(2) by auto
    with False s have "itoa_loop (Suc room) i base buf = Inr ((s @ [bchars ! unat (i mod base)]) @ buf)"
      by (subst itoa_loop.simps) simp
    with numeral_of_step [OF n False assms(2,3)] show ?thesis by blast
  qed (simp add: itoa_loop.simps numeral_of_zero)
qed

lemma itoa_numeral:
  assumes "i \<noteq> 0" and "2 \<le> base" "base \<le> 16"
  shows "\<exists>s. itoa i base = Inr s \<and> numeral_of base i s"
  using itoa_loop_numeral [of i 32 base "[]"] assms unsigned_less [of i, where 'a = nat]
  by (auto simp: itoa_def)

lemma uint_of_sint: "uint i = sint i mod 2 ^ 32" for i :: u32
proof -
  have "uint (word_of_int (sint i) :: u32) = sint i mod 2 ^ 32"
    by (simp only: uint_word_of_int take_bit_eq_mod) simp
  then show ?thesis by simp
qed

lemma sint_nonneg_unat: "\<not> sint i < 0 \<Longrightarrow> int (unat i) = sint i" for i :: u32
  using uint_of_sint [of i] sint_less [of i] by (simp add: mod_pos_pos_trivial)

lemma sint_neg_unat: "sint i < 0 \<Longrightarrow> int (unat (- i)) = - sint i" for i :: u32
proof -
  assume neg: "sint i < 0"
  have "uint (word_of_int (- sint i) :: u32) = (- sint i) mod 2 ^ 32"
    by (simp only: uint_word_of_int take_bit_eq_mod) simp
  also have "\<dots> = - sint i"
    using neg sint_greater_eq [of i] by (intro mod_pos_pos_trivial) simp_all
  finally show ?thesis by simp
qed

lemma numeral_of_signed:
  assumes "numeral_of base i s"
  shows "signed_val (unat base) s = int (unat i)"
    and "signed_val (unat base) (CHR ''-'' # s) = - int (unat i)"
  using assms by (cases s; auto simp: numeral_of_def digits_val_def)+

lemma itoa_s_total:
  "\<exists>s. itoa_s i 10 = Inr s \<and> signed_val 10 s = sint i \<and> length s \<le> 11"
proof (cases "i = 0")
  case True
  then show ?thesis by (simp add: itoa_s_def itoa_def digits_val_def digit_val_def)
next
  case False
  have len: "length s \<le> 10" if "numeral_of 10 j s" for j s
    using that unsigned_less [of j, where 'a = nat]
    by (auto simp: numeral_of_def dest!: spec [of _ "10 :: nat"])
  show ?thesis
  proof (cases "sint i < 0")
    case True
    obtain s where s: "itoa (- i) 10 = Inr s" "numeral_of 10 (- i) s"
      using itoa_numeral [of "- i" 10] False by auto
    have "itoa_s i 10 = Inr (CHR ''-'' # s)" using True s by (simp add: itoa_s_def)
    moreover have "signed_val 10 (CHR ''-'' # s) = sint i"
      using numeral_of_signed(2) [OF s(2)] sint_neg_unat [OF True] by simp
    ultimately show ?thesis using len [OF s(2)] by auto
  next
    case nonneg: False
    obtain s where s: "itoa i 10 = Inr s" "numeral_of 10 i s"
      using itoa_numeral [of i 10] False by auto
    have "itoa_s i 10 = Inr s" using nonneg s by (simp add: itoa_s_def)
    moreover have "signed_val 10 s = sint i"
      using numeral_of_signed(1) [OF s(2)] sint_nonneg_unat [OF nonneg] by simp
    ultimately show ?thesis using len [OF s(2)] by auto
  qed
qed

lemma itoa_hex_total: "\<exists>s. itoa n 16 = Inr s"
  using itoa_numeral [of n 16] by (cases "n = 0") (auto simp: itoa_def)

section \<open>Formats as pieces\<close>

text \<open>A well-formed format: literal text without percent signs and the four conversions.\<close>

datatype piece = PLit string | PStr string | PDec u32 | PHex u32 | PChr u32

fun piece_fmt :: "piece \<Rightarrow> string" where
  "piece_fmt (PLit s) = s"
| "piece_fmt (PStr s) = ''%s''"
| "piece_fmt (PDec n) = ''%d''"
| "piece_fmt (PHex n) = ''%x''"
| "piece_fmt (PChr n) = ''%c''"

fun piece_args :: "piece \<Rightarrow> va list" where
  "piece_args (PLit s) = []"
| "piece_args (PStr s) = [VStr s]"
| "piece_args (PDec n) = [VInt n]"
| "piece_args (PHex n) = [VInt n]"
| "piece_args (PChr n) = [VInt n]"

fun piece_text :: "piece \<Rightarrow> string" where
  "piece_text (PLit s) = s"
| "piece_text (PStr s) = s"
| "piece_text (PDec n) = projr (itoa_s n 10)"
| "piece_text (PHex n) = projr (itoa n 16)"
| "piece_text (PChr n) = [char_of (unat (n AND 0xFF))]"

fun piece_ok :: "piece \<Rightarrow> bool" where
  "piece_ok (PLit s) = (CHR ''%'' \<notin> set s)"
| "piece_ok _ = True"

fun serial_text :: "con_action list \<Rightarrow> string" where
  "serial_text [] = []"
| "serial_text (Serial_putc c # as) = c # serial_text as"
| "serial_text (_ # as) = serial_text as"

fun vga_text :: "con_action list \<Rightarrow> string" where
  "vga_text [] = []"
| "vga_text (Vga_putc c # as) = c # vga_text as"
| "vga_text (_ # as) = vga_text as"

lemma serial_text_append [simp]: "serial_text (as @ bs) = serial_text as @ serial_text bs"
  by (induction as rule: serial_text.induct) auto

lemma vga_text_append [simp]: "vga_text (as @ bs) = vga_text as @ vga_text bs"
  by (induction as rule: vga_text.induct) auto

lemma text_map [simp]:
  "serial_text (map Serial_putc s) = s" "serial_text (map Vga_putc s) = []"
  "vga_text (map Vga_putc s) = s" "vga_text (map Serial_putc s) = []"
  by (induction s) auto

lemma con_text [simp]:
  "serial_text (con_puts s) = s" "vga_text (con_puts s) = s"
  "serial_text (con_putc c) = [c]" "vga_text (con_putc c) = [c]"
  by (simp_all add: con_puts_def con_putc_def)

text \<open>A format without conversions prints itself.\<close>

lemma kprintf_literal: "CHR ''%'' \<notin> set f \<Longrightarrow> kprintf_va_list f ap = Inr (concat (map con_putc f))"
  by (induction f) auto

lemma text_putcs [simp]: "serial_text (concat (map con_putc s)) = s" "vga_text (concat (map con_putc s)) = s"
  by (induction s) auto

text \<open>What a call prints, seen on the serial line and on the screen.\<close>

definition prints :: "kerr + con_action list \<Rightarrow> string \<Rightarrow> bool" where
  "prints r t \<longleftrightarrow> (\<exists>out. r = Inr out \<and> serial_text out = t \<and> vga_text out = t)"

lemma prints_puts:
  "prints r t \<Longrightarrow> prints (map_sum id (\<lambda>out. con_puts s @ out) r) (s @ t)"
  "prints r t \<Longrightarrow> prints (map_sum id (\<lambda>out. con_putc c @ out) r) (c # t)"
  by (auto simp: prints_def)

lemma prints_literal:
  "CHR ''%'' \<notin> set s \<Longrightarrow> prints (kprintf_va_list f ap) t \<Longrightarrow> prints (kprintf_va_list (s @ f) ap) (s @ t)"
  by (induction s) (auto intro: prints_puts)

lemma prints_piece:
  assumes "piece_ok p" and "prints (kprintf_va_list f ap) t"
  shows "prints (kprintf_va_list (piece_fmt p @ f) (piece_args p @ ap)) (piece_text p @ t)"
proof (cases p)
  case (PDec n)
  obtain s where "itoa_s n 10 = Inr s" using itoa_s_total [of n] by blast
  with PDec assms show ?thesis by (simp add: prints_puts)
next
  case (PHex n)
  obtain s where "itoa n 16 = Inr s" using itoa_hex_total [of n] by blast
  with PHex assms show ?thesis by (simp add: prints_puts)
qed (use assms in \<open>simp_all add: prints_literal prints_puts\<close>)

section \<open>Properties\<close>

text \<open>
  C34: for every base from 2 to 16 the conversion \<open>__itoa\<close> terminates without leaving \<open>tbuf\<close>,
  and the digits it writes denote the number: reading them back gives the unsigned value, with
  no leading zero unless the number is zero.
\<close>

theorem itoa_roundtrip:
  assumes "2 \<le> base" and "base \<le> 16"
  shows "\<exists>s. itoa i base = Inr s \<and> digits_val (unat base) s = unat i
           \<and> (hd s = CHR ''0'' \<longleftrightarrow> i = 0) \<and> s \<noteq> [] \<and> length s \<le> 32"
proof (cases "i = 0")
  case True
  then show ?thesis by (simp add: itoa_def digits_val_def digit_val_def)
next
  case False
  then obtain s where s: "itoa i base = Inr s" "numeral_of base i s"
    using itoa_numeral assms by blast
  have "unat i < 2 ^ 32" using unsigned_less [of i, where 'a = nat] by simp
  also have "(2 :: nat) ^ 32 \<le> unat base ^ 32"
    using assms(1) by (intro power_mono) (simp_all add: word_le_nat_alt)
  finally have "length s \<le> 32" using s(2) by (simp add: numeral_of_def)
  with False s show ?thesis by (auto simp: numeral_of_def)
qed

theorem itoa_roundtrip_witness:
  "itoa 48879 16 = Inr ''BEEF'' \<and> (\<exists>s. itoa 48879 16 = Inr s \<and> digits_val (unat (16 :: u32)) s = unat (48879 :: u32)
     \<and> (hd s = CHR ''0'' \<longleftrightarrow> (48879 :: u32) = 0) \<and> s \<noteq> [] \<and> length s \<le> 32)"
  using itoa_roundtrip [of 16 48879] by (simp add: itoa_def itoa_loop.simps)

text \<open>
  \<open>__itoa_s\<close> in base 10 writes the signed value of its argument for every 32-bit integer,
  the most negative one included, in at most 11 characters, so the 32-byte buffer of
  \<open>__kprintf_va_list\<close> is never overrun.
\<close>

theorem itoa_s_decimal:
  "\<exists>s. itoa_s i 10 = Inr s \<and> signed_val 10 s = sint i \<and> length s \<le> 11"
  by (rule itoa_s_total)

lemma kprintf_pieces:
  assumes "list_all piece_ok ps"
  shows "\<exists>out. kprintf (Some (concat (map piece_fmt ps))) (concat (map piece_args ps)) = Inr (1, out)
           \<and> serial_text out = concat (map piece_text ps) \<and> vga_text out = concat (map piece_text ps)"
proof -
  have "prints (kprintf_va_list (concat (map piece_fmt ps)) (concat (map piece_args ps)))
          (concat (map piece_text ps))"
    using assms by (induction ps) (auto simp: prints_piece, simp add: prints_def)
  then show ?thesis by (auto simp: kprintf_def prints_def)
qed

text \<open>
  C35: a format made of literal text and the conversions \<open>%s\<close>, \<open>%d\<close>, \<open>%x\<close> and \<open>%c\<close>, with an
  argument of the right type for each, is printed without error, and both the serial line and
  the screen receive the concatenation of the pieces' texts in order.
\<close>

theorem kprintf_prints_pieces:
  assumes "list_all piece_ok ps"
  shows "\<exists>out. kprintf (Some (concat (map piece_fmt ps))) (concat (map piece_args ps)) = Inr (1, out)
           \<and> serial_text out = concat (map piece_text ps) \<and> vga_text out = concat (map piece_text ps)"
  using assms by (rule kprintf_pieces)

theorem kprintf_prints_pieces_witness:
  "\<exists>out. kprintf (Some ''n = %d (%x)'') [VInt (- 5), VInt 255] = Inr (1, out)
     \<and> serial_text out = ''n = -5 (FF)'' \<and> vga_text out = ''n = -5 (FF)''"
  using kprintf_prints_pieces [of "[PLit ''n = '', PDec (- 5), PLit '' ('', PHex 255, PLit '')'']"]
  by (simp add: itoa_s_def itoa_def itoa_loop.simps)

end
