(* ===== verification/Multiboot.thy ===== *)
theory Multiboot
  imports Kprelude
begin

unbundle bit_operations_syntax

text \<open>
  The walk over the Multiboot2 information tags: kernel/multiboot2.c, the module scan of
  \<open>kernel_main\<close> and that of \<open>pmm_init\<close>. A tag is read from memory: its type at offset 0, its
  size at offset 4, and for a module its end address at offset 12. A loader that writes a tag of
  size 0 makes the loops run forever, hence partial functions.
\<close>

abbreviation MBOOT2_TAG_END :: u32 where "MBOOT2_TAG_END \<equiv> 0"
abbreviation MBOOT2_TAG_MODULE :: u32 where "MBOOT2_TAG_MODULE \<equiv> 3"
abbreviation MBOOT2_TAG_BASIC_MEMINFO :: u32 where "MBOOT2_TAG_BASIC_MEMINFO \<equiv> 4"

definition tag_type :: "mem \<Rightarrow> ptr \<Rightarrow> u32" where
  "tag_type m tag = load32 m tag"

definition tag_size :: "mem \<Rightarrow> ptr \<Rightarrow> u32" where
  "tag_size m tag = load32 m (tag + 4)"

definition next_tag :: "mem \<Rightarrow> ptr \<Rightarrow> ptr" where
  "next_tag m tag = tag + ((tag_size m tag + 7) AND NOT 7)"

partial_function (option) find_tag_loop :: "mem \<Rightarrow> ptr \<Rightarrow> u32 \<Rightarrow> ptr option" where
  "find_tag_loop m tag ty =
     (if tag_type m tag = ty then Some tag
      else if tag_type m tag \<noteq> MBOOT2_TAG_END then find_tag_loop m (next_tag m tag) ty
      else Some NULL)"

definition mboot2_find_tag :: "mem \<Rightarrow> ptr \<Rightarrow> u32 \<Rightarrow> ptr option" where
  "mboot2_find_tag m mb2 ty = find_tag_loop m (mb2 + 8) ty"

text \<open>The loop of \<open>pmm_init\<close> that moves \<open>bitmap_addr\<close> past the last module.\<close>

partial_function (option) module_end_loop :: "mem \<Rightarrow> ptr \<Rightarrow> u32 \<Rightarrow> u32 option" where
  "module_end_loop m tag bitmap_addr =
     (let b = (if tag_type m tag = MBOOT2_TAG_MODULE
               then (if load32 m (tag + 12) > bitmap_addr then load32 m (tag + 12) else bitmap_addr)
               else bitmap_addr);
          tag' = next_tag m tag
      in if tag_type m tag' \<noteq> MBOOT2_TAG_END then module_end_loop m tag' b else Some b)"

text \<open>The loop of \<open>kernel_main\<close>, which keeps the bounds of the last module it sees.\<close>

partial_function (option) module_bounds_loop :: "mem \<Rightarrow> ptr \<Rightarrow> u32 \<times> u32 \<Rightarrow> (u32 \<times> u32) option" where
  "module_bounds_loop m tag b =
     (let b' = (if tag_type m tag = MBOOT2_TAG_MODULE
                then (load32 m (tag + 8) + KERN_BASE, load32 m (tag + 12) + KERN_BASE) else b);
          tag' = next_tag m tag
      in if tag_type m tag' \<noteq> MBOOT2_TAG_END then module_bounds_loop m tag' b' else Some b')"

section \<open>Tag lists\<close>

text \<open>
  \<open>tag_list m tag ts\<close>: from \<open>tag\<close> the addresses \<open>ts\<close> are the tags met in turn, the last of them
  the end tag and no other.
\<close>

fun tag_list :: "mem \<Rightarrow> ptr \<Rightarrow> ptr list \<Rightarrow> bool" where
  "tag_list m tag [] = False"
| "tag_list m tag (t # ts) = (t = tag \<and>
     (if tag_type m tag = MBOOT2_TAG_END then ts = [] else tag_list m (next_tag m tag) ts))"

lemma tag_list_next:
  "tag_list m tag ts \<Longrightarrow> tag_type m tag \<noteq> MBOOT2_TAG_END \<Longrightarrow>
     \<exists>us. ts = tag # us \<and> tag_list m (next_tag m tag) us"
  by (cases ts) auto

lemma find_tag_loop_list:
  "tag_list m tag ts \<Longrightarrow>
     find_tag_loop m tag ty =
       Some (case find (\<lambda>t. tag_type m t = ty) ts of Some t \<Rightarrow> t | None \<Rightarrow> NULL)"
proof (induction m tag ts rule: tag_list.induct)
  case (2 m tag t ts)
  then show ?case by (subst find_tag_loop.simps) (auto split: if_splits)
qed simp

definition module_ends :: "mem \<Rightarrow> ptr list \<Rightarrow> u32 list" where
  "module_ends m ts = map (\<lambda>t. load32 m (t + 12)) (filter (\<lambda>t. tag_type m t = MBOOT2_TAG_MODULE) ts)"

lemma module_end_loop_list:
  "tag_list m tag ts \<Longrightarrow> tag_type m tag \<noteq> MBOOT2_TAG_END \<Longrightarrow>
     module_end_loop m tag b = Some (foldl max b (module_ends m ts))"
proof (induction ts arbitrary: tag b)
  case (Cons t ts)
  let ?n = "next_tag m tag"
  from Cons.prems have n: "tag_list m ?n ts" and t: "t = tag" by auto
  have mx: "(if y > x then y else x) = max x y" for x y :: u32
    by (simp add: max_def not_less) (metis order_le_less)
  show ?case
  proof (cases "tag_type m ?n = MBOOT2_TAG_END")
    case True
    with n have "ts = [?n]" by (cases ts) auto
    with True t Cons.prems show ?thesis
      by (subst module_end_loop.simps) (simp add: module_ends_def Let_def mx)
  next
    case False
    with Cons.IH [OF n] t show ?thesis
      by (subst module_end_loop.simps) (simp add: module_ends_def Let_def mx)
  qed
qed simp

lemma module_bounds_loop_list:
  "tag_list m tag ts \<Longrightarrow> tag_type m tag \<noteq> MBOOT2_TAG_END \<Longrightarrow> module_bounds_loop m tag b =
     Some (foldl (\<lambda>_ t. (load32 m (t + 8) + KERN_BASE, load32 m (t + 12) + KERN_BASE)) b
       (filter (\<lambda>t. tag_type m t = MBOOT2_TAG_MODULE) ts))"
proof (induction ts arbitrary: tag b)
  case (Cons t ts)
  let ?n = "next_tag m tag"
  from Cons.prems have n: "tag_list m ?n ts" and t: "t = tag" by auto
  show ?case
  proof (cases "tag_type m ?n = MBOOT2_TAG_END")
    case True
    with n have "ts = [?n]" by (cases ts) auto
    with True t Cons.prems show ?thesis by (subst module_bounds_loop.simps) (simp add: Let_def)
  next
    case False
    with Cons.IH [OF n] t show ?thesis by (subst module_bounds_loop.simps) (simp add: Let_def)
  qed
qed simp

section \<open>Properties\<close>

text \<open>
  On a tag list that an end tag closes, \<open>mboot2_find_tag\<close> returns, and it returns the address
  of the first tag of the requested type, or the null pointer when there is none.
\<close>

theorem mboot2_find_tag_first:
  assumes "tag_list m (mb2 + 8) ts"
  shows "mboot2_find_tag m mb2 ty =
           Some (case find (\<lambda>t. tag_type m t = ty) ts of Some t \<Rightarrow> t | None \<Rightarrow> NULL)"
  using assms unfolding mboot2_find_tag_def by (rule find_tag_loop_list)

definition demo_tags :: mem where
  "demo_tags = (\<lambda>_. 0)(108 := 4, 112 := 16, 124 := 3, 128 := 13, 140 := 0, 144 := 8)"

theorem mboot2_find_tag_first_witness:
  "mboot2_find_tag demo_tags 100 3 = Some 124 \<and> mboot2_find_tag demo_tags 100 9 = Some NULL"
proof -
  have "tag_list demo_tags (100 + 8) [108, 124, 140]"
    by (simp add: demo_tags_def tag_type_def tag_size_def next_tag_def load32_def)
  from mboot2_find_tag_first [OF this]
  show ?thesis by (simp add: demo_tags_def tag_type_def load32_def)
qed

end
