(* ===== verification/Pmm.thy ===== *)
theory Pmm
  imports Multiboot
begin

unbundle bit_operations_syntax

text \<open>
  The physical memory manager, kernel/memory/pmm.c: a bitmap with one bit per 4096-byte block.
  The bitmap is a function from word index to 32-bit word, because the C array is a bare pointer
  and an index past its end addresses the words that follow. Log output is left out. The
  abstraction is the set \<open>used_set\<close> of blocks in use; the locale \<open>frame_allocator\<close> is the
  contract the virtual memory manager relies on.
\<close>

section \<open>State and operations\<close>

record pmm =
  max_blocks :: u32
  used_blocks :: u32
  mem_size :: u32
  bitmap_addr :: u32
  pmm_bitmap_ptr :: ptr
  pmm_bitmap :: "u32 \<Rightarrow> u32"
  pmm_bitmap_size :: u32

abbreviation PMM_BLOCK_SIZE :: u32 where "PMM_BLOCK_SIZE \<equiv> 4096"

definition pmm_bitmap_set :: "u32 \<Rightarrow> pmm \<Rightarrow> pmm" where
  "pmm_bitmap_set b p = p\<lparr>
     pmm_bitmap := (pmm_bitmap p)(b div 32 := pmm_bitmap p (b div 32) OR push_bit (unat (b mod 32)) 1),
     used_blocks := used_blocks p + 1\<rparr>"

definition pmm_bitmap_unset :: "u32 \<Rightarrow> pmm \<Rightarrow> pmm" where
  "pmm_bitmap_unset b p = p\<lparr>
     pmm_bitmap := (pmm_bitmap p)(b div 32 := pmm_bitmap p (b div 32) AND NOT (push_bit (unat (b mod 32)) 1)),
     used_blocks := used_blocks p - 1\<rparr>"

definition pmm_bitmap_test :: "u32 \<Rightarrow> pmm \<Rightarrow> u32" where
  "pmm_bitmap_test b p = pmm_bitmap p (b div 32) AND push_bit (unat (b mod 32)) 1"

text \<open>The two nested loops: over the words of the bitmap and, in a word with a clear bit, over bits.\<close>

fun ffb_words :: "(u32 \<Rightarrow> u32) \<Rightarrow> nat list \<Rightarrow> u32 option" where
  "ffb_words bm [] = None"
| "ffb_words bm (i # is) =
     (if bm (of_nat i) \<noteq> 0xffffffff then
        (case find (\<lambda>j. bm (of_nat i) AND push_bit j 1 = 0) [0..<32] of
           Some j \<Rightarrow> Some (of_nat i * 32 + of_nat j)
         | None \<Rightarrow> ffb_words bm is)
      else ffb_words bm is)"

definition first_free_block :: "pmm \<Rightarrow> u32" where
  "first_free_block p =
     (case ffb_words (pmm_bitmap p) [0..<unat (max_blocks p div 32)] of Some b \<Rightarrow> b | None \<Rightarrow> 0)"

text \<open>The subtraction is unsigned, so the guard holds only when it is 0.\<close>

definition pmm_alloc_block :: "pmm \<Rightarrow> u32 \<times> pmm" where
  "pmm_alloc_block p =
     (if max_blocks p - used_blocks p \<le> 0 then (0, p)
      else let b = first_free_block p in (b * PMM_BLOCK_SIZE, pmm_bitmap_set b p))"

definition pmm_free_block :: "u32 \<Rightarrow> pmm \<Rightarrow> pmm" where
  "pmm_free_block addr p = pmm_bitmap_unset (addr div PMM_BLOCK_SIZE) p"

definition align_to :: "u32 \<Rightarrow> u32 \<Rightarrow> u32" where
  "align_to n align = (if n mod align = 0 then n else n + (align - n mod align))"

text \<open>Division rounding up; a zero divisor traps.\<close>

definition divide_up :: "u32 \<Rightarrow> u32 \<Rightarrow> kerr + u32" where
  "divide_up n d = (if d = 0 then Inl Div_by_zero else if n mod d = 0 then Inr (n div d) else Inr (1 + n div d))"

text \<open>
  Clearing \<open>n\<close> bytes of the bitmap: whole words, then the low bytes of the last word.
\<close>

definition clear_bytes :: "u32 \<Rightarrow> (u32 \<Rightarrow> u32) \<Rightarrow> (u32 \<Rightarrow> u32)" where
  "clear_bytes n bm = (\<lambda>i. if i < n div 4 then 0
     else if i = n div 4 then bm i AND NOT (mask (8 * unat (n mod 4))) else bm i)"

text \<open>\<open>kernel_end_phys\<close> is the linker's symbol. \<open>Inl Panic\<close> is the call of \<open>kpanic\<close>.\<close>

definition pmm_init :: "u32 \<Rightarrow> mem \<Rightarrow> ptr \<Rightarrow> pmm \<Rightarrow> (kerr + pmm) option" where
  "pmm_init kernel_end_phys m mb2 p =
     (case module_end_loop m (mb2 + 8) (bitmap_addr p) of
        None \<Rightarrow> None
      | Some b0 \<Rightarrow>
          let b = (if b0 < kernel_end_phys then kernel_end_phys else b0)
          in if b > KERN_BASE + 0x00400000 then Some (Inl Panic)
             else (case mboot2_find_tag m mb2 MBOOT2_TAG_BASIC_MEMINFO of
                 None \<Rightarrow> None
               | Some meminfo \<Rightarrow>
                   let ms = (load32 m (meminfo + 8) + load32 m (meminfo + 12)) * 1024;
                       mb = ms div PMM_BLOCK_SIZE
                   in Some (Inr (p\<lparr>bitmap_addr := b, mem_size := ms, max_blocks := mb,
                        pmm_bitmap_ptr := align_to (b + KERN_BASE) 4, pmm_bitmap_size := mb div 8,
                        pmm_bitmap := clear_bytes (mb div 8) (pmm_bitmap p)\<rparr>))))"

lemma divide_up_ceiling:
  assumes "d \<noteq> 0"
  shows "\<exists>q. divide_up n d = Inr q \<and> unat q = (unat n + unat d - 1) div unat d"
proof -
  have d: "0 < unat d" using assms by (simp add: unat_gt_0)
  have m: "unat (n mod d) = unat n mod unat d" "unat (n div d) = unat n div unat d" by (simp_all add: unat_mod unat_div)
  show ?thesis
  proof (cases "n mod d = 0")
    case True
    then have "unat n mod unat d = 0" using m(1) by simp
    then have "(unat n + (unat d - 1)) div unat d = unat n div unat d"
      using d by (metis add.right_neutral diff_less div_add1_eq div_eq_0_iff less_numeral_extra(1) mod_add_self2 mod_less plus_nat.add_0 dvd_eq_mod_eq_0 div_plus_div_distrib_dvd_left)
    then show ?thesis using True d m(2) assms by (simp add: divide_up_def)
  next
    case False
    then have nz: "0 < unat n mod unat d" using m(1) by (metis gr0I unat_eq_zero)
    then have d2: "2 \<le> unat d" using d by (cases "unat d = 1") auto
    have "unat n div unat d \<le> unat n div 2" using d2 by (simp add: div_le_mono2)
    then have b: "unat n div unat d + 1 < 2 ^ 32" using unsigned_less [of n, where 'a = nat] by simp
    then have "unat (1 + n div d) = Suc (unat n div unat d)" using m(2) by (simp add: unat_word_ariths)
    moreover have "unat n + unat d - 1 = (unat n mod unat d - 1) + Suc (unat n div unat d) * unat d"
      using nz mult_div_mod_eq [of "unat d" "unat n"] by (simp add: mult.commute)
    moreover have "((unat n mod unat d - 1) + Suc (unat n div unat d) * unat d) div unat d = Suc (unat n div unat d)"
      using d mod_less_divisor [OF d, of "unat n"] by (subst div_mult_self1) (simp_all add: less_imp_diff_less)
    ultimately show ?thesis using False assms by (simp add: divide_up_def)
  qed
qed

section \<open>Bits\<close>

text \<open>Block \<open>b\<close> is in use. Blocks are counted by \<open>nat\<close> below \<open>2 ^ 32\<close>.\<close>

definition blk_used :: "pmm \<Rightarrow> nat \<Rightarrow> bool" where
  "blk_used p b \<longleftrightarrow> bit (pmm_bitmap p (of_nat (b div 32))) (b mod 32)"

definition used_set :: "pmm \<Rightarrow> nat set" where
  "used_set p = {b. b < unat (max_blocks p) \<and> blk_used p b}"

lemma finite_used_set [simp]: "finite (used_set p)"
  by (rule finite_subset [of _ "{..<unat (max_blocks p)}"]) (auto simp: used_set_def)

lemma and_single_bit: "(w :: u32) AND push_bit j 1 = 0 \<longleftrightarrow> j < 32 \<longrightarrow> \<not> bit w j"
proof -
  have "w AND push_bit j 1 = (if j < 32 \<and> bit w j then push_bit j 1 else 0)"
    by (rule bit_word_eqI) (auto simp: bit_simps)
  moreover have "push_bit j (1 :: u32) \<noteq> 0" if "j < 32" using that by simp
  ultimately show ?thesis by auto
qed

lemma and_pow_bit: "(w :: u32) AND 2 ^ j = 0 \<longleftrightarrow> j < 32 \<longrightarrow> \<not> bit w j"
  using and_single_bit [of w j] by (simp add: push_bit_eq_mult)

lemma blk_word_bit:
  assumes "b < 2 ^ 32"
  shows "(of_nat b :: u32) div 32 = of_nat (b div 32)" and "unat ((of_nat b :: u32) mod 32) = b mod 32"
proof -
  show "(of_nat b :: u32) div 32 = of_nat (b div 32)"
    using assms by (intro word_unat_eq_iff [THEN iffD2]) (simp add: unat_div)
  show "unat ((of_nat b :: u32) mod 32) = b mod 32"
    using assms by (simp add: unat_mod)
qed

lemma word_index_inject:
  assumes "b < 2 ^ 32" and "c < 2 ^ 32"
  shows "(of_nat (b div 32) :: u32) = of_nat (c div 32) \<longleftrightarrow> b div 32 = c div 32"
  using assms by (intro of_nat32_inject) (auto simp: div_le_dividend intro: le_less_trans)

lemma blk_eq_iff: "b = c \<longleftrightarrow> b div 32 = c div 32 \<and> b mod 32 = c mod (32 :: nat)"
  by (metis div_mult_mod_eq)

lemma blk_used_set:
  assumes "b < 2 ^ 32" and "c < 2 ^ 32"
  shows "blk_used (pmm_bitmap_set (of_nat b) p) c \<longleftrightarrow> c = b \<or> blk_used p c"
  using assms
  by (auto simp: blk_used_def pmm_bitmap_set_def blk_word_bit word_index_inject bit_simps
      blk_eq_iff [of c b])

lemma blk_used_unset:
  assumes "b < 2 ^ 32" and "c < 2 ^ 32"
  shows "blk_used (pmm_bitmap_unset (of_nat b) p) c \<longleftrightarrow> c \<noteq> b \<and> blk_used p c"
  using assms
  by (auto simp: blk_used_def pmm_bitmap_unset_def blk_word_bit word_index_inject bit_simps
      blk_eq_iff [of c b])

lemma pmm_set_fields [simp]:
  "max_blocks (pmm_bitmap_set b p) = max_blocks p"
  "used_blocks (pmm_bitmap_set b p) = used_blocks p + 1"
  "max_blocks (pmm_bitmap_unset b p) = max_blocks p"
  "used_blocks (pmm_bitmap_unset b p) = used_blocks p - 1"
  by (simp_all add: pmm_bitmap_set_def pmm_bitmap_unset_def)

text \<open>Setting a clear bit and clearing it again gives back the same state.\<close>

lemma unset_set:
  assumes "b < 2 ^ 32" and "\<not> blk_used p b"
  shows "pmm_bitmap_unset (of_nat b) (pmm_bitmap_set (of_nat b) p) = p"
proof -
  let ?w = "pmm_bitmap p (of_nat (b div 32))" and ?k = "push_bit (b mod 32) (1 :: u32)"
  have "(?w OR ?k) AND NOT ?k = ?w"
    using assms(2) by (intro bit_word_eqI) (auto simp: bit_simps blk_used_def)
  then show ?thesis
    using assms(1) by (simp add: pmm_bitmap_set_def pmm_bitmap_unset_def blk_word_bit)
qed

section \<open>The search\<close>

text \<open>\<open>first_clear u lo hi c\<close>: \<open>c\<close> is the least number from \<open>lo\<close> below \<open>hi\<close> outside \<open>u\<close>.\<close>

definition first_clear :: "(nat \<Rightarrow> bool) \<Rightarrow> nat \<Rightarrow> nat \<Rightarrow> nat \<Rightarrow> bool" where
  "first_clear u lo hi c \<longleftrightarrow> lo \<le> c \<and> c < hi \<and> \<not> u c \<and> (\<forall>d. lo \<le> d \<and> d < c \<longrightarrow> u d)"

lemma first_clear_unique: "first_clear u lo hi c \<Longrightarrow> first_clear u lo hi d \<Longrightarrow> c = d"
  unfolding first_clear_def by (metis linorder_neqE_nat)

lemma first_clear_extend:
  assumes "\<And>c. lo \<le> c \<Longrightarrow> c < mid \<Longrightarrow> u c" and "lo \<le> mid" and "first_clear u mid hi c"
  shows "first_clear u lo hi c"
  using assms unfolding first_clear_def by (metis le_trans not_less)

lemma all_ones: "(0xffffffff :: u32) = - 1"
  by simp

lemma find_clear_bit:
  fixes w :: u32
  shows "find (\<lambda>j. w AND push_bit j 1 = 0) [0..<32] = Some j \<Longrightarrow> first_clear (bit w) 0 32 j"
    and "find (\<lambda>j. w AND push_bit j 1 = 0) [0..<32] = None \<longleftrightarrow> w = 0xffffffff"
proof -
  show "find (\<lambda>j. w AND push_bit j 1 = 0) [0..<32] = Some j \<Longrightarrow> first_clear (bit w) 0 32 j"
    by (auto simp: find_Some_iff first_clear_def and_pow_bit)
  have "find (\<lambda>j. w AND push_bit j 1 = 0) [0..<32] = None \<longleftrightarrow> (\<forall>j < 32. bit w j)"
    by (auto simp: find_None_iff and_pow_bit)
  also have "\<dots> \<longleftrightarrow> w = - 1"
    by (auto intro!: bit_word_eqI)
  finally show "find (\<lambda>j. w AND push_bit j 1 = 0) [0..<32] = None \<longleftrightarrow> w = 0xffffffff" unfolding all_ones .
qed

abbreviation map_bit :: "(u32 \<Rightarrow> u32) \<Rightarrow> nat \<Rightarrow> bool" where
  "map_bit bm c \<equiv> bit (bm (of_nat (c div 32))) (c mod 32)"

lemma word_first_clear:
  assumes fc: "first_clear (bit (bm (of_nat k))) 0 32 j" and "k < n"
  shows "first_clear (map_bit bm) (32 * k) (32 * n) (k * 32 + j)"
  unfolding first_clear_def
proof (intro conjI allI impI)
  show "k * 32 + j < 32 * n" using fc assms(2) by (auto simp: first_clear_def)
  show "\<not> map_bit bm (k * 32 + j)" using fc by (simp add: first_clear_def)
next
  fix d assume d: "32 * k \<le> d \<and> d < k * 32 + j"
  then have "d div 32 = k" using fc by (auto simp: first_clear_def)
  moreover have "d mod 32 < j"
    using d div_mult_mod_eq [of d 32] \<open>d div 32 = k\<close> by linarith
  then have "bit (bm (of_nat k)) (d mod 32)" using fc by (simp add: first_clear_def)
  ultimately show "map_bit bm d" by simp
qed simp

lemma ffb_words_spec:
  assumes "k \<le> n"
  shows "case ffb_words bm [k..<n] of
           None \<Rightarrow> \<forall>c. 32 * k \<le> c \<and> c < 32 * n \<longrightarrow> map_bit bm c
         | Some b \<Rightarrow> \<exists>c. b = of_nat c \<and> first_clear (map_bit bm) (32 * k) (32 * n) c"
  using assms
proof (induction k rule: inc_induct)
  case base
  then show ?case by auto
next
  case (step k)
  let ?w = "bm (of_nat k)"
  have upt: "[k..<n] = k # [Suc k..<n]" using step.hyps by (simp add: upt_conv_Cons)
  show ?case
  proof (cases "?w = 0xffffffff")
    case True
    have full: "map_bit bm c" if "32 * k \<le> c" "c < 32 * Suc k" for c
    proof -
      have "c div 32 = k" using that by auto
      then show ?thesis using True unfolding all_ones by simp
    qed
    have "map_bit bm c" if "\<forall>c. 32 * Suc k \<le> c \<and> c < 32 * n \<longrightarrow> map_bit bm c"
      and "32 * k \<le> c" "c < 32 * n" for c
      using that full by (cases "c < 32 * Suc k") simp_all
    moreover have "first_clear (map_bit bm) (32 * k) (32 * n) c"
      if "first_clear (map_bit bm) (32 * Suc k) (32 * n) c" for c
      by (rule first_clear_extend [OF full _ that]) simp_all
    ultimately show ?thesis
      using step.IH True unfolding upt by (auto split: option.splits)
  next
    case False
    then obtain j where j: "find (\<lambda>j. ?w AND push_bit j 1 = 0) [0..<32] = Some j"
      using find_clear_bit(2) [of ?w] by blast
    have "first_clear (map_bit bm) (32 * k) (32 * n) (k * 32 + j)"
      using word_first_clear [of bm k j n] find_clear_bit(1) [OF j] step.hyps(2) by blast
    with False j show ?thesis unfolding upt by (auto intro!: exI [of _ "k * 32 + j"])
  qed
qed

section \<open>Invariant\<close>

text \<open>
  The counter agrees with the bitmap, and the bitmap has no partial last word. The bound on the
  number of blocks holds because memory sizes are 32-bit byte counts.
\<close>

definition pmm_ok :: "pmm \<Rightarrow> bool" where
  "pmm_ok p \<longleftrightarrow> 32 dvd unat (max_blocks p) \<and> unat (max_blocks p) \<le> 2 ^ 20
     \<and> unat (used_blocks p) = card (used_set p)"

lemma card_used_le: "card (used_set p) \<le> unat (max_blocks p)"
  by (rule order_trans [OF card_mono [of "{..<unat (max_blocks p)}"]]) (auto simp: used_set_def)

lemma full_iff: "card (used_set p) = unat (max_blocks p) \<longleftrightarrow> used_set p = {..<unat (max_blocks p)}"
  by (rule iffI, rule card_subset_eq) (auto simp: used_set_def)

lemma first_free_block_spec:
  assumes "pmm_ok p" and "card (used_set p) < unat (max_blocks p)"
  shows "\<exists>c. first_free_block p = of_nat c \<and> first_clear (blk_used p) 0 (unat (max_blocks p)) c"
proof -
  let ?n = "unat (max_blocks p)"
  have n: "32 * unat (max_blocks p div 32) = ?n"
    using assms(1) by (simp add: pmm_ok_def unat_div)
  have "used_set p \<noteq> {..<?n}" using assms(2) by (metis card_lessThan less_irrefl)
  then obtain c where c: "c < ?n" "\<not> blk_used p c" by (auto simp: used_set_def)
  have u: "map_bit (pmm_bitmap p) = blk_used p" by (simp add: fun_eq_iff blk_used_def)
  note spec = ffb_words_spec [of 0 "unat (max_blocks p div 32)" "pmm_bitmap p", unfolded n u, simplified]
  show ?thesis
  proof (cases "ffb_words (pmm_bitmap p) [0..<unat (max_blocks p div 32)]")
    case None
    with spec c show ?thesis by (simp add: blk_used_def)
  next
    case (Some b)
    with spec show ?thesis by (simp add: first_free_block_def)
  qed
qed

lemma blk_addr: "c < 2 ^ 20 \<Longrightarrow> unat (of_nat c * 4096 :: u32) = c * 4096"
  by (simp add: unat_word_ariths unat_of_nat take_bit_eq_mod)

lemma blk_addr_div: "c < 2 ^ 20 \<Longrightarrow> (of_nat c * 4096 :: u32) div 4096 = of_nat c"
  by (rule word_unat_eq_iff [THEN iffD2]) (simp add: unat_div blk_addr)

lemma guard_iff:
  "max_blocks p - used_blocks p \<le> 0 \<longleftrightarrow> unat (used_blocks p) = unat (max_blocks p)"
  by (auto simp flip: word_unat_eq_iff)

lemma used_set_after_set:
  "c < unat (max_blocks p) \<Longrightarrow> used_set (pmm_bitmap_set (of_nat c) p) = insert c (used_set p)"
  using unsigned_less [of "max_blocks p", where 'a = nat]
  by (auto simp: used_set_def blk_used_set)

lemma used_set_after_unset:
  "c < unat (max_blocks p) \<Longrightarrow> used_set (pmm_bitmap_unset (of_nat c) p) = used_set p - {c}"
  using unsigned_less [of "max_blocks p", where 'a = nat]
  by (auto simp: used_set_def blk_used_unset)

lemma pmm_alloc_spec:
  assumes ok: "pmm_ok p" and room: "card (used_set p) < unat (max_blocks p)"
  shows "\<exists>c. pmm_alloc_block p = (of_nat c * 4096, pmm_bitmap_set (of_nat c) p)
           \<and> first_clear (blk_used p) 0 (unat (max_blocks p)) c
           \<and> used_set (pmm_bitmap_set (of_nat c) p) = insert c (used_set p)
           \<and> pmm_ok (pmm_bitmap_set (of_nat c) p)"
proof -
  obtain c where c: "first_free_block p = of_nat c" "first_clear (blk_used p) 0 (unat (max_blocks p)) c"
    using first_free_block_spec assms by blast
  have cu: "c < unat (max_blocks p)" "c \<notin> used_set p"
    using c(2) by (auto simp: first_clear_def used_set_def)
  have u: "unat (used_blocks p) = card (used_set p)" using ok by (simp add: pmm_ok_def)
  have a: "pmm_alloc_block p = (of_nat c * 4096, pmm_bitmap_set (of_nat c) p)"
    using room guard_iff [of p] by (simp add: pmm_alloc_block_def c(1) u Let_def)
  have "unat (used_blocks p + 1) = Suc (card (used_set p))"
    using room u unsigned_less [of "max_blocks p", where 'a = nat] by (simp add: unat_word_ariths)
  then have "pmm_ok (pmm_bitmap_set (of_nat c) p)"
    using ok cu by (simp add: pmm_ok_def used_set_after_set)
  with a c(2) cu show ?thesis by (auto simp: used_set_after_set)
qed

lemma pmm_free_spec:
  assumes ok: "pmm_ok p" and c: "c \<in> used_set p"
  shows "used_set (pmm_free_block (of_nat c * 4096) p) = used_set p - {c}
           \<and> pmm_ok (pmm_free_block (of_nat c * 4096) p)
           \<and> max_blocks (pmm_free_block (of_nat c * 4096) p) = max_blocks p"
proof -
  have cm: "c < unat (max_blocks p)" "c < 2 ^ 20" using ok c by (auto simp: pmm_ok_def used_set_def)
  have "0 < card (used_set p)" using c by (auto simp: card_gt_0_iff)
  then have "1 \<le> used_blocks p" using ok by (simp add: pmm_ok_def word_le_nat_alt)
  then have "unat (used_blocks p - 1) = card (used_set p - {c})"
    using ok c by (simp add: pmm_ok_def unat_sub)
  then show ?thesis
    using ok cm by (simp add: pmm_free_block_def blk_addr_div pmm_ok_def used_set_after_unset)
qed

section \<open>The contract of a frame allocator\<close>

text \<open>
  What the virtual memory manager needs of the source of physical frames: a set of frames in
  use, allocation of the least free frame, and release. The second lemma is the one the boot
  code depends on: from a prefix of used frames, allocation hands out the next frame in order.
\<close>

locale frame_allocator =
  fixes alloc :: "'s \<Rightarrow> u32 \<times> 's"
    and free :: "u32 \<Rightarrow> 's \<Rightarrow> 's"
    and used :: "'s \<Rightarrow> nat set"
    and cap :: "'s \<Rightarrow> nat"
    and ok :: "'s \<Rightarrow> bool"
  assumes used_cap: "ok s \<Longrightarrow> used s \<subseteq> {..<cap s}"
    and alloc_least: "ok s \<Longrightarrow> card (used s) < cap s \<Longrightarrow>
      \<exists>c s'. alloc s = (of_nat c * 4096, s') \<and> c < cap s \<and> c \<notin> used s \<and> {..<c} \<subseteq> used s
        \<and> used s' = insert c (used s) \<and> cap s' = cap s \<and> ok s'"
    and alloc_full: "ok s \<Longrightarrow> card (used s) = cap s \<Longrightarrow> alloc s = (0, s)"
    and free_used: "ok s \<Longrightarrow> c \<in> used s \<Longrightarrow>
      used (free (of_nat c * 4096) s) = used s - {c} \<and> cap (free (of_nat c * 4096) s) = cap s
        \<and> ok (free (of_nat c * 4096) s)"
begin

lemma alloc_next:
  assumes "ok s" and "used s = {..<k}" and "k < cap s"
  shows "\<exists>s'. alloc s = (of_nat k * 4096, s') \<and> used s' = {..<Suc k} \<and> cap s' = cap s \<and> ok s'"
proof -
  obtain c s' where c: "alloc s = (of_nat c * 4096, s')" "c \<notin> used s" "{..<c} \<subseteq> used s"
      "used s' = insert c (used s)" "cap s' = cap s" "ok s'"
    using alloc_least [OF assms(1)] assms by auto
  then have "c = k" using assms(2) by (metis lessThan_iff lessThan_subset_iff linorder_neqE_nat not_less)
  with c assms(2) show ?thesis by (auto simp: lessThan_Suc)
qed

text \<open>Frames handed out one after the other differ as long as the first is not released.\<close>

lemma alloc_twice_distinct:
  assumes "ok s" and "card (used s) + 1 < cap s"
  shows "\<exists>c d s' s''. alloc s = (of_nat c * 4096, s') \<and> alloc s' = (of_nat d * 4096, s'')
           \<and> c \<noteq> d \<and> c < cap s \<and> d < cap s \<and> ok s''"
proof -
  obtain c s' where c: "alloc s = (of_nat c * 4096, s')" "c < cap s"
      "used s' = insert c (used s)" "cap s' = cap s" "ok s'" "c \<notin> used s"
    using alloc_least [OF assms(1)] assms(2) by auto
  have "finite (used s)" using used_cap [OF assms(1)] finite_subset by blast
  then have "card (used s') < cap s'" using c assms(2) by simp
  then obtain d s'' where "alloc s' = (of_nat d * 4096, s'')" "d < cap s'" "d \<notin> used s'" "ok s''"
    using alloc_least [OF c(5)] by blast
  with c show ?thesis by auto
qed

end

interpretation pm: frame_allocator pmm_alloc_block pmm_free_block used_set
  "\<lambda>p. unat (max_blocks p)" pmm_ok
proof unfold_locales
  fix s assume ok: "pmm_ok s"
  show "used_set s \<subseteq> {..<unat (max_blocks s)}" by (auto simp: used_set_def)
  show "\<exists>c s'. pmm_alloc_block s = (of_nat c * 4096, s') \<and> c < unat (max_blocks s) \<and> c \<notin> used_set s
      \<and> {..<c} \<subseteq> used_set s \<and> used_set s' = insert c (used_set s)
      \<and> unat (max_blocks s') = unat (max_blocks s) \<and> pmm_ok s'"
    if room: "card (used_set s) < unat (max_blocks s)"
  proof -
    obtain c where c: "pmm_alloc_block s = (of_nat c * 4096, pmm_bitmap_set (of_nat c) s)"
        "first_clear (blk_used s) 0 (unat (max_blocks s)) c"
        "used_set (pmm_bitmap_set (of_nat c) s) = insert c (used_set s)"
        "pmm_ok (pmm_bitmap_set (of_nat c) s)"
      using pmm_alloc_spec [OF ok room] by blast
    moreover have "c \<notin> used_set s" "c < unat (max_blocks s)" "{..<c} \<subseteq> used_set s"
      using c(2) by (auto simp: first_clear_def used_set_def)
    ultimately show ?thesis by (intro exI conjI) simp_all
  qed
  show "pmm_alloc_block s = (0, s)" if "card (used_set s) = unat (max_blocks s)"
  proof -
    have "unat (used_blocks s) = unat (max_blocks s)" using that ok unfolding pmm_ok_def by metis
    then show ?thesis unfolding pmm_alloc_block_def guard_iff by (rule if_P)
  qed
  show "used_set (pmm_free_block (of_nat c * 4096) s) = used_set s - {c}
      \<and> unat (max_blocks (pmm_free_block (of_nat c * 4096) s)) = unat (max_blocks s)
      \<and> pmm_ok (pmm_free_block (of_nat c * 4096) s)" if "c \<in> used_set s" for c
    using pmm_free_spec [OF ok that] by simp
qed

section \<open>Initialisation\<close>

lemma clear_bytes_bits:
  assumes "c div 8 < unat n"
  shows "\<not> map_bit (clear_bytes n bm) c"
proof -
  let ?i = "of_nat (c div 32) :: u32"
  have n: "unat n < 2 ^ 32" using unsigned_less [of n, where 'a = nat] by simp
  have d: "c div 32 = c div 8 div 4" by (simp flip: div_mult2_eq)
  have "c div 8 div 4 < 2 ^ 32"
    using assms n by (rule le_less_trans [OF div_le_dividend less_trans])
  then have i: "unat ?i = c div 32" unfolding d by (rule unat_of_nat32)
  show ?thesis
  proof (cases "c div 32 < unat n div 4")
    case True
    then show ?thesis by (simp add: clear_bytes_def word_less_nat_alt i unat_div)
  next
    case False
    moreover have "c div 8 div 4 \<le> unat n div 4" using assms by (intro div_le_mono) simp
    ultimately have q: "c div 32 = unat n div 4" unfolding d by simp
    have "unat (n div 4) = unat n div 4" by (simp add: unat_div)
    with i q have e: "?i = n div 4" by (metis word_unat_eq_iff)
    have "c div 8 div 4 = unat n div 4" using q d by simp
    then have "c div 8 mod 4 < unat n mod 4"
      using assms div_mult_mod_eq [of "c div 8" 4] div_mult_mod_eq [of "unat n" 4] by linarith
    moreover have "c mod 32 = 8 * (c div 8 mod 4) + c mod 8" using mod_mult2_eq [of c 8 4] by simp
    ultimately have "c mod 32 < 8 * (unat n mod 4)" using mod_less_divisor [of 8 c] by linarith
    with e show ?thesis by (simp add: clear_bytes_def bit_simps unat_mod)
  qed
qed

lemma foldl_max_base: "b \<le> foldl max b xs" for b :: u32
proof (induction xs arbitrary: b)
  case (Cons x xs)
  have "b \<le> max b x" by simp
  also have "\<dots> \<le> foldl max (max b x) xs" by (rule Cons.IH)
  finally show ?case by simp
qed simp

lemma foldl_max_ge: "x \<in> set xs \<Longrightarrow> x \<le> foldl max b xs" for b :: u32
  by (induction xs arbitrary: b) (auto intro: order_trans [OF _ foldl_max_base])

lemma foldl_max_le: "b \<le> u \<Longrightarrow> (\<And>x. x \<in> set xs \<Longrightarrow> x \<le> u) \<Longrightarrow> foldl max b xs \<le> u" for b :: u32
  by (induction xs arbitrary: b) auto

lemma cleared_ok:
  assumes "32 dvd unat (max_blocks p)" and "unat (max_blocks p) \<le> 2 ^ 20" and "used_blocks p = 0"
    and "pmm_bitmap p = clear_bytes (max_blocks p div 8) bm"
  shows "used_set p = {} \<and> pmm_ok p"
proof -
  obtain k where k: "unat (max_blocks p) = 32 * k" using assms(1) by (auto simp: dvd_def)
  have "\<not> blk_used p c" if "c < unat (max_blocks p)" for c
  proof -
    have "c div 8 < unat (max_blocks p div 8)" using that k by (auto simp: unat_div)
    from clear_bytes_bits [OF this, of bm] show ?thesis by (simp add: blk_used_def assms(4))
  qed
  then have "used_set p = {}" by (auto simp: used_set_def)
  with assms show ?thesis by (simp add: pmm_ok_def)
qed

lemma mem_blocks_bound: "unat (n div 4096 :: u32) < 2 ^ 20"
  using unsigned_less [of n, where 'a = nat] by (simp add: unat_div div_less_iff_less_mult)

section \<open>Steps\<close>

text \<open>The uses of the allocator: allocations, and releases of blocks that are in use.\<close>

inductive pmm_step :: "pmm \<Rightarrow> pmm \<Rightarrow> bool" where
  step_alloc: "pmm_step p (snd (pmm_alloc_block p))"
| step_free: "c \<in> used_set p \<Longrightarrow> pmm_step p (pmm_free_block (of_nat c * 4096) p)"

inductive_cases pmm_stepE: "pmm_step p q"

lemma pmm_alloc_ok: "pmm_ok p \<Longrightarrow> pmm_ok (snd (pmm_alloc_block p))"
proof (cases "card (used_set p) < unat (max_blocks p)")
  case True
  then show "pmm_ok p \<Longrightarrow> ?thesis" using pm.alloc_least by fastforce
next
  case False
  then have "card (used_set p) = unat (max_blocks p)" using card_used_le [of p] by simp
  then show "pmm_ok p \<Longrightarrow> ?thesis" using pm.alloc_full [of p] by simp
qed

lemma pmm_step_ok: "pmm_step p q \<Longrightarrow> pmm_ok p \<Longrightarrow> pmm_ok q"
  by (auto elim!: pmm_stepE simp: pmm_alloc_ok pm.free_used)

interpretation pm_steps: step_invariant pmm_step pmm_ok
  by unfold_locales (rule pmm_step_ok)

section \<open>Properties\<close>

definition demo_pmm :: pmm where
  "demo_pmm = \<lparr>max_blocks = 64, used_blocks = 0, mem_size = 0x40000, bitmap_addr = 0,
     pmm_bitmap_ptr = 0xc0200000, pmm_bitmap = (\<lambda>_. 0), pmm_bitmap_size = 8\<rparr>"

lemma demo_pmm_ok: "pmm_ok demo_pmm" and demo_pmm_empty: "used_set demo_pmm = {}"
  by (simp_all add: pmm_ok_def used_set_def blk_used_def demo_pmm_def)

lemma demo_pmm_room: "card (used_set demo_pmm) < unat (max_blocks demo_pmm)"
  by (simp only: demo_pmm_empty) (simp add: demo_pmm_def)



text \<open>
  Releasing the block that was just allocated restores the allocator exactly: bitmap, counter
  and all other fields.
\<close>

theorem pmm_free_undoes_alloc:
  assumes "pmm_ok p" and "card (used_set p) < unat (max_blocks p)"
  shows "case pmm_alloc_block p of (a, p') \<Rightarrow> pmm_free_block a p' = p"
proof -
  obtain c where c: "pmm_alloc_block p = (of_nat c * 4096, pmm_bitmap_set (of_nat c) p)"
      "first_clear (blk_used p) 0 (unat (max_blocks p)) c"
    using pmm_alloc_spec [OF assms] by blast
  then have "c < 2 ^ 20" "\<not> blk_used p c" using assms(1) by (auto simp: first_clear_def pmm_ok_def)
  then show ?thesis
    using c(1) unset_set [of c p] by (simp add: pmm_free_block_def blk_addr_div)
qed

theorem pmm_free_undoes_alloc_witness:
  "case pmm_alloc_block demo_pmm of (a, p') \<Rightarrow> pmm_free_block a p' = demo_pmm"
  by (rule pmm_free_undoes_alloc [OF demo_pmm_ok demo_pmm_room])

text \<open>
  C5: the allocator's invariant (counter equal to the number of set bits) holds in every state
  reached from a good state by allocations, failing ones included, and by releases of blocks
  that are in use.
\<close>

theorem pmm_reachable_ok:
  assumes "pmm_step\<^sup>*\<^sup>* p0 p" and "pmm_ok p0"
  shows "pmm_ok p"
  using assms by (rule pm_steps.inv_steps)

theorem pmm_reachable_ok_witness: "pmm_ok (snd (pmm_alloc_block demo_pmm))"
  by (rule pmm_reachable_ok [OF r_into_rtranclp [of pmm_step, OF step_alloc] demo_pmm_ok])

text \<open>
  When the number of blocks is not a multiple of 32, the blocks of the partial last word are
  never found. Once all full words are used, \<open>pmm_alloc_block\<close> hands out block 0 again, although
  it is in use and blocks are still free, and the counter moves away from the bitmap.
\<close>

theorem pmm_partial_word_double_alloc:
  assumes "used_set p = {..<32 * (unat (max_blocks p) div 32)}"
    and "unat (used_blocks p) = card (used_set p)" and "32 \<le> unat (max_blocks p)"
    and "\<not> 32 dvd unat (max_blocks p)"
  shows "case pmm_alloc_block p of (a, p') \<Rightarrow> a = 0 \<and> 0 \<in> used_set p \<and> used_set p' = used_set p
           \<and> unat (used_blocks p') = card (used_set p') + 1"
proof -
  let ?n = "unat (max_blocks p)" and ?k = "unat (max_blocks p) div 32"
  have "32 * ?k \<noteq> ?n" using assms(4) by (metis dvd_triv_left)
  then have lt: "32 * ?k < ?n" using div_times_less_eq_dividend [of ?n 32] by linarith
  have full: "map_bit (pmm_bitmap p) c" if "c < 32 * ?k" for c
    using that assms(1) by (auto simp: used_set_def blk_used_def)
  have "ffb_words (pmm_bitmap p) [0..<?k] = None"
    using ffb_words_spec [of 0 ?k "pmm_bitmap p"] full by (auto simp: first_clear_def split: option.splits)
  then have b: "first_free_block p = 0" by (simp add: first_free_block_def unat_div)
  have u: "unat (used_blocks p) = 32 * ?k" using assms(1,2) by simp
  have z: "0 \<in> used_set p" using assms(1,3) by simp
  have "used_set (pmm_bitmap_set 0 p) = used_set p"
    using used_set_after_set [of 0 p] z lt by (simp add: insert_absorb)
  moreover have "pmm_alloc_block p = (0, pmm_bitmap_set 0 p)"
    using lt u guard_iff [of p] b by (simp add: pmm_alloc_block_def Let_def)
  moreover have "unat (used_blocks p + 1) = unat (used_blocks p) + 1"
    using u lt unsigned_less [of "max_blocks p", where 'a = nat] by (simp add: unat_word_ariths)
  ultimately show ?thesis using z assms(2) by simp
qed

definition demo_pmm_tail :: pmm where
  "demo_pmm_tail = demo_pmm\<lparr>max_blocks := 40, used_blocks := 32, pmm_bitmap := (\<lambda>_. 0)(0 := 0xffffffff)\<rparr>"

lemma demo_tail_used: "used_set demo_pmm_tail = {..<32}"
proof -
  have "blk_used demo_pmm_tail b \<longleftrightarrow> b < 32" if "b < 40" for b
  proof (cases "b < 32")
    case True
    then show ?thesis unfolding blk_used_def demo_pmm_tail_def demo_pmm_def all_ones by simp
  next
    case False
    with that have "b div 32 = 1" by auto
    with False show ?thesis by (simp add: blk_used_def demo_pmm_tail_def demo_pmm_def)
  qed
  then show ?thesis by (auto simp: used_set_def) (simp_all add: demo_pmm_tail_def)
qed

theorem pmm_partial_word_double_alloc_witness:
  "case pmm_alloc_block demo_pmm_tail of (a, p') \<Rightarrow> a = 0 \<and> 0 \<in> used_set demo_pmm_tail
     \<and> used_set p' = used_set demo_pmm_tail \<and> unat (used_blocks p') = card (used_set p') + 1"
  by (rule pmm_partial_word_double_alloc) (simp_all add: demo_tail_used, simp_all add: demo_pmm_tail_def)

lemma pmm_init_ok:
  assumes "tag_list m (mbi + 8) ts" and "tag_type m (mbi + 8) \<noteq> MBOOT2_TAG_END"
    and "find (\<lambda>t. tag_type m t = MBOOT2_TAG_BASIC_MEMINFO) ts = Some mi"
    and "\<forall>e \<in> set (kend # module_ends m ts). e \<le> 0xc0400000"
    and "32 dvd unat ((load32 m (mi + 8) + load32 m (mi + 12)) * 1024 div 4096)"
    and "bitmap_addr p = 0" and "used_blocks p = 0"
  shows "\<exists>p'. pmm_init kend m mbi p = Some (Inr p') \<and> pmm_ok p' \<and> used_set p' = {}
           \<and> max_blocks p' = (load32 m (mi + 8) + load32 m (mi + 12)) * 1024 div 4096
           \<and> (\<forall>e \<in> set (kend # module_ends m ts). e \<le> bitmap_addr p')
           \<and> pmm_bitmap_ptr p' = align_to (bitmap_addr p' + KERN_BASE) 4 \<and> pmm_bitmap_size p' = max_blocks p' div 8
           \<and> bitmap_addr p' = (let b = foldl max 0 (module_ends m ts) in if b < kend then kend else b)"
proof -
  let ?bm = "foldl max 0 (module_ends m ts)" and ?mb = "(load32 m (mi + 8) + load32 m (mi + 12)) * 1024 div 4096"
  let ?b = "if ?bm < kend then kend else ?bm"
  have b: "module_end_loop m (mbi + 8) (bitmap_addr p) = Some ?bm"
    using module_end_loop_list [OF assms(1,2)] assms(6) by simp
  have le: "?b \<le> 0xc0400000" using assms(4) by (auto intro: foldl_max_le)
  have f: "mboot2_find_tag m mbi MBOOT2_TAG_BASIC_MEMINFO = Some mi"
    using find_tag_loop_list [OF assms(1)] assms(3) by (simp add: mboot2_find_tag_def)
  define p' where "p' = p\<lparr>bitmap_addr := ?b, mem_size := (load32 m (mi + 8) + load32 m (mi + 12)) * 1024,
    max_blocks := ?mb, pmm_bitmap_ptr := align_to (?b + KERN_BASE) 4, pmm_bitmap_size := ?mb div 8,
    pmm_bitmap := clear_bytes (?mb div 8) (pmm_bitmap p)\<rparr>"
  have "pmm_init kend m mbi p = Some (Inr p')"
    using b f le by (simp add: pmm_init_def Let_def p'_def not_less)
  moreover have "used_set p' = {} \<and> pmm_ok p'"
    using assms(5,7) mem_blocks_bound [THEN less_imp_le] by (intro cleared_ok) (simp_all add: p'_def)
  moreover have "e \<le> ?b" if "e \<in> set (kend # module_ends m ts)" for e
    using that foldl_max_ge [of e "module_ends m ts" 0] by auto
  ultimately show ?thesis by (intro exI [of _ p']) (simp add: p'_def)
qed

text \<open>
  Given a well-formed tag list whose modules and kernel image end below the limit and whose
  memory size is a multiple of 128 KiB, \<open>pmm_init\<close> returns an allocator with every block free and
  the invariant established; the bitmap starts after the kernel and after every module.
\<close>

theorem pmm_init_establishes:
  assumes "tag_list m (mbi + 8) ts" and "tag_type m (mbi + 8) \<noteq> MBOOT2_TAG_END"
    and "find (\<lambda>t. tag_type m t = MBOOT2_TAG_BASIC_MEMINFO) ts = Some mi"
    and "\<forall>e \<in> set (kend # module_ends m ts). e \<le> 0xc0400000"
    and "32 dvd unat ((load32 m (mi + 8) + load32 m (mi + 12)) * 1024 div 4096)"
    and "bitmap_addr p = 0" and "used_blocks p = 0"
  shows "\<exists>p'. pmm_init kend m mbi p = Some (Inr p') \<and> pmm_ok p' \<and> used_set p' = {}
           \<and> max_blocks p' = (load32 m (mi + 8) + load32 m (mi + 12)) * 1024 div 4096
           \<and> (\<forall>e \<in> set (kend # module_ends m ts). e \<le> bitmap_addr p')"
  using pmm_init_ok [OF assms] by blast

definition demo_boot :: mem where
  "demo_boot = (\<lambda>_. 0)(108 := 4, 112 := 16, 116 := 64, 120 := 64, 124 := 3, 128 := 16, 133 := 9,
     137 := 16, 140 := 0, 144 := 8)"

theorem pmm_init_establishes_witness:
  "\<exists>p'. pmm_init 0x2000 demo_boot 100 demo_pmm = Some (Inr p') \<and> pmm_ok p' \<and> used_set p' = {}
     \<and> max_blocks p' = 32 \<and> (\<forall>e \<in> set [0x2000, 0x1000 :: u32]. e \<le> bitmap_addr p')"
proof -
  note ev = demo_boot_def tag_type_def tag_size_def next_tag_def load32_def module_ends_def
  have t: "tag_list demo_boot (100 + 8) [108, 124, 140]" by (simp add: ev)
  have n: "tag_type demo_boot (100 + 8) \<noteq> MBOOT2_TAG_END" by (simp add: ev)
  have f: "find (\<lambda>t. tag_type demo_boot t = MBOOT2_TAG_BASIC_MEMINFO) [108, 124, 140] = Some 108"
    by (simp add: ev)
  have e: "module_ends demo_boot [108, 124, 140] = [0x1000]" by (simp add: ev)
  have l: "load32 demo_boot (108 + 8) = 64" "load32 demo_boot (108 + 12) = 64"
    by (simp_all add: ev)
  have z: "bitmap_addr demo_pmm = 0" "used_blocks demo_pmm = 0" by (simp_all add: demo_pmm_def)
  show ?thesis using pmm_init_establishes [OF t n f _ _ z, of "0x2000"] unfolding e l by simp
qed

end
