(* ===== verification/Isr.thy ===== *)
theory Isr
  imports Kprelude
begin

text \<open>
  The table of interrupt handlers, kernel/cpu/isr.c. A function pointer is one of the kernel's
  handlers; a null pointer is \<open>None\<close>. The port accesses of the interrupt controller and the
  dispatch itself are in theory \<open>Interrupts\<close>, which needs the task state.
\<close>

datatype isr_function = Page_fault | Timer_irq_handler | Rtc_irq_handler | Keyboard_irq_handler
  | Serial_irq_handler | Fpu_exception_handler | Syscall_dispatcher

type_synonym handler_table = "u8 \<Rightarrow> isr_function option"

definition int_install_handler :: "u8 \<Rightarrow> isr_function \<Rightarrow> handler_table \<Rightarrow> handler_table" where
  "int_install_handler num handler t = t(num := Some handler)"

definition int_uninstall_handler :: "u8 \<Rightarrow> handler_table \<Rightarrow> handler_table" where
  "int_uninstall_handler num t = t(num := None)"

end
