(* ===== verification/Vmm.thy ===== *)
theory Vmm
  imports Pmm Isr Kstring "HOL-Library.Monad_Syntax"
begin

unbundle bit_operations_syntax

text \<open>
  The virtual memory manager, kernel/memory/vmm.c. Page directories and page tables are typed
  objects found by their address; the bit-fields of an entry are record fields of the C widths.
  \<open>allocate_page\<close> calls the kernel heap for new page tables once the heap is enabled, and the
  heap calls back through \<open>ksbrk\<close>; the recursion is cut by a parameter \<open>km\<close> for
  \<open>kmalloc_a\<close>, which theory \<open>Kheap\<close> closes. A result \<open>None\<close> is a call that does not return.
  Log output is left out.
\<close>

section \<open>State\<close>

record page_t =
  pg_present :: bool
  pg_rw :: bool
  pg_user :: bool
  pg_accessed :: bool
  pg_dirty :: bool
  pg_frame :: "20 word"

record page_dir_entry_t =
  pde_present :: bool
  pde_rw :: bool
  pde_user :: bool
  pde_page_size :: bool
  pde_frame :: "20 word"

type_synonym page_table_t = "u32 \<Rightarrow> page_t"

record page_directory_t =
  tables :: "u32 \<Rightarrow> page_dir_entry_t"
  ref_tables :: "u32 \<Rightarrow> ptr"

definition zero_page :: page_t where
  "zero_page = \<lparr>pg_present = False, pg_rw = False, pg_user = False, pg_accessed = False,
     pg_dirty = False, pg_frame = 0\<rparr>"

definition zero_pde :: page_dir_entry_t where
  "zero_pde = \<lparr>pde_present = False, pde_rw = False, pde_user = False, pde_page_size = False,
     pde_frame = 0\<rparr>"

text \<open>
  The kernel's memory state: the globals of pmm.c, vmm.c and kheap.c, the control registers they
  write, the page tables, and the bytes of the heap. \<open>boot_page_dir\<close> is the word that the C name
  denotes: vmm.h declares a pointer, so it is the first word stored at the assembly label.
\<close>

record kstate =
  pmm_st :: pmm
  temp_mem :: ptr
  paging_enabled :: bool
  kernel_page_dir :: ptr
  current_page_dir :: ptr
  boot_page_dir :: ptr
  pdirs :: "ptr \<Rightarrow> page_directory_t"
  ptables :: "ptr \<Rightarrow> page_table_t"
  cr0 :: u32
  cr3 :: u32
  cr4 :: u32
  heap_start :: ptr
  heap_end :: ptr
  heap_curr :: ptr
  heap_max :: ptr
  kheap_enabled :: bool
  bl_head :: ptr
  bl_tail :: ptr
  freelist :: ptr
  placement_address :: u32
  kmem :: mem
  interrupt_handlers :: handler_table

type_synonym kmalloc_t = "u32 \<Rightarrow> kstate \<Rightarrow> (ptr \<times> kstate) option"

section \<open>Macros\<close>

definition ALIGN :: "u32 \<Rightarrow> u32" where
  "ALIGN a = (a AND 0xFFFFF000) + PAGE_SIZE"

definition IS_ALIGN :: "u32 \<Rightarrow> bool" where
  "IS_ALIGN a \<longleftrightarrow> (a OR 0xFFFFF000) = 0"

definition PAGEDIR_INDEX :: "u32 \<Rightarrow> u32" where
  "PAGEDIR_INDEX va = drop_bit 22 va"

definition PAGETBL_INDEX :: "u32 \<Rightarrow> u32" where
  "PAGETBL_INDEX va = drop_bit 12 va AND 0x3ff"

definition PAGEFRAME_INDEX :: "u32 \<Rightarrow> u32" where
  "PAGEFRAME_INDEX va = va AND 0xfff"

section \<open>Pages\<close>

definition dumb_kmalloc :: "u32 \<Rightarrow> bool \<Rightarrow> kstate \<Rightarrow> ptr \<times> kstate" where
  "dumb_kmalloc sz align s =
     (let ret = temp_mem s;
          ret = (if align \<and> \<not> IS_ALIGN ret then ALIGN ret else ret)
      in (ret, s\<lparr>temp_mem := temp_mem s + sz\<rparr>))"

definition virt2phys :: "kstate \<Rightarrow> ptr \<Rightarrow> u32 \<Rightarrow> u32" where
  "virt2phys s dir va =
     (if \<not> paging_enabled s then va - KERN_BASE
      else let di = PAGEDIR_INDEX va; ti = PAGETBL_INDEX va; off = PAGEFRAME_INDEX va;
               table = ref_tables (pdirs s dir) di
           in if table = NULL then NULL
              else if \<not> pg_present (ptables s table ti) then NULL
              else push_bit 12 (ucast (pg_frame (ptables s table ti))) + off)"

text \<open>The part of \<open>allocate_page\<close> that provides the page table of an address.\<close>

definition ensure_table ::
  "kmalloc_t \<Rightarrow> ptr \<Rightarrow> u32 \<Rightarrow> bool \<Rightarrow> bool \<Rightarrow> kstate \<Rightarrow> (ptr \<times> kstate) option" where
  "ensure_table km dir di is_kernel is_writable s =
     (let table = ref_tables (pdirs s dir) di
      in if table = NULL then
           Option.bind (if \<not> kheap_enabled s then Some (dumb_kmalloc 4096 True s) else km 4096 s)
             (\<lambda>(table, s).
                let s = s\<lparr>ptables := (ptables s)(table := \<lambda>_. zero_page)\<rparr>;
                    t = virt2phys s (kernel_page_dir s) table;
                    d = pdirs s dir;
                    d = d\<lparr>tables := (tables d)(di := (tables d di)\<lparr>pde_frame := ucast (drop_bit 12 t),
                            pde_present := True, pde_rw := is_writable, pde_user := \<not> is_kernel,
                            pde_page_size := False\<rparr>),
                          ref_tables := (ref_tables d)(di := table)\<rparr>
                in Some (table, s\<lparr>pdirs := (pdirs s)(dir := d)\<rparr>))
         else Some (table, s))"

definition set_page :: "ptr \<Rightarrow> u32 \<Rightarrow> page_t \<Rightarrow> kstate \<Rightarrow> kstate" where
  "set_page table ti pg s = s\<lparr>ptables := (ptables s)(table := (ptables s table)(ti := pg))\<rparr>"

definition allocate_page ::
  "kmalloc_t \<Rightarrow> ptr \<Rightarrow> u32 \<Rightarrow> u32 \<Rightarrow> bool \<Rightarrow> bool \<Rightarrow> kstate \<Rightarrow> kstate option" where
  "allocate_page km dir va frame is_kernel is_writable s =
     (if dir = NULL then Some s
      else Option.bind (ensure_table km dir (PAGEDIR_INDEX va) is_kernel is_writable s)
        (\<lambda>(table, s).
           let ti = PAGETBL_INDEX va; pg = ptables s table ti
           in if \<not> pg_present pg then
                let (t, s) = (if frame \<noteq> 0 then (frame, s)
                              else let (a, p) = pmm_alloc_block (pmm_st s)
                                   in (a div PAGE_SIZE, s\<lparr>pmm_st := p\<rparr>))
                in Some (set_page table ti
                     (pg\<lparr>pg_frame := ucast t, pg_present := True, pg_rw := is_writable,
                         pg_user := \<not> is_kernel\<rparr>) s)
              else Some s))"

partial_function (option) region_loop ::
  "kmalloc_t \<Rightarrow> ptr \<Rightarrow> u32 \<Rightarrow> u32 \<Rightarrow> bool \<Rightarrow> bool \<Rightarrow> bool \<Rightarrow> kstate \<Rightarrow> kstate option" where
  "region_loop km dir start en iden_map is_kernel is_writable s =
     (if start \<le> en then
        Option.bind (allocate_page km dir start (if iden_map then start div PAGE_SIZE else 0)
                       is_kernel is_writable s)
          (\<lambda>s. region_loop km dir (start + PAGE_SIZE) en iden_map is_kernel is_writable s)
      else Some s)"

definition allocate_region ::
  "kmalloc_t \<Rightarrow> ptr \<Rightarrow> u32 \<Rightarrow> u32 \<Rightarrow> bool \<Rightarrow> bool \<Rightarrow> bool \<Rightarrow> kstate \<Rightarrow> kstate option" where
  "allocate_region km dir start_va end_va iden_map is_kernel is_writable s =
     region_loop km dir (start_va AND 0xfffff000) (end_va AND 0xfffff000) iden_map is_kernel is_writable s"

definition free_page :: "ptr \<Rightarrow> u32 \<Rightarrow> bool \<Rightarrow> kstate \<Rightarrow> kstate" where
  "free_page dir va free s =
     (if dir = boot_page_dir s then s
      else let di = PAGEDIR_INDEX va; ti = PAGETBL_INDEX va; table = ref_tables (pdirs s dir) di
           in if table = NULL then s
              else let pg = ptables s table ti
                   in if \<not> pg_present pg then s
                      else let s = (if free then s\<lparr>pmm_st := pmm_free_block (ucast (pg_frame pg) * PAGE_SIZE) (pmm_st s)\<rparr>
                                    else s)
                           in set_page table ti (pg\<lparr>pg_present := False, pg_frame := 0\<rparr>) s)"

text \<open>The parameter \<open>free\<close> of \<open>free_region\<close> is not passed on: every page is given back.\<close>

partial_function (option) free_region_loop :: "ptr \<Rightarrow> u32 \<Rightarrow> u32 \<Rightarrow> kstate \<Rightarrow> kstate option" where
  "free_region_loop dir start en s =
     (if start \<le> en then free_region_loop dir (start + PAGE_SIZE) en (free_page dir start True s)
      else Some s)"

definition free_region :: "ptr \<Rightarrow> u32 \<Rightarrow> u32 \<Rightarrow> bool \<Rightarrow> kstate \<Rightarrow> kstate option" where
  "free_region dir start_va end_va free s =
     free_region_loop dir (start_va AND 0xfffff000) (end_va AND 0xfffff000) s"

definition switch_page_directory :: "ptr \<Rightarrow> kstate \<Rightarrow> kstate" where
  "switch_page_directory dir s =
     s\<lparr>cr3 := virt2phys s (current_page_dir s) dir, current_page_dir := dir\<rparr>"

section \<open>Copying a directory\<close>

text \<open>
  The new table comes from the heap with whatever it held, and the test in the loop reads that
  table, not the source. The page is copied between the virtual addresses that the code uses; \<open>kmem\<close> is
  indexed by virtual address, so two addresses of one frame are not aliases in it.
\<close>

definition copy_table_step ::
  "kmalloc_t \<Rightarrow> ptr \<Rightarrow> ptr \<Rightarrow> u32 \<Rightarrow> ptr \<Rightarrow> ptr \<Rightarrow> u32 \<Rightarrow> kstate \<Rightarrow> kstate option" where
  "copy_table_step km src_dir dst_dir di src table ti s =
     (if pg_frame (ptables s table ti) = 0 then Some s
      else let va = push_bit 22 di OR push_bit 12 ti in
        Option.bind (allocate_page km dst_dir va 0 False True s) (\<lambda>s.
        Option.bind (allocate_page km src_dir 0 (virt2phys s dst_dir va) False True s) (\<lambda>s.
          let f = ptables s src ti; g = ptables s table ti;
              s = set_page table ti (g\<lparr>pg_present := pg_present g \<or> pg_present f, pg_rw := pg_rw g \<or> pg_rw f,
                    pg_user := pg_user g \<or> pg_user f, pg_accessed := pg_accessed g \<or> pg_accessed f,
                    pg_dirty := pg_dirty g \<or> pg_dirty f\<rparr>) s;
              s = s\<lparr>kmem := snd (memcpy (kmem s) 0 va PAGE_SIZE)\<rparr>
          in Some (free_page src_dir 0 False s))))"

primrec copy_table_loop ::
  "kmalloc_t \<Rightarrow> ptr \<Rightarrow> ptr \<Rightarrow> u32 \<Rightarrow> ptr \<Rightarrow> ptr \<Rightarrow> nat list \<Rightarrow> kstate \<Rightarrow> kstate option" where
  "copy_table_loop km src_dir dst_dir di src table [] s = Some s"
| "copy_table_loop km src_dir dst_dir di src table (i # is) s =
     Option.bind (copy_table_step km src_dir dst_dir di src table (of_nat i) s)
       (copy_table_loop km src_dir dst_dir di src table is)"

definition copy_page_table ::
  "kmalloc_t \<Rightarrow> ptr \<Rightarrow> ptr \<Rightarrow> u32 \<Rightarrow> ptr \<Rightarrow> kstate \<Rightarrow> (ptr \<times> kstate) option" where
  "copy_page_table km src_dir dst_dir di src s =
     Option.bind (km 4096 s) (\<lambda>(table, s).
       Option.bind (copy_table_loop km src_dir dst_dir di src table [0..<1024] s) (\<lambda>s. Some (table, s)))"

definition copy_dir_step :: "kmalloc_t \<Rightarrow> ptr \<Rightarrow> ptr \<Rightarrow> u32 \<Rightarrow> kstate \<Rightarrow> kstate option" where
  "copy_dir_step km dst src n s =
     (let st = ref_tables (pdirs s src) n in
      if ref_tables (pdirs s (kernel_page_dir s)) n = st then
        let d = pdirs s dst
        in Some (s\<lparr>pdirs := (pdirs s)(dst := d\<lparr>tables := (tables d)(n := tables (pdirs s src) n),
              ref_tables := (ref_tables d)(n := st)\<rparr>)\<rparr>)
      else Option.bind (copy_page_table km src dst n st s) (\<lambda>(table, s).
        let s = s\<lparr>pdirs := (pdirs s)(dst := (pdirs s dst)\<lparr>ref_tables := (ref_tables (pdirs s dst))(n := table)\<rparr>)\<rparr>;
            phys = virt2phys s src (ref_tables (pdirs s dst) n);
            d = pdirs s dst
        in Some (s\<lparr>pdirs := (pdirs s)(dst := d\<lparr>tables := (tables d)(n := (tables d n)\<lparr>
              pde_frame := ucast (drop_bit 12 phys), pde_user := True, pde_rw := True,
              pde_present := True\<rparr>)\<rparr>)\<rparr>)))"

primrec copy_dir_loop :: "kmalloc_t \<Rightarrow> ptr \<Rightarrow> ptr \<Rightarrow> nat list \<Rightarrow> kstate \<Rightarrow> kstate option" where
  "copy_dir_loop km dst src [] s = Some s"
| "copy_dir_loop km dst src (i # is) s =
     Option.bind (copy_dir_step km dst src (of_nat i) s) (copy_dir_loop km dst src is)"

definition copy_page_directory :: "kmalloc_t \<Rightarrow> ptr \<Rightarrow> ptr \<Rightarrow> kstate \<Rightarrow> kstate option" where
  "copy_page_directory km dst src s = copy_dir_loop km dst src [0..<1024] s"

section \<open>Start-up and heap growth\<close>

definition enable_paging :: "kstate \<Rightarrow> kstate" where
  "enable_paging s = s\<lparr>cr4 := cr4 s AND 0xffffffef, cr0 := cr0 s OR 0x80000000, paging_enabled := True\<rparr>"

text \<open>The loop that maps kernel pages, in \<open>vmm_init\<close> (twice) and in \<open>ksbrk\<close>.\<close>

partial_function (option) kernel_pages_loop ::
  "kmalloc_t \<Rightarrow> u32 \<Rightarrow> u32 \<Rightarrow> bool \<Rightarrow> kstate \<Rightarrow> (u32 \<times> kstate) option" where
  "kernel_pages_loop km i bound is_writable s =
     (if i < bound then
        Option.bind (allocate_page km (kernel_page_dir s) i 0 True is_writable s)
          (\<lambda>s. kernel_pages_loop km (i + PAGE_SIZE) bound is_writable s)
      else Some (i, s))"

definition vmm_init :: "kmalloc_t \<Rightarrow> kstate \<Rightarrow> kstate option" where
  "vmm_init km s =
     (let s = s\<lparr>temp_mem := pmm_bitmap_ptr (pmm_st s) + pmm_bitmap_size (pmm_st s)\<rparr>;
          (kd, s) = dumb_kmalloc 8192 True s;
          s = s\<lparr>kernel_page_dir := kd,
                pdirs := (pdirs s)(kd := \<lparr>tables = \<lambda>_. zero_pde, ref_tables = \<lambda>_. NULL\<rparr>)\<rparr>
      in Option.bind (kernel_pages_loop km KERN_BASE (KERN_BASE + 4 * M) False s) (\<lambda>(_, s).
         Option.bind (kernel_pages_loop km (KERN_BASE + 4 * M) (KERN_BASE + 4 * M + 8 * M) True s) (\<lambda>(_, s).
         Option.bind (allocate_region km (kernel_page_dir s) 0 0x10000 True True False s) (\<lambda>s.
           let s = enable_paging (switch_page_directory (kernel_page_dir s) s)
           in Some (s\<lparr>interrupt_handlers := int_install_handler 14 Page_fault (interrupt_handlers s)\<rparr>)))))"

partial_function (option) shrink_loop :: "u32 \<Rightarrow> u32 \<Rightarrow> kstate \<Rightarrow> (u32 \<times> kstate) option" where
  "shrink_loop runner bound s =
     (if runner > bound then shrink_loop (runner - PAGE_SIZE) bound (free_page (kernel_page_dir s) runner True s)
      else Some (runner, s))"

partial_function (option) ksbrk :: "kmalloc_t \<Rightarrow> u32 \<Rightarrow> kstate \<Rightarrow> (ptr \<times> kstate) option" where
  "ksbrk km sz s =
     (let old = heap_curr s in
      if sz = 0 then Some (old, s)
      else if 0 < sint sz then
        let nb = heap_curr s + sz in
        if nb \<le> heap_end s then Some (old, s\<lparr>heap_curr := nb\<rparr>)
        else if nb > heap_max s then Some (NULL, s)
        else Option.bind (kernel_pages_loop km (heap_end s) nb True s) (\<lambda>(runner, s).
          if old \<noteq> heap_curr s then ksbrk km sz s
          else Some (old, s\<lparr>heap_end := runner, heap_curr := nb\<rparr>))
      else
        let nb = heap_curr s - sz;
            nb = (if nb < heap_start s + 4 * M then heap_start s + 4 * M else nb)
        in Option.bind (shrink_loop (heap_end s - PAGE_SIZE) nb s) (\<lambda>(runner, s).
             Some (old, s\<lparr>heap_end := runner + PAGE_SIZE, heap_curr := nb\<rparr>)))"

text \<open>The fault report: the error code's bits as \<open>page_fault\<close> prints them.\<close>

record fault_info =
  f_present :: bool
  f_rw :: bool
  f_us :: bool
  f_reserved :: bool
  f_id :: bool

definition page_fault :: "u32 \<Rightarrow> fault_info" where
  "page_fault err = \<lparr>f_present = (err AND 0x1 = 0), f_rw = (err AND 0x2 \<noteq> 0), f_us = (err AND 0x4 \<noteq> 0),
     f_reserved = (err AND 0x8 \<noteq> 0), f_id = (err AND 0x10 \<noteq> 0)\<rparr>"

end
