(* ===== verification/Paging.thy ===== *)
theory Paging
  imports Vmm
begin

unbundle bit_operations_syntax

text \<open>
  What the operations of theory \<open>Vmm\<close> do to address translation. \<open>va_frame s dir va\<close> is the
  frame a directory gives an address; pages are identified by their number \<open>page_no\<close>. The boot
  lemmas follow \<open>vmm_init\<close>: with an empty allocator, successive pages receive successive frames.
\<close>

section \<open>Translation\<close>

definition page_no :: "u32 \<Rightarrow> nat" where
  "page_no va = unat va div 4096"

definition va_frame :: "kstate \<Rightarrow> ptr \<Rightarrow> u32 \<Rightarrow> 20 word option" where
  "va_frame s dir va =
     (let table = ref_tables (pdirs s dir) (PAGEDIR_INDEX va); pg = ptables s table (PAGETBL_INDEX va)
      in if table = NULL \<or> \<not> pg_present pg then None else Some (pg_frame pg))"

lemma page_no_drop_bit: "page_no va = unat (drop_bit 12 va)"
  by (simp add: page_no_def drop_bit_eq_div unat_div)

lemma page_no_eq_iff:
  "page_no a = page_no b \<longleftrightarrow> PAGEDIR_INDEX a = PAGEDIR_INDEX b \<and> PAGETBL_INDEX a = PAGETBL_INDEX b"
proof -
  have "drop_bit 12 a = drop_bit 12 b"
    if "drop_bit 22 a = drop_bit 22 b" "drop_bit 12 a AND 0x3ff = drop_bit 12 b AND 0x3ff"
  proof -
    have m: "(0x3ff :: u32) = mask 10" by (simp add: mask_eq_exp_minus_1)
    have hi: "bit a (22 + n) = bit b (22 + n)" for n
      using arg_cong [OF that(1), of "\<lambda>w. bit w n"] by (simp add: bit_simps)
    have lo: "n < 10 \<Longrightarrow> bit a (12 + n) = bit b (12 + n)" for n
      using arg_cong [OF that(2), of "\<lambda>w. bit w n"] by (simp add: m bit_simps)
    show ?thesis
    proof (rule bit_word_eqI)
      fix n :: nat
      show "bit (drop_bit 12 a) n = bit (drop_bit 12 b) n"
        using lo [of n] hi [of "n - 10"] by (cases "n < 10") (simp_all add: bit_simps)
    qed
  qed
  moreover have "drop_bit 22 a = drop_bit 22 b" if "drop_bit 12 a = drop_bit 12 b"
  proof -
    have "drop_bit 22 x = drop_bit 10 (drop_bit 12 x)" for x :: u32 by simp
    then show ?thesis using that by metis
  qed
  ultimately show ?thesis
    by (auto simp: page_no_drop_bit PAGEDIR_INDEX_def PAGETBL_INDEX_def simp flip: word_unat_eq_iff)
qed

lemma va_frame_page: "page_no a = page_no b \<Longrightarrow> va_frame s dir a = va_frame s dir b"
  by (simp add: va_frame_def page_no_eq_iff)

lemma virt2phys_frame:
  "paging_enabled s \<Longrightarrow> virt2phys s dir va =
     (case va_frame s dir va of None \<Rightarrow> NULL | Some f \<Rightarrow> push_bit 12 (ucast f) + (va AND 0xfff))"
  by (simp add: virt2phys_def va_frame_def Let_def PAGEFRAME_INDEX_def)

definition tables_inj :: "kstate \<Rightarrow> ptr \<Rightarrow> bool" where
  "tables_inj s dir \<longleftrightarrow> (\<forall>i j. ref_tables (pdirs s dir) i \<noteq> NULL \<longrightarrow>
     ref_tables (pdirs s dir) i = ref_tables (pdirs s dir) j \<longrightarrow> i = j)"

lemma set_page_frame:
  assumes "tables_inj s dir" and "ref_tables (pdirs s dir) (PAGEDIR_INDEX va) = table" and "table \<noteq> NULL"
  shows "va_frame (set_page table (PAGETBL_INDEX va) pg s) dir va' =
    (if page_no va' = page_no va then (if pg_present pg then Some (pg_frame pg) else None)
     else va_frame s dir va')"
  using assms unfolding tables_inj_def
  by (auto simp: va_frame_def set_page_def Let_def page_no_eq_iff)

lemma set_page_fields [simp]:
  "pdirs (set_page t i pg s) = pdirs s" "pmm_st (set_page t i pg s) = pmm_st s"
  "kernel_page_dir (set_page t i pg s) = kernel_page_dir s" "temp_mem (set_page t i pg s) = temp_mem s"
  "kheap_enabled (set_page t i pg s) = kheap_enabled s" "paging_enabled (set_page t i pg s) = paging_enabled s"
  "current_page_dir (set_page t i pg s) = current_page_dir s" "boot_page_dir (set_page t i pg s) = boot_page_dir s"
  "heap_curr (set_page t i pg s) = heap_curr s" "heap_end (set_page t i pg s) = heap_end s"
  "heap_max (set_page t i pg s) = heap_max s"
  by (simp_all add: set_page_def)

lemma va_frame_pmm [simp]: "va_frame (s\<lparr>pmm_st := p\<rparr>) dir va = va_frame s dir va"
  by (simp add: va_frame_def)

lemma tables_inj_cong [simp]:
  "tables_inj (set_page t i pg s) dir = tables_inj s dir" "tables_inj (s\<lparr>pmm_st := p\<rparr>) dir = tables_inj s dir"
  by (simp_all add: tables_inj_def)

section \<open>One page\<close>

text \<open>An address whose page table exists: the entry is filled once and never overwritten.\<close>

definition page_frame_for :: "u32 \<Rightarrow> kstate \<Rightarrow> u32 \<times> kstate" where
  "page_frame_for frame s = (if frame \<noteq> 0 then (frame, s)
     else case pmm_alloc_block (pmm_st s) of (a, p) \<Rightarrow> (a div PAGE_SIZE, s\<lparr>pmm_st := p\<rparr>))"

lemma allocate_page_table:
  assumes "dir \<noteq> NULL" and "ensure_table km dir (PAGEDIR_INDEX va) k w s = Some (t, s1)"
    and "tables_inj s1 dir" and "ref_tables (pdirs s1 dir) (PAGEDIR_INDEX va) = t" and "t \<noteq> NULL"
  shows "allocate_page km dir va frame k w s =
    (if va_frame s1 dir va \<noteq> None then Some s1
     else case page_frame_for frame s1 of (f, s2) \<Rightarrow>
       Some (set_page t (PAGETBL_INDEX va) ((ptables s1 t (PAGETBL_INDEX va))\<lparr>pg_frame := ucast f,
         pg_present := True, pg_rw := w, pg_user := \<not> k\<rparr>) s2))"
  using assms
  by (auto simp: allocate_page_def page_frame_for_def va_frame_def Let_def split: prod.splits)

lemma ensure_table_existing:
  "ref_tables (pdirs s dir) di \<noteq> NULL \<Longrightarrow>
     ensure_table km dir di k w s = Some (ref_tables (pdirs s dir) di, s)"
  by (simp add: ensure_table_def)

text \<open>Installing a fresh, cleared table changes no translation.\<close>

definition install_table :: "ptr \<Rightarrow> u32 \<Rightarrow> ptr \<Rightarrow> (page_dir_entry_t \<Rightarrow> page_dir_entry_t) \<Rightarrow> kstate \<Rightarrow> kstate" where
  "install_table dir di t f s =
     s\<lparr>ptables := (ptables s)(t := \<lambda>_. zero_page),
       pdirs := (pdirs s)(dir := (pdirs s dir)\<lparr>tables := (tables (pdirs s dir))(di := f (tables (pdirs s dir) di)),
         ref_tables := (ref_tables (pdirs s dir))(di := t)\<rparr>)\<rparr>"

lemma install_table_refs:
  "ref_tables (pdirs (install_table dir di t f s) dir) = (ref_tables (pdirs s dir))(di := t)"
  "ptables (install_table dir di t f s) = (ptables s)(t := \<lambda>_. zero_page)"
  by (simp_all add: install_table_def)

lemma install_table_frame:
  assumes "ref_tables (pdirs s dir) di = NULL" and "\<forall>i. ref_tables (pdirs s dir) i \<noteq> t" and "t \<noteq> NULL"
  shows "va_frame (install_table dir di t f s) dir va = va_frame s dir va"
proof (cases "PAGEDIR_INDEX va = di")
  case True
  then show ?thesis
    using assms by (simp add: va_frame_def install_table_refs zero_page_def Let_def)
next
  case False
  moreover have "ref_tables (pdirs s dir) (PAGEDIR_INDEX va) \<noteq> t" using assms(2) by blast
  ultimately show ?thesis by (simp add: va_frame_def install_table_refs Let_def)
qed

lemma install_table_inj:
  assumes "\<forall>i. ref_tables (pdirs s dir) i \<noteq> t" and "tables_inj s dir"
  shows "tables_inj (install_table dir di t f s) dir"
  unfolding tables_inj_def install_table_refs
proof (intro allI impI)
  fix i j
  let ?r = "ref_tables (pdirs s dir)"
  assume nn: "(?r(di := t)) i \<noteq> NULL" and eq: "(?r(di := t)) i = (?r(di := t)) j"
  show "i = j"
  proof (cases "i = di \<or> j = di")
    case True
    with eq assms(1) show ?thesis by (metis fun_upd_apply)
  next
    case False
    with nn eq assms(2) show ?thesis unfolding tables_inj_def by simp
  qed
qed

lemma install_table_fields [simp]:
  "pmm_st (install_table dir di t f s) = pmm_st s"
  "kernel_page_dir (install_table dir di t f s) = kernel_page_dir s"
  "temp_mem (install_table dir di t f s) = temp_mem s"
  "kheap_enabled (install_table dir di t f s) = kheap_enabled s"
  "paging_enabled (install_table dir di t f s) = paging_enabled s"
  by (simp_all add: install_table_def)

lemma ensure_table_boot:
  assumes "ref_tables (pdirs s dir) di = NULL" and "\<not> kheap_enabled s"
  shows "\<exists>f. ensure_table km dir di k w s =
    Some (ALIGN (temp_mem s), install_table dir di (ALIGN (temp_mem s)) f (s\<lparr>temp_mem := temp_mem s + 4096\<rparr>))"
proof -
  have "\<not> IS_ALIGN a" for a
  proof -
    have "bit (a OR 0xFFFFF000 :: u32) 31" by (simp add: bit_simps)
    then show ?thesis unfolding IS_ALIGN_def by auto
  qed
  then show ?thesis
    using assms by (simp add: ensure_table_def dumb_kmalloc_def Let_def install_table_def) (rule exI, rule refl)
qed


section \<open>Pages by number\<close>

lemma frame20: "unat w < 2 ^ 20 \<Longrightarrow> (ucast (ucast w :: 20 word) :: u32) = w"
  by (simp add: word_unat_eq_iff unsigned_ucast_eq take_bit_eq_mod unat_mod)

lemma page_no_of_nat [simp]: "p < 2 ^ 20 \<Longrightarrow> page_no (of_nat p * 4096) = p"
  by (simp add: page_no_def blk_addr)

lemma page_no_less: "page_no va < 2 ^ 20"
  using unsigned_less [of va, where 'a = nat] by (simp add: page_no_def)

lemma next_page: "of_nat p * 4096 + (4096 :: u32) = of_nat (Suc p) * 4096"
  by (simp add: algebra_simps)

text \<open>A page loop keeps any invariant that one allocation carries from one page to the next.\<close>

lemma kernel_pages_loop_upto:
  assumes "\<And>p s. I p s \<Longrightarrow> lo \<le> p \<Longrightarrow> p < hi \<Longrightarrow>
      \<exists>s'. allocate_page km (kernel_page_dir s) (of_nat p * 4096) 0 True w s = Some s' \<and> I (Suc p) s'"
    and "lo \<le> p" and "p \<le> hi" and "hi < 2 ^ 20" and "I p s"
    and bound: "\<And>q. q * 4096 < unat bound \<longleftrightarrow> q < hi"
  shows "\<exists>s'. kernel_pages_loop km (of_nat p * 4096) bound w s = Some (of_nat hi * 4096, s') \<and> I hi s'"
  using assms(3,2,5)
proof (induction p arbitrary: s rule: inc_induct)
  case base
  have "\<not> of_nat hi * 4096 < bound" using bound [of hi] assms(4) by (simp add: word_less_nat_alt blk_addr)
  with base show ?case by (simp add: kernel_pages_loop.simps [of km "of_nat hi * 4096"])
next
  case (step p)
  obtain s1 where s1: "allocate_page km (kernel_page_dir s) (of_nat p * 4096) 0 True w s = Some s1" "I (Suc p) s1"
    using assms(1) step by blast
  have "of_nat p * 4096 < bound"
    using step.hyps bound [of p] assms(4) by (simp add: word_less_nat_alt blk_addr)
  then have "kernel_pages_loop km (of_nat p * 4096) bound w s = kernel_pages_loop km (of_nat (Suc p) * 4096) bound w s1"
    using s1 by (subst kernel_pages_loop.simps) (simp only: next_page if_True bind.bind_lunit)
  then show ?case using step.IH [of s1] step.prems s1 by simp
qed

lemma kernel_pages_loop_inv:
  assumes "\<And>p s. I p s \<Longrightarrow> lo \<le> p \<Longrightarrow> p < hi \<Longrightarrow>
      \<exists>s'. allocate_page km (kernel_page_dir s) (of_nat p * 4096) 0 True w s = Some s' \<and> I (Suc p) s'"
    and "lo \<le> p" and "p \<le> hi" and "hi < 2 ^ 20" and "I p s"
  shows "\<exists>s'. kernel_pages_loop km (of_nat p * 4096) (of_nat hi * 4096) w s = Some (of_nat hi * 4096, s')
    \<and> I hi s'"
  by (rule kernel_pages_loop_upto [where I = I, OF assms(1) assms(2-5)]) (use assms(4) in \<open>simp_all add: blk_addr\<close>)

lemma region_loop_inv:
  assumes "\<And>p s. I p s \<Longrightarrow> lo \<le> p \<Longrightarrow> p \<le> hi \<Longrightarrow>
      \<exists>s'. allocate_page km dir (of_nat p * 4096) (if iden then of_nat p else 0) k w s = Some s' \<and> I (Suc p) s'"
    and "lo \<le> p" and "p \<le> Suc hi" and "Suc hi < 2 ^ 20" and "I p s"
  shows "\<exists>s'. region_loop km dir (of_nat p * 4096) (of_nat hi * 4096) iden k w s = Some s' \<and> I (Suc hi) s'"
  using assms(3,2,5)
proof (induction p arbitrary: s rule: inc_induct)
  case base
  have "\<not> (of_nat (Suc hi) * 4096 :: u32) \<le> of_nat hi * 4096"
    using assms(4) blk_addr [of "Suc hi"] by (simp add: word_le_nat_alt blk_addr del: of_nat_Suc)
  with base show ?case by (simp add: region_loop.simps [of km dir "of_nat (Suc hi) * 4096"] del: of_nat_Suc)
next
  case (step p)
  obtain s1 where s1: "allocate_page km dir (of_nat p * 4096) (if iden then of_nat p else 0) k w s = Some s1"
      "I (Suc p) s1"
    using assms(1) step by (metis less_Suc_eq_le)
  have "(of_nat p * 4096 :: u32) \<le> of_nat hi * 4096"
    using step.hyps assms(4) by (simp add: word_le_nat_alt blk_addr)
  moreover have "(of_nat p * 4096 :: u32) div 4096 = of_nat p"
    using step.hyps assms(4) by (simp add: blk_addr_div)
  ultimately have "region_loop km dir (of_nat p * 4096) (of_nat hi * 4096) iden k w s
      = region_loop km dir (of_nat (Suc p) * 4096) (of_nat hi * 4096) iden k w s1"
    using s1 by (subst region_loop.simps) (simp only: next_page if_True bind.bind_lunit)
  then show ?case using step.IH [of s1] step.prems s1 by simp
qed


section \<open>Boot\<close>

text \<open>
  Before the heap exists: tables come from \<open>dumb_kmalloc\<close>, at increasing addresses, and the
  frames in use are the first \<open>k\<close>.
\<close>

definition boot_ok :: "nat \<Rightarrow> kstate \<Rightarrow> bool" where
  "boot_ok k s \<longleftrightarrow> \<not> kheap_enabled s \<and> \<not> paging_enabled s \<and> kernel_page_dir s \<noteq> NULL
     \<and> tables_inj s (kernel_page_dir s)
     \<and> (\<forall>i. unat (ref_tables (pdirs s (kernel_page_dir s)) i) < unat (temp_mem s) div 4096 * 4096 + 4096)
     \<and> pmm_ok (pmm_st s) \<and> used_set (pmm_st s) = {..<k}"

lemma unat_ALIGN: "unat a + 4096 < 2 ^ 32 \<Longrightarrow> unat (ALIGN a) = unat a div 4096 * 4096 + 4096"
  by (simp add: ALIGN_def unat_plus_small page_mask_nat minus_mod_eq_div_mult)

lemma boot_table:
  assumes ok: "boot_ok k s" and room: "unat (temp_mem s) + 8192 < 2 ^ 32"
  shows "\<exists>t s1. ensure_table km (kernel_page_dir s) di ker w s = Some (t, s1) \<and> boot_ok k s1
    \<and> kernel_page_dir s1 = kernel_page_dir s \<and> unat (temp_mem s1) \<le> unat (temp_mem s) + 4096
    \<and> pmm_st s1 = pmm_st s \<and> t \<noteq> NULL \<and> ref_tables (pdirs s1 (kernel_page_dir s)) di = t
    \<and> (\<forall>va. va_frame s1 (kernel_page_dir s) va = va_frame s (kernel_page_dir s) va)"
proof (cases "ref_tables (pdirs s (kernel_page_dir s)) di = NULL")
  case False
  with ok show ?thesis by (auto simp: ensure_table_existing)
next
  case True
  let ?d = "kernel_page_dir s" and ?t = "ALIGN (temp_mem s)"
  let ?s = "s\<lparr>temp_mem := temp_mem s + 4096\<rparr>"
  obtain f where f: "ensure_table km ?d di ker w s = Some (?t, install_table ?d di ?t f ?s)"
    using ensure_table_boot [OF True, of km ker w] ok unfolding boot_ok_def by blast
  have t: "unat ?t = unat (temp_mem s) div 4096 * 4096 + 4096" using room by (simp add: unat_ALIGN)
  then have nn: "?t \<noteq> NULL" by auto
  have fresh: "\<forall>i. ref_tables (pdirs ?s ?d) i \<noteq> ?t"
    using ok t by (simp add: boot_ok_def) (metis less_irrefl)
  have tm: "unat (temp_mem s + 4096) = unat (temp_mem s) + 4096"
    using room by (simp add: unat_plus_small)
  have below: "unat (((ref_tables (pdirs s ?d))(di := ?t)) i) < unat (temp_mem s + 4096) div 4096 * 4096 + 4096" for i
    using ok by (cases "i = di") (auto simp: t tm boot_ok_def intro: less_trans)
  have va: "va_frame (install_table ?d di ?t f ?s) ?d va = va_frame ?s ?d va" for va
    by (rule install_table_frame) (use True fresh nn in simp_all)
  have inj: "tables_inj (install_table ?d di ?t f ?s) ?d"
    by (rule install_table_inj [OF fresh]) (use ok in \<open>simp add: boot_ok_def tables_inj_def\<close>)
  have "boot_ok k (install_table ?d di ?t f ?s)"
    using ok inj below by (simp add: boot_ok_def install_table_refs)
  moreover have "va_frame ?s ?d va = va_frame s ?d va" for va by (simp add: va_frame_def)
  ultimately show ?thesis using f nn tm va by (simp add: install_table_refs)
qed

text \<open>One allocation during boot, for a page not yet mapped.\<close>

definition boot_step :: "nat \<Rightarrow> nat \<Rightarrow> kstate \<Rightarrow> kstate \<Rightarrow> bool" where
  "boot_step k n s s' \<longleftrightarrow> boot_ok k s' \<and> kernel_page_dir s' = kernel_page_dir s
     \<and> max_blocks (pmm_st s') = max_blocks (pmm_st s) \<and> unat (temp_mem s') \<le> unat (temp_mem s) + n * 4096"

lemma boot_step_trans: "boot_step j m s s1 \<Longrightarrow> boot_step k n s1 s2 \<Longrightarrow> boot_step k (m + n) s s2"
  by (auto simp: boot_step_def algebra_simps)

lemma boot_page:
  assumes ok: "boot_ok k s" and room: "unat (temp_mem s) + 8192 < 2 ^ 32"
    and free: "va_frame s (kernel_page_dir s) va = None" and blocks: "k < unat (max_blocks (pmm_st s))"
  shows "\<exists>s'. allocate_page km (kernel_page_dir s) va frame ker w s = Some s'
    \<and> boot_step (if frame = 0 then Suc k else k) 1 s s'
    \<and> (\<forall>v. va_frame s' (kernel_page_dir s) v = (if page_no v = page_no va
         then Some (if frame = 0 then of_nat k else ucast frame) else va_frame s (kernel_page_dir s) v))"
proof -
  let ?d = "kernel_page_dir s"
  obtain t s1 where e: "ensure_table km ?d (PAGEDIR_INDEX va) ker w s = Some (t, s1)"
    and ok1: "boot_ok k s1" and d1: "kernel_page_dir s1 = ?d" and tm: "unat (temp_mem s1) \<le> unat (temp_mem s) + 4096"
    and p1: "pmm_st s1 = pmm_st s" and t: "t \<noteq> NULL" "ref_tables (pdirs s1 ?d) (PAGEDIR_INDEX va) = t"
    and v1: "\<And>v. va_frame s1 ?d v = va_frame s ?d v"
    using boot_table [OF ok room] by blast
  have d: "?d \<noteq> NULL" and inj: "tables_inj s1 ?d" using ok1 d1 by (auto simp: boot_ok_def)
  obtain q where q: "pmm_alloc_block (pmm_st s) = (of_nat k * 4096, q)" "used_set q = {..<Suc k}"
      "max_blocks q = max_blocks (pmm_st s)" "pmm_ok q"
    using pm.alloc_next [of "pmm_st s" k] ok blocks
    by (fastforce simp: boot_ok_def simp flip: word_unat_eq_iff)
  have k: "k < 2 ^ 20" using blocks ok by (simp add: boot_ok_def pmm_ok_def)
  let ?f = "if frame = 0 then of_nat k else frame" and ?p = "if frame = 0 then q else pmm_st s"
  have pf: "page_frame_for frame s1 = (?f, s1\<lparr>pmm_st := ?p\<rparr>)"
    using q(1) k by (simp add: page_frame_for_def p1 blk_addr_div flip: p1)
  let ?pg = "(ptables s1 t (PAGETBL_INDEX va))\<lparr>pg_frame := ucast ?f, pg_present := True, pg_rw := w, pg_user := \<not> ker\<rparr>"
  let ?s' = "set_page t (PAGETBL_INDEX va) ?pg (s1\<lparr>pmm_st := ?p\<rparr>)"
  have a: "allocate_page km ?d va frame ker w s = Some ?s'"
    using allocate_page_table [OF d e inj t(2,1)] v1 free pf by simp
  have "va_frame ?s' ?d v = (if page_no v = page_no va then Some (ucast ?f) else va_frame s ?d v)" for v
    using set_page_frame [of "s1\<lparr>pmm_st := ?p\<rparr>" ?d va t] inj t v1 by simp
  moreover have "ucast (of_nat k :: u32) = (of_nat k :: 20 word)"
    using k by (simp add: unsigned_of_nat take_bit_nat_eq_self)
  moreover have "boot_step (if frame = 0 then Suc k else k) 1 s ?s'"
    using ok1 d1 tm q(2,3,4) p1 by (auto simp: boot_step_def boot_ok_def)
  ultimately show ?thesis using a by (auto simp del: of_nat_Suc)
qed


lemma frame_addr:
  assumes "n < 2 ^ 20"
  shows "unat (push_bit 12 (ucast (of_nat n :: 20 word)) + (va AND 0xfff) :: u32) = n * 4096 + unat va mod 4096"
proof -
  have "(ucast (of_nat n :: 20 word) :: u32) = of_nat n"
    using assms by (simp add: unsigned_of_nat take_bit_nat_eq_self)
  then have "push_bit 12 (ucast (of_nat n :: 20 word)) = (of_nat n * 4096 :: u32)"
    by (simp add: push_bit_eq_mult)
  moreover have "n * 4096 + unat va mod 4096 < 2 ^ 32"
    using assms mod_less_divisor [of 4096 "unat va", simplified] by simp
  ultimately show ?thesis
    using assms by (simp add: unat_plus_small blk_addr low12_nat)
qed

lemma frame_addr_shift:
  assumes "page_no va = n + d" and "n < 2 ^ 20"
  shows "push_bit 12 (ucast (of_nat n :: 20 word)) + (va AND 0xfff) = va - of_nat (d * 4096)"
proof -
  have "unat va = n * 4096 + d * 4096 + unat va mod 4096"
    using assms(1) div_mult_mod_eq [of "unat va" 4096] by (simp add: page_no_def algebra_simps)
  then have "unat va = unat (push_bit 12 (ucast (of_nat n :: 20 word)) + (va AND 0xfff) :: u32) + d * 4096"
    using assms(2) by (simp add: frame_addr)
  then have "va = (push_bit 12 (ucast (of_nat n :: 20 word)) + (va AND 0xfff)) + of_nat (d * 4096)"
    by (metis of_nat_add of_nat_unat32)
  then show ?thesis by (metis add_diff_cancel_right')
qed

text \<open>The translation \<open>vmm_init\<close> builds, as frames by page number.\<close>

definition boot_map :: "nat \<Rightarrow> 20 word option" where
  "boot_map p = (if 0xc0000 \<le> p \<and> p < 0xc0c00 then Some (of_nat (p - 0xc0000))
     else if p = 0 then Some 3072 else if p \<le> 16 then Some (of_nat p) else None)"

lemma boot_pages:
  assumes ok: "boot_ok k s" and lo: "lo \<le> hi" and hi: "hi < 2 ^ 20"
    and free: "\<And>v. lo \<le> page_no v \<Longrightarrow> page_no v < hi \<Longrightarrow> va_frame s (kernel_page_dir s) v = None"
    and blocks: "k + (hi - lo) \<le> unat (max_blocks (pmm_st s))"
    and room: "unat (temp_mem s) + (hi - lo) * 4096 + 8192 < 2 ^ 32"
  shows "\<exists>s'. kernel_pages_loop km (of_nat lo * 4096) (of_nat hi * 4096) w s = Some (of_nat hi * 4096, s')
    \<and> boot_step (k + (hi - lo)) (hi - lo) s s'
    \<and> (\<forall>v. va_frame s' (kernel_page_dir s) v = (if lo \<le> page_no v \<and> page_no v < hi
         then Some (of_nat (k + page_no v - lo)) else va_frame s (kernel_page_dir s) v))"
proof -
  let ?I = "\<lambda>p s'. boot_step (k + (p - lo)) (p - lo) s s'
    \<and> (\<forall>v. va_frame s' (kernel_page_dir s) v = (if lo \<le> page_no v \<and> page_no v < p
         then Some (of_nat (k + page_no v - lo)) else va_frame s (kernel_page_dir s) v))"
  have step: "\<exists>s2. allocate_page km (kernel_page_dir s1) (of_nat p * 4096) 0 True w s1 = Some s2 \<and> ?I (Suc p) s2"
    if I: "?I p s1" and p: "lo \<le> p" "p < hi" for p s1
  proof -
    have d: "kernel_page_dir s1 = kernel_page_dir s" and ok1: "boot_ok (k + (p - lo)) s1"
      and mb: "max_blocks (pmm_st s1) = max_blocks (pmm_st s)"
      and tm: "unat (temp_mem s1) \<le> unat (temp_mem s) + (p - lo) * 4096"
      using I by (auto simp: boot_step_def)
    have pn: "page_no (of_nat p * 4096) = p" using p hi by simp
    have fr: "va_frame s1 (kernel_page_dir s1) (of_nat p * 4096) = None"
      using I p pn free [of "of_nat p * 4096"] by (simp add: d)
    have "(p - lo) * 4096 \<le> (hi - lo) * 4096" using p by simp
    then have rm: "unat (temp_mem s1) + 8192 < 2 ^ 32" using tm room by linarith
    have bl: "k + (p - lo) < unat (max_blocks (pmm_st s1))" using blocks p unfolding mb by linarith
    obtain s2 where s2: "allocate_page km (kernel_page_dir s1) (of_nat p * 4096) 0 True w s1 = Some s2"
        "boot_step (Suc (k + (p - lo))) 1 s1 s2"
        "\<And>v. va_frame s2 (kernel_page_dir s1) v = (if page_no v = p
           then Some (of_nat (k + (p - lo))) else va_frame s1 (kernel_page_dir s1) v)"
      using boot_page [OF ok1 rm fr bl, of km 0 True w] pn by auto
    have "boot_step (k + (Suc p - lo)) (Suc p - lo) s s2"
      using boot_step_trans [OF conjunct1 [OF I] s2(2)] p(1) by (simp add: Suc_diff_le)
    moreover have "va_frame s2 (kernel_page_dir s) v = (if lo \<le> page_no v \<and> page_no v < Suc p
         then Some (of_nat (k + page_no v - lo)) else va_frame s (kernel_page_dir s) v)" for v
    proof (cases "page_no v = p")
      case True
      then show ?thesis using s2(3) [of v] p by (simp add: d)
    next
      case False
      then show ?thesis using s2(3) [of v] I by (simp add: d less_Suc_eq)
    qed
    ultimately show ?thesis using s2(1) by blast
  qed
  have "?I lo s" using ok by (auto simp: boot_step_def)
  from kernel_pages_loop_inv [of ?I lo hi km w lo s, OF step _ lo hi this] show ?thesis by simp
qed


text \<open>The state in which the first \<open>p\<close> pages are identity-mapped, the first one to the block \<open>k\<close>.\<close>

definition identity_upto :: "nat \<Rightarrow> kstate \<Rightarrow> nat \<Rightarrow> kstate \<Rightarrow> bool" where
  "identity_upto k s p s' \<longleftrightarrow> boot_step (if p = 0 then k else Suc k) p s s'
    \<and> (\<forall>v. va_frame s' (kernel_page_dir s) v = (if p \<le> page_no v then va_frame s (kernel_page_dir s) v
         else if page_no v = 0 then Some (of_nat k) else Some (of_nat (page_no v))))"

lemma identity_upto_Suc:
  assumes I: "identity_upto k s p s1" and "boot_step (Suc k) 1 s1 s2"
    and s2: "\<And>v. va_frame s2 (kernel_page_dir s) v = (if page_no v = p
           then Some (if p = 0 then of_nat k else of_nat p) else va_frame s1 (kernel_page_dir s) v)"
  shows "identity_upto k s (Suc p) s2"
proof -
  let ?d = "kernel_page_dir s"
  have "boot_step (Suc k) (Suc p) s s2"
    using boot_step_trans [OF conjunct1 [OF I [unfolded identity_upto_def]] assms(2)] by simp
  moreover have "va_frame s2 ?d v = (if Suc p \<le> page_no v then va_frame s ?d v
       else if page_no v = 0 then Some (of_nat k) else Some (of_nat (page_no v)))" for v
  proof (cases "page_no v = p")
    case True
    then show ?thesis using s2 [of v] by simp
  next
    case False
    then have "Suc p \<le> page_no v \<longleftrightarrow> p \<le> page_no v" by linarith
    then show ?thesis using s2 [of v] I False by (simp add: identity_upto_def)
  qed
  ultimately show ?thesis by (simp add: identity_upto_def)
qed

lemma boot_identity:
  assumes ok: "boot_ok k s" and hi: "hi < 2 ^ 19"
    and free: "\<And>v. page_no v \<le> hi \<Longrightarrow> va_frame s (kernel_page_dir s) v = None"
    and blocks: "Suc k < unat (max_blocks (pmm_st s))"
    and room: "unat (temp_mem s) + Suc hi * 4096 + 8192 < 2 ^ 32"
  shows "\<exists>s'. region_loop km (kernel_page_dir s) 0 (of_nat hi * 4096) True ker w s = Some s'
    \<and> boot_step (Suc k) (Suc hi) s s'
    \<and> (\<forall>v. va_frame s' (kernel_page_dir s) v = (if page_no v = 0 then Some (of_nat k)
         else if page_no v \<le> hi then Some (of_nat (page_no v)) else va_frame s (kernel_page_dir s) v))"
proof -
  let ?d = "kernel_page_dir s" and ?I = "identity_upto k s"
  have step: "\<exists>s2. allocate_page km ?d (of_nat p * 4096) (if True then of_nat p else 0) ker w s1 = Some s2 \<and> ?I (Suc p) s2"
    if I: "?I p s1" and p: "0 \<le> p" "p \<le> hi" for p s1
  proof -
    let ?k = "if p = 0 then k else Suc k"
    have d: "kernel_page_dir s1 = ?d" and ok1: "boot_ok ?k s1"
      and mb: "max_blocks (pmm_st s1) = max_blocks (pmm_st s)"
      and tm: "unat (temp_mem s1) \<le> unat (temp_mem s) + p * 4096"
      using I by (auto simp: boot_step_def identity_upto_def)
    have pn: "page_no (of_nat p * 4096) = p" using p hi by simp
    have fr: "va_frame s1 (kernel_page_dir s1) (of_nat p * 4096) = None"
      using I p pn free [of "of_nat p * 4096"] by (simp add: d identity_upto_def)
    have "p * 4096 \<le> Suc hi * 4096" using p by simp
    then have rm: "unat (temp_mem s1) + 8192 < 2 ^ 32" using tm room by linarith
    have bl: "?k < unat (max_blocks (pmm_st s1))" using blocks unfolding mb by auto
    have z: "(of_nat p :: u32) = 0 \<longleftrightarrow> p = 0" using p hi of_nat32_inject [of p 0] by simp
    have u: "ucast (of_nat p :: u32) = (of_nat p :: 20 word)"
      using p hi by (simp add: unsigned_of_nat take_bit_nat_eq_self)
    obtain s2 where s2: "allocate_page km ?d (of_nat p * 4096) (of_nat p) ker w s1 = Some s2"
        "boot_step (if p = 0 then Suc ?k else ?k) 1 s1 s2"
        "\<And>v. va_frame s2 ?d v = (if page_no v = p
           then Some (if p = 0 then of_nat ?k else of_nat p) else va_frame s1 ?d v)"
      using boot_page [OF ok1 rm fr bl, of km "of_nat p" ker w] unfolding pn d z u by auto
    have "?I (Suc p) s2" using s2(2,3) by (intro identity_upto_Suc [OF I]) (auto split: if_splits)
    then show ?thesis using s2(1) by simp
  qed
  have "?I 0 s" using ok by (simp add: boot_step_def identity_upto_def)
  from region_loop_inv [of ?I 0 hi km ?d True ker w 0 s, OF step _ _ _ this] hi show ?thesis
    by (auto simp: not_less_eq_eq identity_upto_def)
qed


definition boot_ready :: "kstate \<Rightarrow> bool" where
  "boot_ready s \<longleftrightarrow> \<not> kheap_enabled s \<and> \<not> paging_enabled s \<and> pmm_ok (pmm_st s) \<and> used_set (pmm_st s) = {}
     \<and> 3074 \<le> unat (max_blocks (pmm_st s))
     \<and> unat (pmm_bitmap_ptr (pmm_st s)) + unat (pmm_bitmap_size (pmm_st s)) < 0xf0000000"

text \<open>The state in which the page loops of \<open>vmm_init\<close> start.\<close>

definition boot_start :: "kstate \<Rightarrow> kstate" where
  "boot_start s = (let b = pmm_bitmap_ptr (pmm_st s) + pmm_bitmap_size (pmm_st s)
     in s\<lparr>temp_mem := b + 8192, kernel_page_dir := ALIGN b,
          pdirs := (pdirs s)(ALIGN b := \<lparr>tables = \<lambda>_. zero_pde, ref_tables = \<lambda>_. NULL\<rparr>)\<rparr>)"

lemma not_IS_ALIGN [simp]: "\<not> IS_ALIGN a"
proof -
  have "bit (a OR 0xFFFFF000 :: u32) 31" by (simp add: bit_simps)
  then show ?thesis unfolding IS_ALIGN_def by auto
qed

lemma boot_start_ok:
  assumes "boot_ready s"
  shows "boot_ok 0 (boot_start s)" and "unat (temp_mem (boot_start s)) < 0xf0002000"
    and "max_blocks (pmm_st (boot_start s)) = max_blocks (pmm_st s)"
    and "va_frame (boot_start s) (kernel_page_dir (boot_start s)) va = None"
proof -
  let ?b = "pmm_bitmap_ptr (pmm_st s) + pmm_bitmap_size (pmm_st s)"
  have b: "unat ?b < 0xf0000000" using assms by (simp add: boot_ready_def unat_plus_small)
  then have "unat (ALIGN ?b) \<noteq> 0" by (simp add: unat_ALIGN)
  then have "ALIGN ?b \<noteq> 0" by (metis unat_0)
  then show "boot_ok 0 (boot_start s)"
    using assms by (simp add: boot_ok_def boot_start_def boot_ready_def tables_inj_def Let_def)
  show "unat (temp_mem (boot_start s)) < 0xf0002000"
    using b by (simp add: boot_start_def Let_def unat_plus_small)
  show "max_blocks (pmm_st (boot_start s)) = max_blocks (pmm_st s)" by (simp add: boot_start_def Let_def)
  show "va_frame (boot_start s) (kernel_page_dir (boot_start s)) va = None"
    by (simp add: boot_start_def va_frame_def Let_def)
qed

lemma vmm_init_unfold:
  "vmm_init km s =
     Option.bind (kernel_pages_loop km (of_nat 0xc0000 * 4096) (of_nat 0xc0400 * 4096) False (boot_start s)) (\<lambda>(_, s).
     Option.bind (kernel_pages_loop km (of_nat 0xc0400 * 4096) (of_nat 0xc0c00 * 4096) True s) (\<lambda>(_, s).
     Option.bind (region_loop km (kernel_page_dir s) 0 (of_nat 16 * 4096) True True False s) (\<lambda>s.
       let s = enable_paging (switch_page_directory (kernel_page_dir s) s)
       in Some (s\<lparr>interrupt_handlers := int_install_handler 14 Page_fault (interrupt_handlers s)\<rparr>))))"
  by (simp add: vmm_init_def boot_start_def dumb_kmalloc_def allocate_region_def Let_def)

lemma vmm_init_builds:
  assumes "boot_ready s"
  shows "\<exists>s1. boot_step 3073 3089 (boot_start s) s1
    \<and> vmm_init km s = Some ((enable_paging (switch_page_directory (kernel_page_dir s1) s1))
        \<lparr>interrupt_handlers := int_install_handler 14 Page_fault (interrupt_handlers s1)\<rparr>)
    \<and> (\<forall>v. va_frame s1 (kernel_page_dir s1) v = boot_map (page_no v))"
proof -
  let ?s = "boot_start s" and ?d = "kernel_page_dir (boot_start s)"
  note b = boot_start_ok [OF assms]
  have n: "3074 \<le> unat (max_blocks (pmm_st s))" using assms by (simp add: boot_ready_def)
  obtain s1 where s1: "kernel_pages_loop km (of_nat 0xc0000 * 4096) (of_nat 0xc0400 * 4096) False ?s
        = Some (of_nat 0xc0400 * 4096, s1)" "boot_step 1024 1024 ?s s1"
      "\<And>v. va_frame s1 ?d v = (if 0xc0000 \<le> page_no v \<and> page_no v < 0xc0400
         then Some (of_nat (page_no v - 0xc0000)) else None)"
    using boot_pages [of 0 ?s "0xc0000" "0xc0400" km False] b n by auto
  obtain s2 where s2: "kernel_pages_loop km (of_nat 0xc0400 * 4096) (of_nat 0xc0c00 * 4096) True s1
        = Some (of_nat 0xc0c00 * 4096, s2)" "boot_step 3072 2048 s1 s2"
      "\<And>v. va_frame s2 ?d v = (if 0xc0400 \<le> page_no v \<and> page_no v < 0xc0c00
         then Some (of_nat (1024 + page_no v - 0xc0400)) else va_frame s1 ?d v)"
    using boot_pages [of 1024 s1 "0xc0400" "0xc0c00" km True] s1 b n by (auto simp: boot_step_def)
  have s12: "boot_step 3072 3072 ?s s2" using boot_step_trans [OF s1(2) s2(2)] by simp
  have v2: "va_frame s2 ?d v = (if 0xc0000 \<le> page_no v \<and> page_no v < 0xc0c00
      then Some (of_nat (page_no v - 0xc0000)) else None)" for v
    using s2(3) [of v] s1(3) [of v] by (auto simp: algebra_simps)
  have d: "kernel_page_dir s2 = ?d" using s12 by (simp add: boot_step_def)
  have "unat (temp_mem s2) < 0xf0002000 + 3072 * 4096" using s12 b(2) by (simp add: boot_step_def)
  then obtain s3 where s3: "region_loop km ?d 0 (of_nat 16 * 4096) True True False s2 = Some s3"
      "boot_step 3073 17 s2 s3"
      "\<And>v. va_frame s3 ?d v = (if page_no v = 0 then Some (of_nat 3072)
         else if page_no v \<le> 16 then Some (of_nat (page_no v)) else va_frame s2 ?d v)"
    using boot_identity [of 3072 s2 16 km True False] s12 b n v2 unfolding d by (auto simp: boot_step_def)
  have "boot_step 3073 3089 ?s s3" using boot_step_trans [OF s12 s3(2)] by simp
  moreover have "vmm_init km s = Some ((enable_paging (switch_page_directory (kernel_page_dir s3) s3))
        \<lparr>interrupt_handlers := int_install_handler 14 Page_fault (interrupt_handlers s3)\<rparr>)"
    using s1(1) s2(1) s3(1)
    by (simp add: vmm_init_unfold d enable_paging_def switch_page_directory_def del: of_nat_numeral)
  moreover have "va_frame s3 ?d v = boot_map (page_no v)" for v
    using s3(3) [of v] v2 [of v] by (simp add: boot_map_def)
  moreover have "kernel_page_dir s3 = ?d" using s3(2) d by (simp add: boot_step_def)
  ultimately show ?thesis by (intro exI [of _ s3]) simp
qed


lemma va_frame_switch [simp]:
  "va_frame (s\<lparr>interrupt_handlers := h\<rparr>) dir va = va_frame s dir va"
  "va_frame (enable_paging s) dir va = va_frame s dir va"
  "va_frame (switch_page_directory dir' s) dir va = va_frame s dir va"
  by (simp_all add: va_frame_def enable_paging_def switch_page_directory_def)

lemma less_page: "n < 2 ^ 20 \<Longrightarrow> va < of_nat n * 4096 \<longleftrightarrow> page_no va < n"
  by (simp add: word_less_nat_alt blk_addr page_no_def div_less_iff_less_mult)

lemma boot_map_addr:
  "(case boot_map (page_no va) of None \<Rightarrow> NULL | Some f \<Rightarrow> push_bit 12 (ucast f) + (va AND 0xfff)) =
     (if KERN_BASE \<le> va \<and> va < KERN_BASE + 12 * M then va - KERN_BASE
      else if va < 0x1000 then 0xc00000 + va else if va < 0x11000 then va else NULL)"
proof -
  have r: "va < 0xc0000000 \<longleftrightarrow> page_no va < 0xc0000" "va < 0xc0c00000 \<longleftrightarrow> page_no va < 0xc0c00"
    "va < 0x1000 \<longleftrightarrow> page_no va < 1" "va < 0x11000 \<longleftrightarrow> page_no va < 17"
    using less_page [of "0xc0000" va] less_page [of "0xc0c00" va] less_page [of 1 va] less_page [of 17 va]
    by simp_all
  note r' = r linorder_not_less [of va "0xc0000000", symmetric]
  consider "0xc0000 \<le> page_no va" "page_no va < 0xc0c00" | "page_no va = 0" | "0 < page_no va" "page_no va \<le> 16"
    | "16 < page_no va" "page_no va < 0xc0000 \<or> 0xc0c00 \<le> page_no va" by linarith
  then show ?thesis
  proof cases
    case 1
    then have "push_bit 12 (ucast (of_nat (page_no va - 0xc0000) :: 20 word)) + (va AND 0xfff) = va - 0xc0000000"
      using frame_addr_shift [of va "page_no va - 0xc0000" "0xc0000"] by simp
    with 1 show ?thesis by (simp add: boot_map_def r')
  next
    case 2
    have "va AND 0xfff = va" using 2 by (simp add: word_unat_eq_iff low12_nat page_no_def mod_if div_eq_0_iff)
    with 2 show ?thesis by (simp add: boot_map_def r')
  next
    case 3
    then have "push_bit 12 (ucast (of_nat (page_no va) :: 20 word)) + (va AND 0xfff) = va"
      using frame_addr_shift [of va "page_no va" 0] by simp
    with 3 show ?thesis by (simp add: boot_map_def r')
  next
    case 4
    then show ?thesis by (auto simp: boot_map_def r')
  qed
qed

section \<open>Properties\<close>

lemma vmm_init_translates:
  assumes "boot_ready s"
  shows "\<exists>s'. vmm_init km s = Some s' \<and> paging_enabled s' \<and> bit (cr0 s') 31
    \<and> current_page_dir s' = kernel_page_dir s' \<and> cr3 s' = kernel_page_dir s' - KERN_BASE
    \<and> interrupt_handlers s' 14 = Some Page_fault
    \<and> (\<forall>va. virt2phys s' (kernel_page_dir s') va =
         (if KERN_BASE \<le> va \<and> va < KERN_BASE + 12 * M then va - KERN_BASE
          else if va < 0x1000 then 0xc00000 + va else if va < 0x11000 then va else NULL))"
proof -
  obtain s1 where s1: "boot_step 3073 3089 (boot_start s) s1"
    and i: "vmm_init km s = Some ((enable_paging (switch_page_directory (kernel_page_dir s1) s1))
        \<lparr>interrupt_handlers := int_install_handler 14 Page_fault (interrupt_handlers s1)\<rparr>)" (is "_ = Some ?s'")
    and v: "\<And>v. va_frame s1 (kernel_page_dir s1) v = boot_map (page_no v)"
    using vmm_init_builds [OF assms] by blast
  have d: "kernel_page_dir ?s' = kernel_page_dir s1" and pe: "paging_enabled ?s'"
    by (simp_all add: enable_paging_def switch_page_directory_def)
  have np: "\<not> paging_enabled s1" using s1 by (simp add: boot_step_def boot_ok_def)
  have tr: "virt2phys ?s' (kernel_page_dir s1) va =
      (if KERN_BASE \<le> va \<and> va < KERN_BASE + 12 * M then va - KERN_BASE
       else if va < 0x1000 then 0xc00000 + va else if va < 0x11000 then va else NULL)" for va
    unfolding boot_map_addr [symmetric] by (simp add: virt2phys_frame [OF pe] v)
  show ?thesis
    using i d pe np tr
    by (intro exI [of _ ?s'])
      (simp add: enable_paging_def switch_page_directory_def virt2phys_def int_install_handler_def bit_simps)
qed

text \<open>\<open>vmm_init\<close> on a fresh allocator returns with paging on, the page-fault handler
  installed and \<open>cr3\<close> holding the physical address of the kernel directory. Under that directory
  the kernel's 12 MB from \<open>KERN_BASE\<close> translate linearly, pages 1 to 16 translate to themselves,
  and nothing else is mapped except page 0. Page 0, which the identity mapping was meant to
  include, translates to the frame at 0xc00000, because frame number 0 asks for a new frame.\<close>

theorem vmm_init_maps_kernel:
  assumes "boot_ready s"
  shows "\<exists>s'. vmm_init km s = Some s' \<and> paging_enabled s' \<and> bit (cr0 s') 31
    \<and> current_page_dir s' = kernel_page_dir s' \<and> cr3 s' = kernel_page_dir s' - KERN_BASE
    \<and> interrupt_handlers s' 14 = Some Page_fault
    \<and> (\<forall>va. virt2phys s' (kernel_page_dir s') va =
         (if KERN_BASE \<le> va \<and> va < KERN_BASE + 12 * M then va - KERN_BASE
          else if va < 0x1000 then 0xc00000 + va else if va < 0x11000 then va else NULL))"
  using assms by (rule vmm_init_translates)


definition demo_boot_state :: kstate where
  "demo_boot_state = \<lparr>pmm_st = \<lparr>max_blocks = 4096, used_blocks = 0, mem_size = 0x1000000, bitmap_addr = 0x200000,
       pmm_bitmap_ptr = 0xc0200000, pmm_bitmap = \<lambda>_. 0, pmm_bitmap_size = 512\<rparr>,
     temp_mem = 0, paging_enabled = False, kernel_page_dir = 0, current_page_dir = 0, boot_page_dir = 0x83,
     pdirs = \<lambda>_. \<lparr>tables = \<lambda>_. zero_pde, ref_tables = \<lambda>_. 0\<rparr>, ptables = \<lambda>_ _. zero_page,
     cr0 = 0x11, cr3 = 0, cr4 = 0x10, heap_start = 0, heap_end = 0, heap_curr = 0, heap_max = 0,
     kheap_enabled = False, bl_head = 0, bl_tail = 0, freelist = 0, placement_address = 0xc0200000,
     kmem = \<lambda>_. 0, interrupt_handlers = \<lambda>_. None\<rparr>"

theorem vmm_init_maps_kernel_witness:
  "boot_ready demo_boot_state \<and> (\<exists>s'. vmm_init (\<lambda>_ _. None) demo_boot_state = Some s' \<and> paging_enabled s'
     \<and> virt2phys s' (kernel_page_dir s') 0xc0b8f00d = 0xb8f00d
     \<and> virt2phys s' (kernel_page_dir s') 0x7c00 = 0x7c00 \<and> virt2phys s' (kernel_page_dir s') 0x10 = 0xc00010
     \<and> virt2phys s' (kernel_page_dir s') 0x40000000 = NULL)"
proof -
  have r: "boot_ready demo_boot_state"
    by (simp add: boot_ready_def demo_boot_state_def pmm_ok_def used_set_def blk_used_def)
  obtain s' where s': "vmm_init (\<lambda>_ _. None) demo_boot_state = Some s'" "paging_enabled s'"
      "\<And>va. virt2phys s' (kernel_page_dir s') va =
         (if KERN_BASE \<le> va \<and> va < KERN_BASE + 12 * M then va - KERN_BASE
          else if va < 0x1000 then 0xc00000 + va else if va < 0x11000 then va else NULL)"
    using vmm_init_maps_kernel [OF r, of "\<lambda>_ _. None"] by blast
  show ?thesis
    using r s'(1,2) by (intro conjI exI [of _ s']) (simp_all add: s'(3))
qed



definition demo_dir_state :: kstate where
  "demo_dir_state = demo_boot_state\<lparr>paging_enabled := True,
     pdirs := \<lambda>_. \<lparr>tables = \<lambda>_. zero_pde, ref_tables = \<lambda>i. if i = 0x300 then 0xc0300000 else 0\<rparr>\<rparr>"





lemma copy_dir_loop_kernel:
  assumes "kernel_page_dir s = src" and "dst \<noteq> src"
  shows "\<exists>s'. copy_dir_loop km dst src is s = Some s' \<and> s' = s\<lparr>pdirs := pdirs s'\<rparr> \<and> pdirs s' src = pdirs s src
    \<and> (\<forall>n. ref_tables (pdirs s' dst) n = (if n \<in> of_nat ` set is then ref_tables (pdirs s src) n else ref_tables (pdirs s dst) n)
         \<and> tables (pdirs s' dst) n = (if n \<in> of_nat ` set is then tables (pdirs s src) n else tables (pdirs s dst) n))"
  using assms(1)
proof (induction "is" arbitrary: s)
  case (Cons i "is")
  let ?n = "of_nat i :: u32" and ?d = "pdirs s dst"
  let ?s = "s\<lparr>pdirs := (pdirs s)(dst := ?d\<lparr>tables := (tables ?d)(?n := tables (pdirs s src) ?n),
      ref_tables := (ref_tables ?d)(?n := ref_tables (pdirs s src) ?n)\<rparr>)\<rparr>"
  have "copy_dir_step km dst src ?n s = Some ?s"
    using Cons.prems by (simp add: copy_dir_step_def Let_def)
  moreover obtain s' where "copy_dir_loop km dst src is ?s = Some s'" "s' = s\<lparr>pdirs := pdirs s'\<rparr>" "pdirs s' src = pdirs s src"
      "\<And>n. ref_tables (pdirs s' dst) n = (if n \<in> of_nat ` set is then ref_tables (pdirs s src) n else ref_tables (pdirs ?s dst) n)"
      "\<And>n. tables (pdirs s' dst) n = (if n \<in> of_nat ` set is then tables (pdirs s src) n else tables (pdirs ?s dst) n)"
    using Cons.IH [of ?s] Cons.prems assms(2) by auto
  ultimately show ?case by (intro exI [of _ s']) auto
qed auto

lemma copy_kernel_directory:
  assumes "dst \<noteq> kernel_page_dir s"
  shows "\<exists>s'. copy_page_directory km dst (kernel_page_dir s) s = Some s' \<and> s' = s\<lparr>pdirs := pdirs s'\<rparr>
    \<and> (\<forall>va. virt2phys s' dst va = virt2phys s (kernel_page_dir s) va)
    \<and> (\<forall>i < 1024. tables (pdirs s' dst) i = tables (pdirs s (kernel_page_dir s)) i)"
proof -
  obtain s' where s': "copy_dir_loop km dst (kernel_page_dir s) [0..<1024] s = Some s'" "s' = s\<lparr>pdirs := pdirs s'\<rparr>"
      "\<And>n. ref_tables (pdirs s' dst) n = (if n \<in> of_nat ` set [0..<1024] then ref_tables (pdirs s (kernel_page_dir s)) n
         else ref_tables (pdirs s dst) n)"
      "\<And>n. tables (pdirs s' dst) n = (if n \<in> of_nat ` set [0..<1024] then tables (pdirs s (kernel_page_dir s)) n
         else tables (pdirs s dst) n)"
    using copy_dir_loop_kernel [OF refl assms, of km "[0..<1024]"] by auto
  have pt: "ptables s' = ptables s" "paging_enabled s' = paging_enabled s"
    by (subst s'(2), simp)+
  have dom: "n \<in> of_nat ` set [0..<1024]" if "n < 1024" for n :: u32
    using that by (intro image_eqI [of _ _ "unat n"]) (simp_all add: word_less_nat_alt)
  have "PAGEDIR_INDEX va < 1024" for va
    using unsigned_less [of va, where 'a = nat]
    by (simp add: PAGEDIR_INDEX_def word_less_nat_alt drop_bit_eq_div unat_div div_less_iff_less_mult)
  then have "virt2phys s' dst va = virt2phys s (kernel_page_dir s) va" for va
    using dom by (simp add: virt2phys_def pt s'(3) Let_def)
  moreover have "\<forall>i < 1024. tables (pdirs s' dst) i = tables (pdirs s (kernel_page_dir s)) i"
    using dom s'(4) by simp
  ultimately show ?thesis using s'(1,2) by (auto simp: copy_page_directory_def)
qed

text \<open>C37: a directory copied from the kernel directory shares all its page tables, so it
  translates every address as the kernel directory does, and the copy always returns.\<close>

theorem copy_page_directory_shares_kernel:
  assumes "dst \<noteq> kernel_page_dir s"
  shows "\<exists>s'. copy_page_directory km dst (kernel_page_dir s) s = Some s'
    \<and> (\<forall>va. virt2phys s' dst va = virt2phys s (kernel_page_dir s) va)
    \<and> (\<forall>i < 1024. tables (pdirs s' dst) i = tables (pdirs s (kernel_page_dir s)) i)"
  using copy_kernel_directory [OF assms] by blast

theorem copy_page_directory_shares_kernel_witness:
  "\<exists>s'. copy_page_directory (\<lambda>_ _. None) 0x5000 (kernel_page_dir demo_dir_state) demo_dir_state = Some s'
     \<and> virt2phys s' 0x5000 0xc0005000 = virt2phys demo_dir_state (kernel_page_dir demo_dir_state) 0xc0005000"
proof -
  have "(0x5000 :: ptr) \<noteq> kernel_page_dir demo_dir_state"
    by (simp add: demo_dir_state_def demo_boot_state_def)
  from copy_page_directory_shares_kernel [OF this, of "\<lambda>_ _. None"] show ?thesis by blast
qed

end
