(* ===== verification/Growth.thy ===== *)
theory Growth
  imports Paging
begin

unbundle bit_operations_syntax

text \<open>
  Loops that map a range of pages, kernel/memory/vmm.c: \<open>ksbrk\<close>, which moves the end of the heap, and \<open>allocate_region\<close>.
  \<open>grown s d P s'\<close> says that \<open>s'\<close> is \<open>s\<close> with the pages of \<open>P\<close> mapped in the directory \<open>d\<close>; the loops are compositions of
  single pages.
\<close>

section \<open>Mapping sets of pages\<close>

definition grown :: "kstate \<Rightarrow> ptr \<Rightarrow> nat set \<Rightarrow> kstate \<Rightarrow> bool" where
  "grown s d P s' \<longleftrightarrow> (\<exists>pm tb. s' = s\<lparr>pmm_st := pm, ptables := tb\<rparr>)
    \<and> (\<forall>v. page_no v \<in> P \<longrightarrow> va_frame s' d v \<noteq> None)
    \<and> (\<forall>v. va_frame s d v \<noteq> None \<or> page_no v \<notin> P \<longrightarrow> va_frame s' d v = va_frame s d v)"

lemma grown_refl: "grown s d {} s"
proof -
  have "s = s\<lparr>pmm_st := pmm_st s, ptables := ptables s\<rparr>" by simp
  then show ?thesis unfolding grown_def by blast
qed

lemma grown_trans:
  assumes "grown s d P s1" and "grown s1 d Q s2"
  shows "grown s d (P \<union> Q) s2"
proof -
  obtain pm1 tb1 pm2 tb2 where "s1 = s\<lparr>pmm_st := pm1, ptables := tb1\<rparr>" "s2 = s1\<lparr>pmm_st := pm2, ptables := tb2\<rparr>"
    using assms unfolding grown_def by blast
  then have "s2 = s\<lparr>pmm_st := pm2, ptables := tb2\<rparr>" by simp
  then have "\<exists>pm tb. s2 = s\<lparr>pmm_st := pm, ptables := tb\<rparr>" by blast
  then show ?thesis using assms unfolding grown_def by (metis Un_iff)
qed

text \<open>What a grown state shares with the first one.\<close>

lemma grown_keeps:
  assumes "grown s d P s'"
  shows "pdirs s' = pdirs s" "kernel_page_dir s' = kernel_page_dir s" "current_page_dir s' = current_page_dir s"
    "heap_curr s' = heap_curr s" "kmem s' = kmem s" "tables_inj s' d = tables_inj s d"
  using assms by (auto simp: grown_def tables_inj_def)

text \<open>An allocation whose page table exists maps its page whatever the frame allocator gives.\<close>

lemma allocate_page_maps:
  assumes "dir \<noteq> NULL" and "tables_inj s dir" and "ref_tables (pdirs s dir) (PAGEDIR_INDEX va) \<noteq> NULL"
  shows "\<exists>s'. allocate_page km dir va 0 ker w s = Some s' \<and> grown s dir {page_no va} s'"
proof (cases "va_frame s dir va = None")
  case False
  then have "allocate_page km dir va 0 ker w s = Some s"
    using allocate_page_table [OF assms(1) ensure_table_existing [OF assms(3)] assms(2) refl assms(3)] by auto
  moreover have "va_frame s dir v \<noteq> None" if "page_no v = page_no va" for v using va_frame_page [OF that] False by simp
  then have "grown s dir {page_no va} s" using grown_refl [of s dir] unfolding grown_def by blast
  ultimately show ?thesis by blast
next
  case True
  let ?t = "ref_tables (pdirs s dir) (PAGEDIR_INDEX va)"
  obtain a q where q: "pmm_alloc_block (pmm_st s) = (a, q)" by (cases "pmm_alloc_block (pmm_st s)")
  let ?pg = "(ptables s ?t (PAGETBL_INDEX va))\<lparr>pg_frame := ucast (a div 4096), pg_present := True, pg_rw := w, pg_user := \<not> ker\<rparr>"
  let ?s' = "set_page ?t (PAGETBL_INDEX va) ?pg (s\<lparr>pmm_st := q\<rparr>)"
  have "allocate_page km dir va 0 ker w s = Some ?s'"
    using allocate_page_table [OF assms(1) ensure_table_existing [OF assms(3)] assms(2) refl assms(3)] True q
    by (simp add: page_frame_for_def)
  moreover have "va_frame ?s' dir v = (if page_no v = page_no va then Some (pg_frame ?pg) else va_frame s dir v)" for v
    using set_page_frame [of "s\<lparr>pmm_st := q\<rparr>" dir va ?t ?pg v] assms by simp
  moreover have "va_frame s dir v = None" if "page_no v = page_no va" for v
    using va_frame_page [OF that] True by simp
  moreover have "?s' = s\<lparr>pmm_st := q, ptables := ptables ?s'\<rparr>" by (simp add: set_page_def)
  ultimately show ?thesis unfolding grown_def by (intro exI [of _ ?s']) auto
qed

section \<open>Heap growth\<close>

text \<open>The heap state in which \<open>ksbrk\<close> may grow by \<open>sz\<close> bytes without a new page table.\<close>

definition sbrk_ready :: "kstate \<Rightarrow> u32 \<Rightarrow> bool" where
  "sbrk_ready s sz \<longleftrightarrow> kernel_page_dir s \<noteq> NULL \<and> tables_inj s (kernel_page_dir s) \<and> 0 < sint sz
     \<and> heap_end s AND 0xfff = 0 \<and> heap_curr s \<le> heap_end s
     \<and> unat (heap_curr s) + unat sz \<le> unat (heap_max s) \<and> heap_max s < 0xffffe000
     \<and> (\<forall>v. heap_end s \<le> v \<and> v < heap_curr s + sz \<longrightarrow>
          ref_tables (pdirs s (kernel_page_dir s)) (PAGEDIR_INDEX v) \<noteq> NULL)"

lemma aligned_page: "a AND 0xfff = 0 \<Longrightarrow> of_nat (page_no a) * 4096 = a" for a :: u32
proof -
  assume "a AND 0xfff = 0"
  then have "unat a mod 4096 = 0" by (metis low12_nat unat_0)
  then have "page_no a * 4096 = unat a" unfolding page_no_def using div_mult_mod_eq [of "unat a" 4096] by linarith
  then show "of_nat (page_no a) * 4096 = a"
    using blk_addr [OF page_no_less [of a]] by (simp add: word_unat_eq_iff)
qed

lemma ksbrk_pages:
  assumes r: "sbrk_ready s sz" and g: "heap_end s < heap_curr s + sz"
  shows "\<exists>hi s'. kernel_pages_loop km (heap_end s) (heap_curr s + sz) True s = Some (of_nat hi * 4096, s')
    \<and> hi < 2 ^ 20 \<and> (\<forall>q. q * 4096 < unat (heap_curr s + sz) \<longleftrightarrow> q < hi)
    \<and> grown s (kernel_page_dir s) {page_no (heap_end s)..<hi} s'"
proof -
  let ?d = "kernel_page_dir s" and ?nb = "heap_curr s + sz" and ?lo = "page_no (heap_end s)"
  define hi where "hi = (unat ?nb + 4095) div 4096"
  have bound: "q * 4096 < unat ?nb \<longleftrightarrow> q < hi" for q
    unfolding hi_def by (simp add: less_eq_div_iff_mult_less_eq Suc_le_eq [symmetric])
  have mx: "unat (heap_max s) < 0xffffe000" using r by (simp add: sbrk_ready_def word_less_nat_alt)
  have nb: "unat ?nb \<le> unat (heap_max s)"
    using r mx by (simp add: sbrk_ready_def unat_plus_small)
  have hi: "hi < 2 ^ 20" using nb mx unfolding hi_def by (simp add: div_less_iff_less_mult)
  have he: "of_nat ?lo * 4096 = heap_end s" using r aligned_page by (simp add: sbrk_ready_def)
  have lohi: "?lo \<le> hi"
    using bound [of ?lo] g he blk_addr [OF page_no_less [of "heap_end s"]] by (simp add: word_less_nat_alt)
  let ?I = "\<lambda>p. grown s ?d {?lo..<p}"
  have step: "\<exists>s2. allocate_page km (kernel_page_dir s1) (of_nat p * 4096) 0 True True s1 = Some s2 \<and> ?I (Suc p) s2"
    if I: "?I p s1" and p: "?lo \<le> p" "p < hi" for p s1
  proof -
    let ?va = "of_nat p * 4096 :: u32"
    have pn: "page_no ?va = p" and up: "unat ?va = p * 4096" using p hi by (simp_all add: blk_addr)
    have "?lo * 4096 \<le> p * 4096" using p by simp
    then have "heap_end s \<le> ?va" "?va < ?nb"
      using bound [of p] p up he blk_addr [OF page_no_less [of "heap_end s"]]
      by (simp_all add: word_le_nat_alt word_less_nat_alt)
    then have t: "ref_tables (pdirs s1 ?d) (PAGEDIR_INDEX ?va) \<noteq> NULL"
      using r grown_keeps [OF I] by (simp add: sbrk_ready_def)
    have "?d \<noteq> NULL" "tables_inj s1 ?d" using r grown_keeps [OF I] by (simp_all add: sbrk_ready_def)
    from allocate_page_maps [OF this t, of km True True] obtain s2
      where "allocate_page km ?d ?va 0 True True s1 = Some s2" "grown s1 ?d {p} s2" unfolding pn by blast
    moreover have "{?lo..<p} \<union> {p} = {?lo..<Suc p}" using p by auto
    ultimately show ?thesis using grown_trans [OF I, of "{p}" s2] grown_keeps(2) [OF I] by auto
  qed
  have "?I ?lo s" using grown_refl by simp
  from kernel_pages_loop_upto [of ?I ?lo hi km True ?lo s ?nb, OF step _ lohi hi this bound]
  obtain s' where "kernel_pages_loop km (heap_end s) ?nb True s = Some (of_nat hi * 4096, s')" "?I hi s'"
    unfolding he by blast
  then show ?thesis using hi bound by blast
qed



definition demo_heap_state :: kstate where
  "demo_heap_state = demo_dir_state\<lparr>kernel_page_dir := 0x1000, heap_start := 0xc0400000, heap_curr := 0xc03fff00,
     heap_end := 0xc0100000, heap_max := 0xcfffffff, heap_curr := 0xc00ff800\<rparr>"


text \<open>A request that would pass \<open>heap_max\<close> is refused with a null pointer and changes
  nothing.\<close>

theorem ksbrk_refuses:
  assumes "0 < sint sz" and "heap_end s < heap_curr s + sz" and "heap_max s < heap_curr s + sz"
  shows "ksbrk km sz s = Some (NULL, s)"
  using assms by (subst ksbrk.simps) (auto simp: Let_def)

theorem ksbrk_refuses_witness:
  "ksbrk (\<lambda>_ _. None) 0x20000000 demo_heap_state = Some (NULL, demo_heap_state)"
  using ksbrk_refuses [of "0x20000000" demo_heap_state "\<lambda>_ _. None"]
  by (simp add: demo_heap_state_def)

text \<open>A negative request does not shrink the heap: the code subtracts the negative size, so
  the break moves up by its magnitude, and no page is mapped for it.\<close>

theorem ksbrk_negative_raises_break:
  assumes "0 < sint n" and "heap_start s + 4 * M \<le> heap_curr s + n" and "heap_end s - PAGE_SIZE \<le> heap_curr s + n"
  shows "ksbrk km (- n) s = Some (heap_curr s, s\<lparr>heap_curr := heap_curr s + n\<rparr>)"
proof -
  have "sint (- n) = - sint n" 
    using assms(1) sint_less [of n] by (simp add: sint_word_ariths signed_take_bit_int_eq_self)
  then have "\<not> 0 < sint (- n)" "- n \<noteq> 0" using assms(1) by auto
  moreover have "shrink_loop (heap_end s - 4096) (heap_curr s + n) s = Some (heap_end s - 4096, s)"
    using assms(3) by (subst shrink_loop.simps) (simp only: linorder_not_less [symmetric] if_False)
  moreover have "\<not> heap_curr s + n < heap_start s + 4 * M" using assms(2) by (simp add: linorder_not_less)
  ultimately show ?thesis
    by (subst ksbrk.simps) (simp add: Let_def)
qed

theorem ksbrk_negative_raises_break_witness:
  "ksbrk (\<lambda>_ _. None) (- 0x800000) demo_heap_state =
     Some (0xc00ff800, demo_heap_state\<lparr>heap_curr := 0xc08ff800\<rparr>)"
  using ksbrk_negative_raises_break [of "0x800000" demo_heap_state "\<lambda>_ _. None"]
  by (simp add: demo_heap_state_def demo_dir_state_def demo_boot_state_def)


section \<open>Regions\<close>

lemma aligned_le_top: "a AND 0xfff = 0 \<Longrightarrow> a \<le> 0xfffff000" for a :: u32
proof -
  assume "a AND 0xfff = 0"
  then have "unat a mod 4096 = 0" by (metis low12_nat unat_0)
  then have "unat a = unat a div 4096 * 4096" using div_mult_mod_eq [of "unat a" 4096] by linarith
  moreover have "unat a div 4096 \<le> 0xfffff" using page_no_less [of a] by (simp add: page_no_def)
  ultimately show "a \<le> 0xfffff000" by (simp add: word_le_nat_alt)
qed

lemma aligned_next: "a AND 0xfff = 0 \<Longrightarrow> (a + 4096) AND 0xfff = 0" for a :: u32
proof -
  assume "a AND 0xfff = 0"
  then have "unat a mod 4096 = 0" by (metis low12_nat unat_0)
  then have "unat (a + 4096) mod 4096 = 0"
    by (simp add: unat_word_ariths mod_mod_cancel)
  then show "(a + 4096) AND 0xfff = 0" by (simp add: word_unat_eq_iff low12_nat)
qed

lemma region_loop_top:
  assumes "region_loop km dir start en iden k w s = Some y"
  shows "\<not> (en = 0xfffff000 \<and> start AND 0xfff = 0)"
proof (rule region_loop.raw_induct [where P = "\<lambda>km dir start en iden k w s y. \<not> (en = 0xfffff000 \<and> start AND 0xfff = 0)",
      OF _ assms], rule notI)
  fix rl km dir start en iden k w s y
  assume IH: "\<And>km dir start en iden k w s y. rl km dir start en iden k w s = Some y \<Longrightarrow>
      \<not> (en = 0xfffff000 \<and> start AND 0xfff = 0)"
    and body: "(if start \<le> en then Option.bind (allocate_page km dir start (if iden then start div 4096 else 0) k w s)
      (rl km dir (start + 4096) en iden k w) else Some s) = Some y"
    and top: "en = 0xfffff000 \<and> start AND 0xfff = 0"
  then have "start \<le> en" using aligned_le_top by blast
  with body obtain s1 where "rl km dir (start + 4096) en iden k w s1 = Some y"
    by (auto simp: bind_eq_Some_conv)
  then show False using IH top aligned_next by blast
qed

text \<open>A region whose end lies in the last page is never finished: the page counter wraps to
  0 and stays below the end, so \<open>allocate_region\<close> does not return, whatever the heap does.\<close>

theorem allocate_region_top_diverges:
  assumes "0xfffff000 \<le> end_va"
  shows "allocate_region km dir start_va end_va iden k w s = None"
proof -
  have al: "(a AND 0xfffff000) AND 0xfff = 0" for a :: u32 by (simp add: and.assoc)
  have "unat (end_va AND 0xfffff000) = unat end_va div 4096 * 4096"
    by (simp add: page_mask_nat minus_mod_eq_div_mult)
  moreover have "unat end_va div 4096 = 0xfffff"
    using assms page_no_less [of end_va] div_le_mono [of "0xfffff000" "unat end_va" 4096]
    by (simp add: word_le_nat_alt page_no_def)
  ultimately have "end_va AND 0xfffff000 = 0xfffff000" by (simp add: word_unat_eq_iff)
  then show ?thesis
    unfolding allocate_region_def using region_loop_top al by (metis option.exhaust)
qed

theorem allocate_region_top_diverges_witness:
  "allocate_region (\<lambda>_ _. None) 0x1000 0xffc00000 0xffffffff False True True demo_dir_state = None"
  by (rule allocate_region_top_diverges) simp

text \<open>A directory that has a page table for every page from \<open>a\<close> to \<open>b\<close>.\<close>

definition tables_cover :: "kstate \<Rightarrow> ptr \<Rightarrow> nat \<Rightarrow> nat \<Rightarrow> bool" where
  "tables_cover s d a b \<longleftrightarrow> d \<noteq> NULL \<and> tables_inj s d
     \<and> (\<forall>v. a \<le> page_no v \<and> page_no v \<le> b \<longrightarrow> ref_tables (pdirs s d) (PAGEDIR_INDEX v) \<noteq> NULL)"

lemma page_base: "x AND 0xfffff000 = of_nat (page_no x) * 4096" for x :: u32
proof -
  have "unat (x AND 0xfffff000) = page_no x * 4096" by (simp add: page_mask_nat minus_mod_eq_div_mult page_no_def)
  then show ?thesis using blk_addr [OF page_no_less [of x]] by (simp add: word_unat_eq_iff)
qed

lemma allocate_region_grows:
  assumes c: "tables_cover s d (page_no a) (page_no b)" and b: "b < 0xfffff000"
  shows "\<exists>s'. allocate_region km d a b False k w s = Some s' \<and> grown s d {page_no a..page_no b} s'"
proof (cases "page_no a \<le> page_no b")
  case False
  then have "\<not> (of_nat (page_no a) * 4096 :: u32) \<le> of_nat (page_no b) * 4096"
    using blk_addr [OF page_no_less [of a]] blk_addr [OF page_no_less [of b]] by (simp add: word_le_nat_alt)
  then have "allocate_region km d a b False k w s = Some s"
    unfolding allocate_region_def page_base by (subst region_loop.simps) simp
  then show ?thesis using False grown_refl by auto
next
  case True
  have hi: "Suc (page_no b) < 2 ^ 20" using b by (simp add: page_no_def word_less_nat_alt div_less_iff_less_mult)
  let ?I = "\<lambda>p. grown s d {page_no a..<p}"
  have step: "\<exists>s2. allocate_page km d (of_nat p * 4096) (if False then of_nat p else 0) k w s1 = Some s2 \<and> ?I (Suc p) s2"
    if I: "?I p s1" and p: "page_no a \<le> p" "p \<le> page_no b" for p s1
  proof -
    let ?va = "of_nat p * 4096 :: u32"
    have pn: "page_no ?va = p" using p hi by simp
    have "d \<noteq> NULL" "tables_inj s1 d" "ref_tables (pdirs s1 d) (PAGEDIR_INDEX ?va) \<noteq> NULL"
      using c p pn grown_keeps [OF I] by (simp_all add: tables_cover_def)
    from allocate_page_maps [OF this, of km k w] obtain s2
      where "allocate_page km d ?va 0 k w s1 = Some s2" "grown s1 d {p} s2" unfolding pn by blast
    moreover have "{page_no a..<p} \<union> {p} = {page_no a..<Suc p}" using p by auto
    ultimately show ?thesis using grown_trans [OF I, of "{p}" s2] by auto
  qed
  have "?I (page_no a) s" using grown_refl by simp
  from region_loop_inv [of ?I "page_no a" "page_no b" km d False k w "page_no a" s, OF step _ _ hi this] True
  show ?thesis unfolding allocate_region_def page_base by (simp add: atLeastLessThanSuc_atLeastAtMost)
qed

text \<open>C40: when mapping a region ends. In a directory that has the page tables, \<open>allocate_region\<close> returns exactly when the region does not
  reach into the last page of the address space; then every page from the first to the last, both included, is mapped, every
  other translation and every existing one is as before, and memory is unchanged. Otherwise the page counter wraps and the
  loop never ends.\<close>

theorem allocate_region_terminates:
  assumes "tables_cover s d (page_no a) (page_no b)"
  shows "case allocate_region km d a b False k w s of None \<Rightarrow> 0xfffff000 \<le> b
    | Some s' \<Rightarrow> b < 0xfffff000 \<and> (\<forall>v. page_no a \<le> page_no v \<and> page_no v \<le> page_no b \<longrightarrow> va_frame s' d v \<noteq> None)
        \<and> (\<forall>v. va_frame s d v \<noteq> None \<or> page_no v < page_no a \<or> page_no b < page_no v \<longrightarrow> va_frame s' d v = va_frame s d v)
        \<and> kmem s' = kmem s"
proof (cases "b < 0xfffff000")
  case True
  then obtain s' where "allocate_region km d a b False k w s = Some s'" "grown s d {page_no a..page_no b} s'"
    using allocate_region_grows [OF assms] by blast
  then show ?thesis using True grown_keeps(5) [of s d _ s'] by (auto simp: grown_def)
next
  case False
  then show ?thesis using allocate_region_top_diverges [of b] by simp
qed

theorem allocate_region_terminates_witness:
  "\<exists>s'. allocate_region (\<lambda>_ _. None) 0x1000 0xc0100000 0xc0101800 False True True demo_dir_state = Some s'
     \<and> va_frame s' 0x1000 0xc0101fff \<noteq> None"
proof -
  have "PAGEDIR_INDEX v = 0x300" if "0xc0100 \<le> page_no v" "page_no v \<le> 0xc0101" for v
  proof -
    have "unat v div 4194304 = 768" using that by (simp add: page_no_def div_nat_eqI)
    then show ?thesis by (simp add: PAGEDIR_INDEX_def drop_bit_eq_div word_unat_eq_iff unat_div)
  qed
  then have "tables_cover demo_dir_state 0x1000 (page_no 0xc0100000) (page_no 0xc0101800)"
    by (simp add: tables_cover_def page_no_def demo_dir_state_def demo_boot_state_def tables_inj_def)
  from allocate_region_terminates [OF this, of "\<lambda>_ _. None" True True] show ?thesis
    by (simp add: page_no_def split: option.splits)
qed

end
