(* ===== verification/Kheap.thy ===== *)
theory Kheap
  imports Growth Kstring
begin

unbundle bit_operations_syntax

text \<open>
  The kernel heap, kernel/memory/kheap.c, over the bytes \<open>kmem\<close> of the kernel's address space.
  A \<open>struct Block\<close> is three words at its address: size (bit 0 is the free flag), prev, next.
  Pointer arithmetic is scaled as in C: \<open>(uint32_t*) p + n\<close> is \<open>p + 4 * n\<close> and
  \<open>(struct Block*) p - 12\<close> is \<open>p - 144\<close>. \<open>malloc\<close> calls \<open>ksbrk\<close>, which may call
  \<open>kmalloc_a\<close> for a page table, which calls \<open>malloc\<close>: the nesting is bounded by fuel in
  \<open>kmalloc_a_n\<close>, and \<open>None\<close> is a call that does not return within it.
\<close>

section \<open>Blocks\<close>

abbreviation OVERHEAD :: u32 where "OVERHEAD \<equiv> 16"

definition blk_size :: "kstate \<Rightarrow> ptr \<Rightarrow> u32" where
  "blk_size s b = load32 (kmem s) b"

definition blk_prev :: "kstate \<Rightarrow> ptr \<Rightarrow> ptr" where
  "blk_prev s b = load32 (kmem s) (b + 4)"

definition blk_next :: "kstate \<Rightarrow> ptr \<Rightarrow> ptr" where
  "blk_next s b = load32 (kmem s) (b + 8)"

definition wr :: "ptr \<Rightarrow> u32 \<Rightarrow> kstate \<Rightarrow> kstate" where
  "wr a v s = s\<lparr>kmem := store32 (kmem s) a v\<rparr>"

definition getRealSize :: "u32 \<Rightarrow> u32" where
  "getRealSize sz = push_bit 1 (drop_bit 1 sz)"

definition isEnd :: "ptr \<Rightarrow> kstate \<Rightarrow> bool" where
  "isEnd n s \<longleftrightarrow> n = bl_tail s"

definition isFree :: "ptr \<Rightarrow> kstate \<Rightarrow> bool" where
  "isFree n s \<longleftrightarrow> n \<noteq> NULL \<and> blk_size s n AND 1 \<noteq> 0"

definition doesItFit :: "ptr \<Rightarrow> u32 \<Rightarrow> kstate \<Rightarrow> bool" where
  "doesItFit n sz s \<longleftrightarrow> getRealSize sz \<le> blk_size s n \<and> isFree n s"

definition setFree :: "ptr \<Rightarrow> bool \<Rightarrow> kstate \<Rightarrow> kstate" where
  "setFree a x s = wr a (if x then load32 (kmem s) a OR 1 else load32 (kmem s) a AND 0xFFFFFFFE) s"

section \<open>The free list\<close>

definition removeNodeFromFreelist :: "ptr \<Rightarrow> kstate \<Rightarrow> kstate" where
  "removeNodeFromFreelist x s =
     (if x = NULL then s
      else if blk_prev s x \<noteq> NULL then
        let s = wr (blk_prev s x + 8) (blk_next s x) s
        in if blk_next s x \<noteq> NULL then wr (blk_next s x + 4) (blk_prev s x) s else s
      else
        let s = s\<lparr>freelist := blk_next s x\<rparr>
        in if freelist s \<noteq> NULL then wr (freelist s + 4) NULL s else s)"

definition addNodeToFreelist :: "ptr \<Rightarrow> kstate \<Rightarrow> kstate" where
  "addNodeToFreelist x s =
     (if x = NULL then s
      else
        let s = wr (x + 8) (freelist s) s;
            s = (if freelist s \<noteq> NULL then wr (freelist s + 4) x s else s);
            s = s\<lparr>freelist := x\<rparr>
        in wr (freelist s + 4) NULL s)"

partial_function (option) bestfit_loop :: "u32 \<Rightarrow> ptr \<Rightarrow> ptr \<Rightarrow> kstate \<Rightarrow> ptr option" where
  "bestfit_loop sz cur cur_best s =
     (if cur = NULL then Some cur_best
      else bestfit_loop sz (blk_next s cur)
        (if doesItFit cur sz s \<and> (cur_best = NULL \<or> blk_size s cur < blk_size s cur_best) then cur else cur_best) s)"

definition bestfit :: "u32 \<Rightarrow> kstate \<Rightarrow> ptr option" where
  "bestfit sz s = (if freelist s = NULL then Some NULL else bestfit_loop sz (freelist s) NULL s)"

section \<open>Neighbours\<close>

definition getPrevBlock :: "ptr \<Rightarrow> kstate \<Rightarrow> ptr" where
  "getPrevBlock n s =
     (if n = bl_head s then NULL
      else n - 4 * OVERHEAD - 4 * getRealSize (load32 (kmem s) (n - 16)))"

definition getNextBlock :: "ptr \<Rightarrow> kstate \<Rightarrow> ptr" where
  "getNextBlock n s =
     (if n = bl_tail s then NULL else n + 4 * OVERHEAD + 4 * getRealSize (blk_size s n))"

section \<open>Allocation\<close>

text \<open>The tag written after a block: \<open>(uint32_t*) b + sizeof(struct Block) + realsize\<close>.\<close>

definition put_trailing :: "ptr \<Rightarrow> kstate \<Rightarrow> kstate" where
  "put_trailing b s = wr (b + 48 + 4 * getRealSize (blk_size s b)) (blk_size s b) s"

text \<open>The branch of \<open>malloc\<close> that found a free block.\<close>

definition malloc_best :: "u32 \<Rightarrow> ptr \<Rightarrow> kstate \<Rightarrow> ptr \<times> kstate" where
  "malloc_best blockSize best s =
     (let base = best;
          saveNextBlock = getNextBlock best s;
          chunkSize = getRealSize (blk_size s best) + OVERHEAD;
          rest = chunkSize - blockSize;
          whichSize = (if rest < 8 + OVERHEAD then chunkSize else blockSize);
          s = setFree best False (wr best (whichSize - OVERHEAD) s);
          trailingSize = best + 4 * whichSize - 16;
          s = wr trailingSize (blk_size s best) s;
          p = trailingSize + 4;
          s = (if rest < 8 + OVERHEAD then s
               else if base \<noteq> bl_tail s \<and> isFree saveNextBlock s then
                 let nextblock = saveNextBlock;
                     s = removeNodeFromFreelist nextblock s;
                     s = wr p (rest - OVERHEAD + getRealSize (blk_size s nextblock) + OVERHEAD) s;
                     s = put_trailing p (setFree p True s);
                     s = (if nextblock = bl_tail s then s\<lparr>bl_tail := p\<rparr> else s)
                 in addNodeToFreelist p s
               else
                 let s = put_trailing p (setFree p True (wr p (rest - OVERHEAD) s));
                     s = (if base = bl_tail s then s\<lparr>bl_tail := p\<rparr> else s)
                 in addNodeToFreelist p s)
      in (base + 48, removeNodeFromFreelist base s))"

text \<open>The branch that extends the heap, given the block \<open>ksbrk\<close> returned.\<close>

definition malloc_extend :: "u32 \<Rightarrow> ptr \<Rightarrow> kstate \<Rightarrow> ptr \<times> kstate" where
  "malloc_extend blockSize ret s =
     (let s = (if bl_head s = NULL then s\<lparr>bl_head := ret\<rparr> else s);
          s = s\<lparr>bl_tail := ret\<rparr>;
          s = setFree ret False (wr ret (blockSize - OVERHEAD) s);
          s = wr (ret + 4 * blockSize - 16) (blk_size s ret) s
      in (ret + 48, s))"

definition round16 :: "u32 \<Rightarrow> u32" where
  "round16 sz = (sz + 15) div 16 * 16"

definition malloc :: "kmalloc_t \<Rightarrow> u32 \<Rightarrow> kstate \<Rightarrow> (ptr \<times> kstate) option" where
  "malloc km sz s =
     (if sz = 0 then Some (NULL, s)
      else let roundedSize = round16 sz; blockSize = roundedSize + OVERHEAD
           in Option.bind (bestfit roundedSize s) (\<lambda>best.
                if best \<noteq> NULL then Some (malloc_best blockSize best s)
                else Option.bind (ksbrk km blockSize s) (\<lambda>(ret, s). Some (malloc_extend blockSize ret s))))"

definition free :: "ptr \<Rightarrow> kstate \<Rightarrow> kstate" where
  "free p s =
     (let cur = p - 144; prev = getPrevBlock cur s; next = getNextBlock cur s
      in if isFree prev s \<and> isFree next s then
           let s = wr prev (getRealSize (blk_size s prev) + 2 * OVERHEAD + getRealSize (blk_size s cur)
                     + getRealSize (blk_size s next)) s;
               s = put_trailing prev (setFree prev True s);
               s = (if bl_tail s = next then s\<lparr>bl_tail := prev\<rparr> else s)
           in removeNodeFromFreelist next s
         else if isFree prev s then
           let s = wr prev (getRealSize (blk_size s prev) + OVERHEAD + getRealSize (blk_size s cur)) s;
               s = put_trailing prev (setFree prev True s)
           in if bl_tail s = cur then s\<lparr>bl_tail := prev\<rparr> else s
         else if isFree next s then
           let s = wr cur (getRealSize (blk_size s cur) + OVERHEAD + getRealSize (blk_size s next)) s;
               s = put_trailing cur (setFree cur True s);
               s = (if bl_tail s = next then s\<lparr>bl_tail := cur\<rparr> else s)
           in addNodeToFreelist cur (removeNodeFromFreelist next s)
         else addNodeToFreelist cur (put_trailing cur (setFree cur True s)))"

text \<open>\<open>realloc\<close>: grow into the next block, grow into the previous block, move, or shrink.\<close>

definition realloc_next :: "ptr \<Rightarrow> ptr \<Rightarrow> kstate \<Rightarrow> ptr \<times> kstate" where
  "realloc_next nptr nextBlock s =
     (let s = removeNodeFromFreelist nextBlock s;
          s = wr nptr (getRealSize (blk_size s nptr) + OVERHEAD + getRealSize (blk_size s nextBlock)) s;
          s = put_trailing nptr (setFree nptr False s);
          s = (if bl_tail s = nextBlock then s\<lparr>bl_tail := nptr\<rparr> else s)
      in (nptr + 12, s))"

definition realloc_prev :: "ptr \<Rightarrow> ptr \<Rightarrow> ptr \<Rightarrow> kstate \<Rightarrow> ptr \<times> kstate" where
  "realloc_prev p nptr prevBlock s =
     (let originalSize = getRealSize (blk_size s nptr);
          s = removeNodeFromFreelist prevBlock s;
          s = wr prevBlock (originalSize + OVERHEAD + getRealSize (blk_size s prevBlock)) s;
          s = put_trailing prevBlock (setFree prevBlock False s);
          s = (if bl_tail s = nptr then s\<lparr>bl_tail := prevBlock\<rparr> else s);
          s = s\<lparr>kmem := snd (memcpy (kmem s) (prevBlock + 12) p originalSize)\<rparr>
      in (prevBlock + 12, s))"

definition realloc_shrink :: "u32 \<Rightarrow> ptr \<Rightarrow> ptr \<Rightarrow> ptr \<Rightarrow> kstate \<Rightarrow> ptr \<times> kstate" where
  "realloc_shrink blockSize p nptr nextBlock s =
     (let rest = getRealSize (blk_size s nptr) + OVERHEAD - blockSize
      in if rest < 8 + OVERHEAD then (p, s)
         else
           let s = put_trailing nptr (setFree nptr False (wr nptr (blockSize - OVERHEAD) s));
               trailingSize = nptr + 48 + 4 * getRealSize (blk_size s nptr);
               splitBlock = trailingSize + 48
           in if nextBlock \<noteq> NULL \<and> isFree nextBlock s then
                let s = wr splitBlock (rest + getRealSize (blk_size s nextBlock)) s;
                    s = put_trailing splitBlock (setFree splitBlock True s);
                    s = removeNodeFromFreelist nextBlock s;
                    s = (if bl_tail s = nextBlock then s\<lparr>bl_tail := splitBlock\<rparr> else s)
                in (p, addNodeToFreelist splitBlock s)
              else
                let s = put_trailing splitBlock (setFree splitBlock True (wr splitBlock (rest - OVERHEAD) s))
                in (p, addNodeToFreelist splitBlock s))"

definition realloc :: "kmalloc_t \<Rightarrow> ptr \<Rightarrow> u32 \<Rightarrow> kstate \<Rightarrow> (ptr \<times> kstate) option" where
  "realloc km p sz s =
     (if p = NULL then malloc km sz s
      else if sz = 0 then Some (NULL, free p s)
      else
        let roundedSize = round16 sz; blockSize = roundedSize + OVERHEAD; nptr = p - 144;
            nextBlock = getNextBlock nptr s; prevBlock = getPrevBlock nptr s
        in if blk_size s nptr = sz then Some (p, s)
           else if blk_size s nptr < sz then
             if bl_tail s \<noteq> nptr \<and> isFree nextBlock s
                \<and> roundedSize \<le> getRealSize (blk_size s nptr) + OVERHEAD + getRealSize (blk_size s nextBlock)
             then Some (realloc_next nptr nextBlock s)
             else if bl_head s \<noteq> nptr \<and> isFree prevBlock s
                \<and> roundedSize \<le> getRealSize (blk_size s nptr) + OVERHEAD + getRealSize (blk_size s prevBlock)
             then Some (realloc_prev p nptr prevBlock s)
             else Option.bind (malloc km sz s) (\<lambda>(newplace, s).
                    let s = s\<lparr>kmem := snd (memcpy (kmem s) newplace p (getRealSize (blk_size s nptr)))\<rparr>
                    in Some (newplace, free p s))
           else Some (realloc_shrink blockSize p nptr nextBlock s))"

section \<open>The interface of the kernel\<close>

definition align_placement :: "u32 \<Rightarrow> u32 \<Rightarrow> u32" where
  "align_placement align a = (if align = 1 \<and> a AND 0xFFFFF000 \<noteq> 0 then (a AND 0xFFFFF000) + 0x1000 else a)"

definition kmalloc_cont :: "u32 \<Rightarrow> u32 \<Rightarrow> ptr \<Rightarrow> kstate \<Rightarrow> ptr \<times> kstate" where
  "kmalloc_cont sz align phys s =
     (let a = align_placement align (placement_address s);
          s = (if phys \<noteq> NULL then wr phys a s else s)
      in (a, s\<lparr>placement_address := a + sz\<rparr>))"

definition kmalloc_int :: "kmalloc_t \<Rightarrow> u32 \<Rightarrow> u32 \<Rightarrow> ptr \<Rightarrow> kstate \<Rightarrow> (ptr \<times> kstate) option" where
  "kmalloc_int km sz align phys s =
     (if heap_start s \<noteq> NULL then
        Option.bind (malloc km (if align \<noteq> 0 then sz + 4096 else sz) s) (\<lambda>(addr, s).
          let align_addr = (addr AND 0xFFFFF000) + 0x1000;
              t = (if align \<noteq> 0 then align_addr else addr);
              s = (if phys \<noteq> NULL then wr phys (virt2phys s (kernel_page_dir s) t) s else s)
          in Some (t, s))
      else
        let a = align_placement align (placement_address s);
            s = (if phys \<noteq> NULL then wr phys a s else s)
        in Some (a, s\<lparr>placement_address := a + sz\<rparr>))"

primrec kmalloc_a_n :: "nat \<Rightarrow> kmalloc_t" where
  "kmalloc_a_n 0 = (\<lambda>sz s. None)"
| "kmalloc_a_n (Suc n) = (\<lambda>sz s. kmalloc_int (kmalloc_a_n n) sz 1 NULL s)"

definition kmalloc_p :: "nat \<Rightarrow> u32 \<Rightarrow> ptr \<Rightarrow> kstate \<Rightarrow> (ptr \<times> kstate) option" where
  "kmalloc_p n sz phys s = kmalloc_int (kmalloc_a_n n) sz 0 phys s"

definition kmalloc_ap :: "nat \<Rightarrow> u32 \<Rightarrow> ptr \<Rightarrow> kstate \<Rightarrow> (ptr \<times> kstate) option" where
  "kmalloc_ap n sz phys s = kmalloc_int (kmalloc_a_n n) sz 1 phys s"

definition kmalloc :: "nat \<Rightarrow> u32 \<Rightarrow> kstate \<Rightarrow> (ptr \<times> kstate) option" where
  "kmalloc n sz s = kmalloc_int (kmalloc_a_n n) sz 0 NULL s"

definition kcalloc :: "nat \<Rightarrow> u32 \<Rightarrow> u32 \<Rightarrow> kstate \<Rightarrow> (ptr \<times> kstate) option" where
  "kcalloc n num sz s =
     Option.bind (malloc (kmalloc_a_n n) (num * sz) s) (\<lambda>(p, s).
       Some (p, s\<lparr>kmem := snd (memset (kmem s) p 0 (num * sz))\<rparr>))"

definition krealloc :: "nat \<Rightarrow> ptr \<Rightarrow> u32 \<Rightarrow> kstate \<Rightarrow> (ptr \<times> kstate) option" where
  "krealloc n p sz s = realloc (kmalloc_a_n n) p sz s"

definition kfree :: "ptr \<Rightarrow> kstate \<Rightarrow> kstate" where
  "kfree p s = free p s"

definition kheap_init :: "ptr \<Rightarrow> ptr \<Rightarrow> ptr \<Rightarrow> kstate \<Rightarrow> kstate" where
  "kheap_init start en mx s =
     s\<lparr>heap_start := start, heap_end := en, heap_max := mx, heap_curr := start, kheap_enabled := True\<rparr>"


section \<open>The free list as a list\<close>

text \<open>
  \<open>fseg m pv p xs q\<close>: from \<open>p\<close> the nodes \<open>xs\<close> are linked in both directions, the first
  one's prev is \<open>pv\<close> and the last one's next is \<open>q\<close>.
\<close>

primrec fseg :: "mem \<Rightarrow> ptr \<Rightarrow> ptr \<Rightarrow> ptr list \<Rightarrow> ptr \<Rightarrow> bool" where
  "fseg m pv p [] q \<longleftrightarrow> p = q"
| "fseg m pv p (x # xs) q \<longleftrightarrow> p = x \<and> x \<noteq> NULL \<and> load32 m (x + 4) = pv \<and> fseg m x (load32 m (x + 8)) xs q"

definition seg_last :: "ptr \<Rightarrow> ptr list \<Rightarrow> ptr" where
  "seg_last pv xs = (if xs = [] then pv else last xs)"

definition freelist_ok :: "kstate \<Rightarrow> ptr list \<Rightarrow> bool" where
  "freelist_ok s xs \<longleftrightarrow> fseg (kmem s) NULL (freelist s) xs NULL \<and> distinct xs \<and> pairwise (apart 12) (set xs)"

lemma fseg_append:
  "fseg m pv p (xs @ ys) q \<longleftrightarrow> (\<exists>r. fseg m pv p xs r \<and> fseg m (seg_last pv xs) r ys q)"
  by (induction xs arbitrary: pv p) (auto simp: seg_last_def)

lemma fseg_cong:
  "(\<And>x. x \<in> set xs \<Longrightarrow> load32 m' (x + 4) = load32 m (x + 4) \<and> load32 m' (x + 8) = load32 m (x + 8)) \<Longrightarrow>
     fseg m' pv p xs q = fseg m pv p xs q"
  by (induction xs arbitrary: pv p) auto

lemma fseg_snoc:
  "fseg m pv p (ys @ [y]) q \<longleftrightarrow>
     fseg m pv p ys y \<and> y \<noteq> NULL \<and> load32 m (y + 4) = seg_last pv ys \<and> load32 m (y + 8) = q"
  by (auto simp: fseg_append)

lemma fseg_nonnull: "fseg m pv p xs q \<Longrightarrow> x \<in> set xs \<Longrightarrow> x \<noteq> NULL"
  by (induction xs arbitrary: pv p) auto

text \<open>Fields of blocks at least 12 bytes apart do not overlap.\<close>

lemma apart_shift:
  fixes d :: u32
  assumes "12 \<le> d" and "12 \<le> - d"
  shows "4 \<le> d" "4 \<le> d + 4" "4 \<le> d + 8" "4 \<le> d - 4" "4 \<le> d - 8"
proof -
  have lo: "12 \<le> unat d" "12 \<le> unat (- d)" using assms by (simp_all add: word_le_nat_alt)
  then have u: "unat d + unat (- d) = 2 ^ 32"
    using unat_uminus32 [of d] unsigned_less [of d, where 'a = nat] by (cases "d = 0") simp_all
  show "4 \<le> d" using lo by (simp add: word_le_nat_alt)
  show "4 \<le> d + 4" "4 \<le> d + 8" using lo u by (simp_all add: word_le_nat_alt unat_plus_small)
  show "4 \<le> d - 4" "4 \<le> d - 8" using lo by (simp_all add: word_le_nat_alt unat_sub)
qed

lemma apart_fields:
  assumes "apart 12 x y"
  shows "apart 4 x y" "apart 4 (x + 4) y" "apart 4 (x + 8) y"
    "apart 4 x (y + 4)" "apart 4 (x + 4) (y + 4)" "apart 4 (x + 8) (y + 4)"
    "apart 4 x (y + 8)" "apart 4 (x + 4) (y + 8)" "apart 4 (x + 8) (y + 8)"
  using apart_shift [of "x - y"] apart_shift [of "y - x"] assms by (simp_all add: apart_def algebra_simps)

lemma same_fields:
  "apart 4 (x + 4) x" "apart 4 (x + 8) x" "apart 4 x (x + 4)" "apart 4 x (x + 8)"
  "apart 4 (x + 4) (x + 8)" "apart 4 (x + 8) (x + 4)" for x :: ptr
  by (simp_all add: apart_def)

lemmas field_simps' = apart_fields same_fields load_store_apart

lemma wr_fields [simp]:
  "kmem (wr a v s) = store32 (kmem s) a v" "freelist (wr a v s) = freelist s"
  "bl_head (wr a v s) = bl_head s" "bl_tail (wr a v s) = bl_tail s"
  "heap_start (wr a v s) = heap_start s" "heap_curr (wr a v s) = heap_curr s"
  "heap_end (wr a v s) = heap_end s" "heap_max (wr a v s) = heap_max s"
  "kernel_page_dir (wr a v s) = kernel_page_dir s" "pdirs (wr a v s) = pdirs s"
  by (simp_all add: wr_def)

lemma addNode_list:
  assumes ok: "freelist_ok s xs" and x: "x \<noteq> NULL" "x \<notin> set xs" "\<And>y. y \<in> set xs \<Longrightarrow> apart 12 x y"
  shows "freelist_ok (addNodeToFreelist x s) (x # xs)"
proof -
  let ?s' = "addNodeToFreelist x s"
  have seg: "fseg (kmem s) NULL (freelist s) xs NULL" and sep: "pairwise (apart 12) (set xs)" "distinct xs"
    using ok by (auto simp: freelist_ok_def)
  have f: "freelist ?s' = x" using x(1) by (simp add: addNodeToFreelist_def Let_def)
  have "pairwise (apart 12) (set (x # xs))"
    using sep(1) x(3) unfolding list.set pairwise_insert by (metis apart_sym)
  moreover have "fseg (kmem ?s') NULL x (x # xs) NULL"
  proof (cases xs)
    case Nil
    with seg have "freelist s = NULL" by simp
    then show ?thesis using x(1) Nil by (simp add: addNodeToFreelist_def Let_def field_simps')
  next
    case (Cons y ys)
    have y: "freelist s = y" "y \<noteq> NULL" and tl: "fseg (kmem s) y (load32 (kmem s) (y + 8)) ys NULL"
      using seg Cons by auto
    have xy: "apart 12 x y" "apart 12 y x" using x(3) [of y] Cons apart_sym [of 12 x y] by simp_all
    have m: "kmem ?s' = store32 (store32 (store32 (kmem s) (x + 8) y) (y + 4) x) (x + 4) NULL"
      using x(1) y by (simp add: addNodeToFreelist_def Let_def)
    have "apart 12 x z \<and> apart 12 y z" if "z \<in> set ys" for z
      using that x(3) sep Cons by (auto simp: pairwise_insert)
    then have "fseg (kmem ?s') y (load32 (kmem s) (y + 8)) ys NULL"
      using tl unfolding m by (subst fseg_cong [of _ _ "kmem s"]) (auto simp: field_simps')
    then show ?thesis
      using x(1) y(2) xy unfolding Cons by (simp add: m field_simps')
  qed
  ultimately show ?thesis using sep x(2) f by (simp add: freelist_ok_def)
qed


lemma fseg_set_prev:
  assumes "fseg m pv p zs NULL" and "distinct zs" and "pairwise (apart 12) (set zs)"
  shows "fseg (if p \<noteq> NULL then store32 m (p + 4) v else m) v p zs NULL"
proof (cases zs)
  case (Cons z zs')
  have p: "p = z" "z \<noteq> NULL" and tl: "fseg m z (load32 m (z + 8)) zs' NULL" using assms(1) Cons by auto
  have "apart 12 z y" if "y \<in> set zs'" for y
    using that assms(2,3) Cons by (auto simp: pairwise_insert)
  then have "fseg (store32 m (z + 4) v) z (load32 m (z + 8)) zs' NULL"
    using tl by (subst fseg_cong [of _ _ m]) (auto simp: field_simps')
  then show ?thesis using p Cons by (simp add: field_simps')
qed (use assms(1) in simp)

text \<open>Unlinking a node that has a predecessor: the predecessor's link skips it and the next node, if any, points back.\<close>

lemma unlink_middle:
  assumes us: "fseg m NULL q us y" "y \<noteq> NULL" "load32 m (y + 4) = seg_last NULL us"
    and zs: "fseg m x n zs NULL" "distinct zs"
    and far: "pairwise (apart 12) (set (us @ y # zs))" "y \<notin> set us" "y \<notin> set zs" "set us \<inter> set zs = {}"
    and m': "m' = (if n \<noteq> NULL then store32 (store32 m (y + 8) n) (n + 4) y else store32 m (y + 8) n)"
  shows "fseg m' NULL q (us @ y # zs) NULL"
proof -
  let ?m1 = "store32 m (y + 8) n"
  have apart: "apart 12 a b" if "a \<in> set (us @ y # zs)" "b \<in> set (us @ y # zs)" "a \<noteq> b" for a b
    using far(1) that unfolding pairwise_def by blast
  have nz: "n = NULL \<or> n \<in> set zs" using zs(1) by (cases zs) auto
  have yz: "apart 12 y z" if "z \<in> set zs" for z using that apart [of y z] far(3) by auto
  have dz: "pairwise (apart 12) (set zs)" using far(1) by (auto simp: pairwise_def)
  have "fseg ?m1 x n zs NULL" using zs(1) yz by (subst fseg_cong [of _ _ m]) (auto simp: field_simps')
  from fseg_set_prev [OF this zs(2) dz, of y] have zs': "fseg m' y n zs NULL" using m' by simp
  have keep: "load32 m' (u + k) = load32 m (u + k)" if u: "u \<in> set us" and k: "k = 4 \<or> k = 8" for u k
  proof -
    have "apart 12 y u" using u apart [of y u] far(2) by auto
    moreover have "apart 12 n u" if "n \<noteq> NULL" using that nz u apart [of n u] far(4) by auto
    ultimately show ?thesis using k unfolding m' by (auto simp: field_simps')
  qed
  have us': "fseg m' NULL q us y" using us(1) keep by (subst fseg_cong [of _ _ m]) auto
  have "apart 12 n y" if "n \<noteq> NULL" using that nz apart [of n y] far(3) by auto
  then have "load32 m' (y + 4) = seg_last NULL us" "load32 m' (y + 8) = n"
    using us(3) unfolding m' by (auto simp: field_simps')
  then show ?thesis using us' us(2) zs' by (auto simp: fseg_append)
qed

lemma removeNode_list:
  assumes ok: "freelist_ok s xs" and x: "x \<in> set xs"
  shows "freelist_ok (removeNodeFromFreelist x s) (remove1 x xs)"
proof -
  let ?s' = "removeNodeFromFreelist x s" and ?m = "kmem s"
  let ?n = "load32 ?m (x + 8)"
  obtain ys zs where xs: "xs = ys @ x # zs" "x \<notin> set ys" using x split_list_first by metis
  have d: "distinct xs" and sep: "pairwise (apart 12) (set xs)" using ok by (auto simp: freelist_ok_def)
  have x0: "x \<noteq> NULL" and ys: "fseg ?m NULL (freelist s) ys x" and px: "load32 ?m (x + 4) = seg_last NULL ys"
    and zs: "fseg ?m x ?n zs NULL"
    using ok by (auto simp: freelist_ok_def xs fseg_append)
  have d': "distinct (ys @ zs)" "pairwise (apart 12) (set (ys @ zs))" using d sep xs by (auto simp: pairwise_def)
  then have dz: "distinct zs" "pairwise (apart 12) (set zs)" by (auto simp: pairwise_def)
  have "fseg (kmem ?s') NULL (freelist ?s') (ys @ zs) NULL"
  proof (cases ys rule: rev_cases)
    case Nil
    then have "blk_prev s x = NULL" using px by (simp add: blk_prev_def seg_last_def)
    then have "kmem ?s' = (if ?n \<noteq> NULL then store32 ?m (?n + 4) NULL else ?m)" "freelist ?s' = ?n"
      using x0 by (simp_all add: removeNodeFromFreelist_def Let_def blk_next_def)
    then show ?thesis using fseg_set_prev [OF zs dz, of NULL] Nil by simp
  next
    case (snoc us y)
    have y: "fseg ?m NULL (freelist s) us y" "y \<noteq> NULL" "load32 ?m (y + 4) = seg_last NULL us"
      using ys unfolding snoc fseg_snoc by auto
    have py: "load32 ?m (x + 4) = y" using px snoc by (simp add: seg_last_def)
    have yx: "apart 12 y x" using sep xs snoc by (auto simp: pairwise_def)
    let ?m1 = "store32 ?m (y + 8) ?n"
    have m: "kmem ?s' = (if ?n \<noteq> NULL then store32 ?m1 (?n + 4) y else ?m1)" "freelist ?s' = freelist s"
      using x0 y(2) py yx
      by (simp_all add: removeNodeFromFreelist_def Let_def blk_prev_def blk_next_def field_simps')
    show ?thesis
      using unlink_middle [OF y zs dz(1) _ _ _ _ m(1)] d' by (simp add: m(2) snoc)
  qed
  moreover have "remove1 x xs = ys @ zs" using xs by (simp add: remove1_append)
  ultimately show ?thesis using d' unfolding freelist_ok_def by simp
qed

section \<open>Best fit\<close>

definition better :: "u32 \<Rightarrow> kstate \<Rightarrow> ptr \<Rightarrow> ptr \<Rightarrow> ptr" where
  "better sz s b x = (if doesItFit x sz s \<and> (b = NULL \<or> blk_size s x < blk_size s b) then x else b)"

text \<open>\<open>b\<close> is the choice among \<open>X\<close>: null when nothing fits, otherwise a smallest block that fits.\<close>

definition best_of :: "u32 \<Rightarrow> kstate \<Rightarrow> ptr set \<Rightarrow> ptr \<Rightarrow> bool" where
  "best_of sz s X b \<longleftrightarrow> (if \<exists>x\<in>X. doesItFit x sz s
     then b \<in> X \<and> doesItFit b sz s \<and> (\<forall>x\<in>X. doesItFit x sz s \<longrightarrow> blk_size s b \<le> blk_size s x) else b = NULL)"

lemma bestfit_loop_fold:
  "fseg (kmem s) pv p xs NULL \<Longrightarrow> bestfit_loop sz p b s = Some (foldl (better sz s) b xs)"
proof (induction xs arbitrary: pv p b)
  case Nil
  then show ?case by (simp add: bestfit_loop.simps [of _ 0])
next
  case (Cons x xs)
  then have "p = x" "x \<noteq> NULL" by auto
  then have "bestfit_loop sz p b s = bestfit_loop sz (blk_next s x) (better sz s b x) s"
    by (subst bestfit_loop.simps) (simp only: better_def if_False)
  with Cons.IH [of x "blk_next s x" "better sz s b x"] Cons.prems show ?case by (simp add: blk_next_def)
qed

lemma best_of_step:
  assumes "best_of sz s X b" and "x \<noteq> NULL" and "NULL \<notin> X"
  shows "best_of sz s (insert x X) (better sz s b x)"
proof (cases "doesItFit x sz s")
  case False
  then have "better sz s b x = b" by (simp add: better_def)
  with assms(1) False show ?thesis by (auto simp: best_of_def)
next
  case True
  show ?thesis
  proof (cases "\<exists>y\<in>X. doesItFit y sz s")
    case False
    then have "b = NULL" using assms(1) by (simp add: best_of_def)
    with True False show ?thesis by (auto simp: best_of_def better_def)
  next
    case ex: True
    then have b: "b \<in> X" "doesItFit b sz s" "\<And>y. y \<in> X \<Longrightarrow> doesItFit y sz s \<Longrightarrow> blk_size s b \<le> blk_size s y"
      using assms(1) by (auto simp: best_of_def)
    have "b \<noteq> NULL" using b(1) assms(3) by auto
    with True b show ?thesis
      by (cases "blk_size s x < blk_size s b") (auto simp: best_of_def better_def intro: order_trans less_imp_le)
  qed
qed

lemma foldl_better:
  assumes "best_of sz s X b" and "NULL \<notin> X" and "NULL \<notin> set xs"
  shows "best_of sz s (set xs \<union> X) (foldl (better sz s) b xs)"
  using assms
proof (induction xs arbitrary: X b)
  case (Cons x xs)
  then have "best_of sz s (set xs \<union> insert x X) (foldl (better sz s) (better sz s b x) xs)"
    by (intro Cons.IH best_of_step) auto
  then show ?case by simp
qed simp

section \<open>Properties of the lists\<close>

definition demo_heap :: kstate where
  "demo_heap = demo_heap_state\<lparr>freelist := 0x1000,
     kmem := store32 (store32 (store32 (store32 (store32 (store32 (\<lambda>_. 0) 0x1000 65) 0x1008 0x2000) 0x2000 33)
       0x2004 0x1000) 0x1004 0) 0x2008 0\<rparr>"

lemma demo_loads:
  "load32 (kmem demo_heap) 0x1000 = 65" "load32 (kmem demo_heap) 0x1004 = 0" "load32 (kmem demo_heap) 0x1008 = 0x2000"
  "load32 (kmem demo_heap) 0x2000 = 33" "load32 (kmem demo_heap) 0x2004 = 0x1000" "load32 (kmem demo_heap) 0x2008 = 0"
  by (simp_all add: demo_heap_def load_store_apart apart_def)

lemma demo_freelist: "freelist demo_heap = 0x1000" "freelist_ok demo_heap [0x1000, 0x2000]"
proof -
  show f: "freelist demo_heap = 0x1000" by (simp add: demo_heap_def)
  show "freelist_ok demo_heap [0x1000, 0x2000]"
    unfolding freelist_ok_def f using demo_loads by (simp add: pairwise_insert apart_def)
qed

text \<open>C29: on a well-formed free list \<open>bestfit\<close> returns; it returns a null pointer exactly when
  no listed block is free and large enough, and otherwise a listed block that fits and whose size
  is least among those that fit.\<close>

theorem bestfit_smallest:
  assumes "freelist_ok s xs"
  shows "\<exists>b. bestfit sz s = Some b \<and> (if \<exists>x\<in>set xs. doesItFit x sz s
    then b \<in> set xs \<and> doesItFit b sz s \<and> (\<forall>x\<in>set xs. doesItFit x sz s \<longrightarrow> blk_size s b \<le> blk_size s x)
    else b = NULL)"
proof -
  have seg: "fseg (kmem s) NULL (freelist s) xs NULL" using assms by (simp add: freelist_ok_def)
  have "best_of sz s {} NULL" by (simp add: best_of_def)
  from foldl_better [OF this] fseg_nonnull [OF seg]
  have "best_of sz s (set xs) (foldl (better sz s) NULL xs)" by fastforce
  moreover have "bestfit sz s = Some (foldl (better sz s) NULL xs)"
    using bestfit_loop_fold [OF seg, of sz NULL] seg by (cases xs) (auto simp: bestfit_def)
  ultimately show ?thesis unfolding best_of_def by blast
qed

theorem bestfit_smallest_witness: "bestfit 20 demo_heap = Some 0x2000"
proof -
  have fit: "doesItFit 0x1000 20 demo_heap" "doesItFit 0x2000 20 demo_heap"
    by (simp_all add: doesItFit_def isFree_def blk_size_def demo_loads getRealSize_def)
  obtain b where "bestfit 20 demo_heap = Some b" "b \<in> {0x1000, 0x2000}" "blk_size demo_heap b \<le> blk_size demo_heap 0x2000"
    using bestfit_smallest [OF demo_freelist(2), of 20] fit by auto
  then show ?thesis by (auto simp: blk_size_def demo_loads)
qed

text \<open>C30: inserting a block that lies apart from the listed ones puts it in front of the free list,
  and removing a listed block removes exactly that one; both leave the list doubly linked.\<close>

theorem freelist_add_remove:
  assumes "freelist_ok s xs" and "x \<noteq> NULL" and "\<And>y. y \<in> set xs \<Longrightarrow> apart 12 x y"
  shows "freelist_ok (addNodeToFreelist x s) (x # xs)
    \<and> freelist_ok (removeNodeFromFreelist x (addNodeToFreelist x s)) xs
    \<and> (\<forall>y\<in>set xs. freelist_ok (removeNodeFromFreelist y s) (remove1 y xs))"
proof -
  have "x \<notin> set xs" using assms(3) [of x] by (auto simp: apart_def)
  then have a: "freelist_ok (addNodeToFreelist x s) (x # xs)" using assms by (rule_tac addNode_list) auto
  from removeNode_list [OF this, of x] show ?thesis using a removeNode_list [OF assms(1)] by simp
qed

theorem freelist_add_remove_witness:
  "freelist_ok (addNodeToFreelist 0x3000 demo_heap) [0x3000, 0x1000, 0x2000]
   \<and> freelist_ok (removeNodeFromFreelist 0x2000 demo_heap) [0x1000]"
proof -
  have "apart 12 0x3000 y" if "y \<in> set [0x1000, 0x2000]" for y :: ptr using that by (auto simp: apart_def)
  from freelist_add_remove [OF demo_freelist(2) _ this] show ?thesis by simp
qed


section \<open>Growing the heap\<close>

lemma bestfit_empty: "freelist s = NULL \<Longrightarrow> bestfit sz s = Some NULL"
  by (simp add: bestfit_def)

text \<open>
  A heap about to need a page table for its own growth: the table of \<open>heap_end\<close> is missing and
  fewer than the 8208 bytes of an aligned table request are left below \<open>heap_end\<close>.
\<close>

definition stuck_heap :: "kstate \<Rightarrow> bool" where
  "stuck_heap s \<longleftrightarrow> heap_start s \<noteq> NULL \<and> kheap_enabled s \<and> freelist s = NULL \<and> kernel_page_dir s \<noteq> NULL
     \<and> ref_tables (pdirs s (kernel_page_dir s)) (PAGEDIR_INDEX (heap_end s)) = NULL
     \<and> heap_end s < heap_curr s + 8208 \<and> heap_curr s + 8208 \<le> heap_max s"

lemma ksbrk_needs_table:
  assumes "kheap_enabled s" and "kernel_page_dir s \<noteq> NULL" and "km 4096 s = None" and "0 < sint sz"
    and "ref_tables (pdirs s (kernel_page_dir s)) (PAGEDIR_INDEX (heap_end s)) = NULL"
    and "heap_end s < heap_curr s + sz" and "heap_curr s + sz \<le> heap_max s"
  shows "ksbrk km sz s = None"
proof -
  have "ensure_table km (kernel_page_dir s) (PAGEDIR_INDEX (heap_end s)) True True s = None"
    using assms(1,3,5) by (simp add: ensure_table_def Let_def)
  then have "allocate_page km (kernel_page_dir s) (heap_end s) 0 True True s = None"
    using assms(2) by (simp add: allocate_page_def)
  then have l: "kernel_pages_loop km (heap_end s) (heap_curr s + sz) True s = None"
    using assms(6) by (subst kernel_pages_loop.simps) simp
  have "\<not> heap_curr s + sz \<le> heap_end s" "\<not> heap_max s < heap_curr s + sz" "sz \<noteq> 0"
    using assms(4,6,7) by auto
  then show ?thesis
    using assms(4) l by (subst ksbrk.simps) (simp only: Let_def if_False if_True bind.bind_lzero)
qed

lemma kmalloc_a_stuck:
  assumes "stuck_heap s"
  shows "kmalloc_a_n n 4096 s = None"
proof (induction n)
  case (Suc n)
  have "ksbrk (kmalloc_a_n n) 8208 s = None"
    using assms by (intro ksbrk_needs_table Suc.IH) (auto simp: stuck_heap_def)
  then have "malloc (kmalloc_a_n n) 8192 s = None"
    using assms by (simp add: malloc_def bestfit_empty stuck_heap_def round16_def)
  then show ?case using assms by (simp add: kmalloc_int_def stuck_heap_def)
qed simp

text \<open>A heap whose next page needs a new page table and that has less than 8208 bytes left
  cannot grow at all: obtaining the table asks the heap for memory, which asks for the same table
  again. No nesting depth is enough, so every request that does not fit the remainder hangs.\<close>

theorem kmalloc_table_recursion:
  assumes "stuck_heap s" and "0 < sint (round16 sz + OVERHEAD)" and "sz \<noteq> 0"
    and "heap_end s < heap_curr s + (round16 sz + OVERHEAD)" and "heap_curr s + (round16 sz + OVERHEAD) \<le> heap_max s"
  shows "kmalloc n sz s = None"
proof -
  have "ksbrk (kmalloc_a_n n) (round16 sz + OVERHEAD) s = None"
    using assms kmalloc_a_stuck [OF assms(1)] by (intro ksbrk_needs_table) (auto simp: stuck_heap_def)
  then show ?thesis
    using assms(1,3) by (simp add: kmalloc_def kmalloc_int_def malloc_def bestfit_empty stuck_heap_def Let_def)
qed

definition demo_full_heap :: kstate where
  "demo_full_heap = (kheap_init 0xc0400000 0xc0c00000 0xcfffffff demo_dir_state)
     \<lparr>kernel_page_dir := 0x1000, heap_curr := 0xc0bff000\<rparr>"

theorem kmalloc_table_recursion_witness: "stuck_heap demo_full_heap \<and> kmalloc 100 5000 demo_full_heap = None"
proof -
  have s: "stuck_heap demo_full_heap"
    by (simp add: stuck_heap_def demo_full_heap_def kheap_init_def demo_dir_state_def demo_boot_state_def PAGEDIR_INDEX_def)
  have "heap_end demo_full_heap = 0xc0c00000" "heap_curr demo_full_heap = 0xc0bff000" "heap_max demo_full_heap = 0xcfffffff"
    by (simp_all add: demo_full_heap_def kheap_init_def)
  then show ?thesis using s kmalloc_table_recursion [OF s, of 5000 100] by (simp add: round16_def)
qed

section \<open>Requests\<close>

text \<open>A request that fits between the break and \<open>heap_end\<close>, with nothing on the free list.\<close>

definition fits_below_end :: "kstate \<Rightarrow> u32 \<Rightarrow> bool" where
  "fits_below_end s sz \<longleftrightarrow> freelist s = NULL \<and> 0 < sz \<and> unat sz < 2 ^ 28
     \<and> unat (heap_curr s) + unat sz + 31 < unat (heap_end s)"

lemma round16_unat:
  assumes "0 < sz" and "unat sz < 2 ^ 28"
  shows "unat (round16 sz) = (unat sz + 15) div 16 * 16" and "unat sz \<le> unat (round16 sz)"
    and "unat (round16 sz) \<le> unat sz + 15" and "unat (round16 sz + 16) = unat (round16 sz) + 16"
    and "round16 sz AND 0xFFFFFFFE = round16 sz"
proof -
  have "unat ((sz + 15) div 16) = (unat sz + 15) div 16"
    using assms(2) by (simp add: unat_div unat_plus_small)
  moreover have "(unat sz + 15) div 16 * 16 < 2 ^ 32"
    by (rule le_less_trans [OF div_times_less_eq_dividend]) (use assms(2) in simp)
  ultimately show u: "unat (round16 sz) = (unat sz + 15) div 16 * 16"
    by (simp add: round16_def unat_word_ariths)
  show "unat sz \<le> unat (round16 sz)" "unat (round16 sz) \<le> unat sz + 15"
    unfolding u using div_mult_mod_eq [of "unat sz + 15" 16] mod_less_divisor [of 16 "unat sz + 15"] by linarith+
  then show "unat (round16 sz + 16) = unat (round16 sz) + 16" using assms(2) by (simp add: unat_plus_small)
  have "round16 sz = push_bit 4 ((sz + 15) div 16)" by (simp add: round16_def push_bit_eq_mult)
  moreover have "(0xFFFFFFFE :: u32) = NOT 1" by simp
  moreover have "push_bit 4 w AND NOT 1 = push_bit 4 w" for w :: u32
    by (rule bit_word_eqI) (auto simp: bit_simps)
  ultimately show "round16 sz AND 0xFFFFFFFE = round16 sz" by metis
qed

lemma malloc_in_heap:
  assumes "fits_below_end s sz"
  shows "\<exists>s'. malloc km sz s = Some (heap_curr s + 48, s') \<and> blk_size s' (heap_curr s) = round16 sz
    \<and> heap_curr s' = heap_curr s + (round16 sz + 16) \<and> heap_end s' = heap_end s \<and> freelist s' = NULL
    \<and> bl_tail s' = heap_curr s \<and> heap_start s' = heap_start s"
proof -
  let ?n = "round16 sz + 16" and ?b = "heap_curr s"
  have f: "0 < sz" "unat sz < 2 ^ 28" "freelist s = NULL" and r: "unat ?b + unat sz + 31 < unat (heap_end s)"
    using assms by (auto simp: fits_below_end_def)
  note u = round16_unat [OF f(1,2)]
  have he: "unat (heap_end s) < 2 ^ 32" using unsigned_less [of "heap_end s", where 'a = nat] by simp
  have n: "unat ?n < 2 ^ 31" "0 < unat ?n" using u(3,4) f(2) by simp_all
  have si: "0 < sint ?n" using n by (simp add: sint_pos32)
  have le: "?b + ?n \<le> heap_end s"
    using r u(3,4) he by (simp add: word_le_nat_alt unat_plus_small)
  have k: "ksbrk km ?n s = Some (?b, s\<lparr>heap_curr := ?b + ?n\<rparr>)"
    using si le by (subst ksbrk.simps) (auto simp: Let_def)
  have m: "malloc km sz s = Some (malloc_extend ?n ?b (s\<lparr>heap_curr := ?b + ?n\<rparr>))"
    using f k by (auto simp: malloc_def bestfit_empty Let_def)
  have "unat (4 * ?n - 16) = 4 * unat ?n - 16"
    using u(2,3,4) f(1,2) by (simp add: unat_sub word_le_nat_alt unat_word_ariths)
  then have "apart 4 (?b + (4 * ?n - 16)) ?b"
    using u(2,3,4) f(1,2) by (intro apart_offset) (auto simp: unat_gt_0)
  then have a: "apart 4 (?b + 4 * ?n - 16) ?b" by (simp add: algebra_simps)
  show ?thesis
    unfolding m using u(5) f(3) a
    by (simp add: malloc_extend_def setFree_def blk_size_def Let_def load_store_apart)
qed


text \<open>With the heap enabled, nothing on the free list and room below \<open>heap_end\<close>, a page-aligned
  request returns, at any nesting depth, an address that is a multiple of 4096 and whose \<open>sz\<close> bytes lie
  inside the \<open>sz + 4096\<close> bytes handed out by \<open>malloc\<close>.\<close>

theorem kmalloc_a_aligned:
  assumes "heap_start s \<noteq> NULL" and "unat sz + 4096 < 2 ^ 28" and "fits_below_end s (sz + 4096)"
    and "unat (heap_curr s) + unat sz + 8192 < 2 ^ 32"
  shows "\<exists>p s'. kmalloc_a_n (Suc n) sz s = Some (p, s') \<and> p AND 0xfff = 0
    \<and> unat (heap_curr s) + 48 < unat p \<and> unat p + unat sz \<le> unat (heap_curr s) + 48 + (unat sz + 4096)
    \<and> heap_curr s' = heap_curr s + (round16 (sz + 4096) + OVERHEAD)"
proof -
  let ?a = "heap_curr s + 48" and ?p = "((heap_curr s + 48) AND 0xFFFFF000) + 0x1000"
  obtain s' where m: "malloc (kmalloc_a_n n) (sz + 4096) s = Some (?a, s')"
      "heap_curr s' = heap_curr s + (round16 (sz + 4096) + 16)"
    using malloc_in_heap [OF assms(3), of "kmalloc_a_n n"] by auto
  have k: "kmalloc_a_n (Suc n) sz s = Some (?p, s')" using assms(1) m(1) by (simp add: kmalloc_int_def)
  have ua: "unat ?a = unat (heap_curr s) + 48" using assms(4) by (simp add: unat_plus_small)
  have up: "unat ?p = unat ?a div 4096 * 4096 + 4096"
    using unat_ALIGN [of ?a] ua assms(4) by (simp add: ALIGN_def)
  have "unat ?p mod 4096 = 0" unfolding up by simp
  then have "?p AND 0xfff = 0" by (metis low12_nat unat_0 word_unat_eq_iff)
  moreover have "unat (heap_curr s) + 48 < unat ?p" "unat ?p \<le> unat ?a + 4096"
    unfolding up using ua div_mult_mod_eq [of "unat ?a" 4096] mod_less_divisor [of 4096 "unat ?a"] by linarith+
  ultimately show ?thesis using k m(2) ua by auto
qed

definition demo_new_heap :: kstate where
  "demo_new_heap = kheap_init 0xc0400000 0xc0c00000 0xcfffffff demo_boot_state"

lemma demo_new_heap_simps [simp]:
  "heap_curr demo_new_heap = 0xc0400000" "heap_end demo_new_heap = 0xc0c00000" "freelist demo_new_heap = 0"
  "heap_start demo_new_heap = 0xc0400000" "bl_head demo_new_heap = 0" "kmem demo_new_heap = (\<lambda>_. 0)"
  by (simp_all add: demo_new_heap_def kheap_init_def demo_boot_state_def)

theorem kmalloc_a_aligned_witness:
  "\<exists>p s'. kmalloc_a_n 1 4096 demo_new_heap = Some (p, s') \<and> p AND 0xfff = 0 \<and> heap_curr s' = 0xc0402010"
  using kmalloc_a_aligned [of demo_new_heap 4096 0] by (auto simp: fits_below_end_def round16_def)




text \<open>\<open>free\<close> does not find the block that \<open>malloc\<close> returned. For a pointer just obtained
  from \<open>malloc\<close> the block's header is at \<open>heap_curr s\<close>, but \<open>free\<close> works on the header 96 bytes
  below it: when the neighbours computed from there are not free, that address becomes the head
  of the free list.\<close>

theorem free_misses_block:
  assumes "fits_below_end s sz" and "malloc km sz s = Some (p, s1)" and "heap_curr s \<noteq> 96"
    and "\<not> isFree (getPrevBlock (heap_curr s - 96) s1) s1" and "\<not> isFree (getNextBlock (heap_curr s - 96) s1) s1"
  shows "blk_size s1 (heap_curr s) = round16 sz \<and> freelist (free p s1) = heap_curr s - 96"
proof -
  obtain s' where s': "malloc km sz s = Some (heap_curr s + 48, s')" "blk_size s' (heap_curr s) = round16 sz"
    using malloc_in_heap [OF assms(1), of km] by blast
  with assms(2) have p: "p = heap_curr s + 48" "s1 = s'" by auto
  have c: "p - 144 = heap_curr s - 96" unfolding p by simp
  have "free p s1 = addNodeToFreelist (heap_curr s - 96)
      (put_trailing (heap_curr s - 96) (setFree (heap_curr s - 96) True s1))"
    using assms(4,5) by (simp add: free_def c Let_def)
  moreover have "heap_curr s - 96 \<noteq> NULL" using assms(3) by simp
  ultimately show ?thesis using s'(2) p by (simp add: addNodeToFreelist_def Let_def)
qed

theorem free_misses_block_witness:
  "\<exists>p s1. malloc (\<lambda>_ _. None) 32 demo_new_heap = Some (p, s1) \<and> freelist (free p s1) = 0xc03fffa0"
proof -
  have fits: "fits_below_end demo_new_heap 32" by (simp add: fits_below_end_def)
  obtain s1 where s1: "malloc (\<lambda>_ _. None) 32 demo_new_heap = Some (0xc0400030, s1)" "bl_tail s1 = 0xc0400000"
    using malloc_in_heap [OF fits, of "\<lambda>_ _. None"] by auto
  have k: "ksbrk (\<lambda>_ _. None) 48 demo_new_heap = Some (0xc0400000, demo_new_heap\<lparr>heap_curr := 0xc0400030\<rparr>)"
    by (subst ksbrk.simps) simp
  have "s1 = snd (malloc_extend 48 0xc0400000 (demo_new_heap\<lparr>heap_curr := 0xc0400030\<rparr>))"
    using s1(1) k by (simp add: malloc_def bestfit_empty round16_def Let_def)
  then have h: "bl_head s1 = 0xc0400000"
    and m: "kmem s1 = store32 (store32 (store32 (\<lambda>_. 0) 0xc0400000 32) 0xc0400000 32) 0xc04000b0 32"
    by (simp_all add: malloc_extend_def setFree_def blk_size_def Let_def)
  have z: "load32 (\<lambda>_. 0) a = 0" for a by (simp add: load32_def)
  have pv: "getPrevBlock 0xc03fffa0 s1 = 0xc03fff60" "getNextBlock 0xc03fffa0 s1 = 0xc03fffe0"
    by (simp_all add: getPrevBlock_def getNextBlock_def blk_size_def h m s1(2) getRealSize_def load_store_apart apart_def z)
  have "\<not> isFree 0xc03fff60 s1" "\<not> isFree 0xc03fffe0 s1"
    by (simp_all add: isFree_def blk_size_def m load_store_apart apart_def z)
  then show ?thesis using free_misses_block [OF fits s1(1)] s1(1) by (simp add: pv)
qed

end
