(* ===== verification/Dlists.thy ===== *)
theory Dlists
  imports Kprelude
begin

text \<open>
  The doubly linked list, kernel/utils/dsa/list.c. A structure field is a function from the
  object's address; every address has a field value, because page 0 is mapped and an access
  through a null pointer is an access to address 0. The address that \<open>kcalloc\<close> returned for a
  new object is an argument, and \<open>freed\<close> records the calls of \<open>kfree\<close> in order.
  \<open>dlist s l ns\<close> says that the list at \<open>l\<close> is well formed with the nodes \<open>ns\<close>.
\<close>

section \<open>State and operations\<close>

record lstore =
  n_prev :: "ptr \<Rightarrow> ptr"
  n_next :: "ptr \<Rightarrow> ptr"
  n_value :: "ptr \<Rightarrow> ptr"
  l_head :: "ptr \<Rightarrow> ptr"
  l_tail :: "ptr \<Rightarrow> ptr"
  l_size :: "ptr \<Rightarrow> u32"
  freed :: "ptr list"

definition list_kfree :: "ptr \<Rightarrow> lstore \<Rightarrow> lstore" where
  "list_kfree p s = s\<lparr>freed := freed s @ [p]\<rparr>"

definition calloc_node :: "ptr \<Rightarrow> lstore \<Rightarrow> lstore" where
  "calloc_node t s = s\<lparr>n_prev := (n_prev s)(t := NULL), n_next := (n_next s)(t := NULL), n_value := (n_value s)(t := NULL)\<rparr>"

definition list_create :: "ptr \<Rightarrow> lstore \<Rightarrow> lstore" where
  "list_create t s = s\<lparr>l_head := (l_head s)(t := NULL), l_tail := (l_tail s)(t := NULL), l_size := (l_size s)(t := 0)\<rparr>"

definition list_size :: "ptr \<Rightarrow> lstore \<Rightarrow> u32" where
  "list_size l s = (if l = NULL then 0 else l_size s l)"

definition list_remove_front :: "ptr \<Rightarrow> lstore \<Rightarrow> ptr \<times> lstore" where
  "list_remove_front l s =
     (if l_head s l = NULL then (NULL, s)
      else let t = l_head s l; v = n_value s t;
               s = s\<lparr>l_head := (l_head s)(l := n_next s t)\<rparr>;
               s = (if l_head s l \<noteq> NULL then s\<lparr>n_prev := (n_prev s)(l_head s l := NULL)\<rparr> else s);
               s = list_kfree t s
           in (v, s\<lparr>l_size := (l_size s)(l := l_size s l - 1)\<rparr>))"

definition list_remove_back :: "ptr \<Rightarrow> lstore \<Rightarrow> ptr \<times> lstore" where
  "list_remove_back l s =
     (if l_head s l = NULL then (NULL, s)
      else let t = l_tail s l; v = n_value s t;
               s = s\<lparr>l_tail := (l_tail s)(l := n_prev s t)\<rparr>;
               s = (if l_tail s l \<noteq> NULL then s\<lparr>n_next := (n_next s)(l_tail s l := NULL)\<rparr> else s);
               s = list_kfree t s
           in (v, s\<lparr>l_size := (l_size s)(l := l_size s l - 1)\<rparr>))"

definition list_remove_node :: "ptr \<Rightarrow> ptr \<Rightarrow> lstore \<Rightarrow> ptr \<times> lstore" where
  "list_remove_node l node s =
     (let v = n_value s node
      in if l_head s l = node then list_remove_front l s
         else if l_tail s l = node then list_remove_back l s
         else let s = s\<lparr>n_prev := (n_prev s)(n_next s node := n_prev s node)\<rparr>;
                  s = s\<lparr>n_next := (n_next s)(n_prev s node := n_next s node)\<rparr>;
                  s = s\<lparr>l_size := (l_size s)(l := l_size s l - 1)\<rparr>
              in (v, list_kfree node s))"

definition list_insert_front :: "ptr \<Rightarrow> ptr \<Rightarrow> ptr \<Rightarrow> lstore \<Rightarrow> lstore" where
  "list_insert_front t l v s =
     (let s = calloc_node t s;
          s = s\<lparr>n_prev := (n_prev s)(l_head s l := t)\<rparr>;
          s = s\<lparr>n_next := (n_next s)(t := l_head s l)\<rparr>;
          s = s\<lparr>n_value := (n_value s)(t := v)\<rparr>;
          s = (if l_head s l = NULL then s\<lparr>l_tail := (l_tail s)(l := t)\<rparr> else s)
      in s\<lparr>l_head := (l_head s)(l := t), l_size := (l_size s)(l := l_size s l + 1)\<rparr>)"

definition list_insert_back :: "ptr \<Rightarrow> ptr \<Rightarrow> ptr \<Rightarrow> lstore \<Rightarrow> lstore" where
  "list_insert_back t l v s =
     (let s = calloc_node t s;
          s = s\<lparr>n_prev := (n_prev s)(t := l_tail s l)\<rparr>;
          s = (if l_tail s l \<noteq> NULL then s\<lparr>n_next := (n_next s)(l_tail s l := t)\<rparr> else s);
          s = s\<lparr>n_value := (n_value s)(t := v)\<rparr>;
          s = (if l_head s l = NULL then s\<lparr>l_head := (l_head s)(l := t)\<rparr> else s)
      in s\<lparr>l_tail := (l_tail s)(l := t), l_size := (l_size s)(l := l_size s l + 1)\<rparr>)"

definition list_peek_front :: "ptr \<Rightarrow> lstore \<Rightarrow> ptr" where
  "list_peek_front l s = (if l_head s l = NULL then NULL else n_value s (l_head s l))"

definition list_peek_back :: "ptr \<Rightarrow> lstore \<Rightarrow> ptr" where
  "list_peek_back l s = (if l_tail s l = NULL then NULL else n_value s (l_tail s l))"

definition list_pop :: "ptr \<Rightarrow> lstore \<Rightarrow> ptr \<times> lstore" where
  "list_pop l s =
     (if l_head s l = NULL then (NULL, s)
      else let t = l_tail s l;
               s = s\<lparr>l_tail := (l_tail s)(l := n_prev s t)\<rparr>;
               s = (if l_tail s l \<noteq> NULL then s\<lparr>n_next := (n_next s)(l_tail s l := NULL)\<rparr> else s)
           in (t, s\<lparr>l_size := (l_size s)(l := l_size s l - 1)\<rparr>))"

text \<open>The \<open>foreach\<close> macro, as a search for the first node whose value satisfies a test.\<close>

partial_function (option) foreach_node :: "(ptr \<Rightarrow> bool) \<Rightarrow> ptr \<Rightarrow> lstore \<Rightarrow> ptr option" where
  "foreach_node P p s =
     (if p = NULL then Some NULL
      else if P (n_value s p) then Some p
      else foreach_node P (n_next s p) s)"

definition list_contain :: "ptr \<Rightarrow> ptr \<Rightarrow> lstore \<Rightarrow> ptr option" where
  "list_contain l v s = foreach_node (\<lambda>x. x = v) (l_head s l) s"

partial_function (option) index_loop :: "u32 \<Rightarrow> u32 \<Rightarrow> ptr \<Rightarrow> lstore \<Rightarrow> ptr option" where
  "index_loop index cur p s =
     (if p = NULL then Some NULL
      else if index = cur then Some p
      else index_loop index (cur + 1) (n_next s p) s)"

definition list_get_node_by_index :: "ptr \<Rightarrow> u32 \<Rightarrow> lstore \<Rightarrow> ptr option" where
  "list_get_node_by_index l index s =
     (if list_size l s \<le> index then Some NULL else index_loop index 0 (l_head s l) s)"

definition list_remove_by_index :: "ptr \<Rightarrow> u32 \<Rightarrow> lstore \<Rightarrow> (ptr \<times> lstore) option" where
  "list_remove_by_index l index s =
     map_option (\<lambda>node. list_remove_node l node s) (list_get_node_by_index l index s)"

partial_function (option) destroy_loop :: "ptr \<Rightarrow> lstore \<Rightarrow> lstore option" where
  "destroy_loop node s =
     (if node = NULL then Some s else destroy_loop (n_next s node) (list_kfree node s))"

definition list_destroy :: "ptr \<Rightarrow> lstore \<Rightarrow> lstore option" where
  "list_destroy l s = map_option (list_kfree l) (destroy_loop (l_head s l) s)"

definition listnode_destroy :: "ptr \<Rightarrow> lstore \<Rightarrow> lstore" where
  "listnode_destroy node s = list_kfree node s"

definition list_merge :: "ptr \<Rightarrow> ptr \<Rightarrow> lstore \<Rightarrow> lstore" where
  "list_merge target source s =
     (let s = (if l_head s source \<noteq> NULL then s\<lparr>n_prev := (n_prev s)(l_head s source := l_tail s target)\<rparr> else s);
          s = (if l_tail s target \<noteq> NULL then s\<lparr>n_next := (n_next s)(l_tail s target := l_head s source)\<rparr>
               else s\<lparr>l_head := (l_head s)(target := l_head s source)\<rparr>);
          s = (if l_tail s source \<noteq> NULL then s\<lparr>l_tail := (l_tail s)(target := l_tail s source)\<rparr> else s);
          s = s\<lparr>l_size := (l_size s)(target := l_size s target + l_size s source)\<rparr>
      in list_kfree source s)"

section \<open>Well-formed lists\<close>

primrec dseg :: "lstore \<Rightarrow> ptr \<Rightarrow> ptr \<Rightarrow> ptr list \<Rightarrow> ptr \<Rightarrow> bool" where
  "dseg s pv p [] q \<longleftrightarrow> p = q"
| "dseg s pv p (x # xs) q \<longleftrightarrow> p = x \<and> x \<noteq> NULL \<and> n_prev s x = pv \<and> dseg s x (n_next s x) xs q"

definition last_of :: "ptr list \<Rightarrow> ptr" where
  "last_of xs = (if xs = [] then NULL else last xs)"

definition dlist :: "lstore \<Rightarrow> ptr \<Rightarrow> ptr list \<Rightarrow> bool" where
  "dlist s l ns \<longleftrightarrow> dseg s NULL (l_head s l) ns NULL \<and> l_tail s l = last_of ns \<and> distinct ns
     \<and> l_size s l = of_nat (length ns) \<and> length ns < 2 ^ 32"

definition values_of :: "lstore \<Rightarrow> ptr list \<Rightarrow> ptr list" where
  "values_of s ns = map (n_value s) ns"

lemma dseg_append:
  "dseg s pv p (xs @ ys) q \<longleftrightarrow> (\<exists>r. dseg s pv p xs r \<and> dseg s (if xs = [] then pv else last xs) r ys q)"
  by (induction xs arbitrary: pv p) auto

lemma dseg_cong:
  "(\<And>x. x \<in> set xs \<Longrightarrow> n_prev s' x = n_prev s x \<and> n_next s' x = n_next s x) \<Longrightarrow> dseg s' pv p xs q = dseg s pv p xs q"
  by (induction xs arbitrary: pv p) auto

lemma dseg_nonnull: "dseg s pv p xs q \<Longrightarrow> x \<in> set xs \<Longrightarrow> x \<noteq> NULL"
  by (induction xs arbitrary: pv p) auto

lemma dseg_snoc:
  "dseg s pv p (ys @ [y]) q \<longleftrightarrow>
     dseg s pv p ys y \<and> y \<noteq> NULL \<and> n_prev s y = (if ys = [] then pv else last ys) \<and> n_next s y = q"
  by (auto simp: dseg_append)

text \<open>Relinking the two ends of a segment.\<close>

lemma dseg_set_prev:
  "dseg s pv p xs q \<Longrightarrow> distinct xs \<Longrightarrow> xs \<noteq> [] \<Longrightarrow> dseg (s\<lparr>n_prev := (n_prev s)(p := v)\<rparr>) v p xs q"
  by (cases xs) (auto simp: dseg_cong [of _ "s\<lparr>n_prev := (n_prev s)(hd xs := v)\<rparr>" s]
      intro!: dseg_cong [THEN iffD2, of _ _ s])

lemma dseg_set_next:
  assumes "dseg s pv p (ys @ [y]) q" and "distinct (ys @ [y])"
  shows "dseg (s\<lparr>n_next := (n_next s)(y := v)\<rparr>) pv p (ys @ [y]) v"
  using assms unfolding dseg_snoc by (auto intro!: dseg_cong [THEN iffD2, of _ _ s])

lemma dseg_other:
  "y \<notin> set xs \<Longrightarrow> dseg (s\<lparr>n_next := (n_next s)(y := v)\<rparr>) pv p xs q = dseg s pv p xs q"
  "y \<notin> set xs \<Longrightarrow> dseg (s\<lparr>n_prev := (n_prev s)(y := v)\<rparr>) pv p xs q = dseg s pv p xs q"
  by (auto intro!: dseg_cong)

lemma dseg_fields [simp]:
  "dseg (s\<lparr>n_value := a\<rparr>) pv p xs q = dseg s pv p xs q" "dseg (s\<lparr>l_head := b\<rparr>) pv p xs q = dseg s pv p xs q"
  "dseg (s\<lparr>l_tail := c\<rparr>) pv p xs q = dseg s pv p xs q" "dseg (s\<lparr>l_size := d\<rparr>) pv p xs q = dseg s pv p xs q"
  "dseg (s\<lparr>freed := e\<rparr>) pv p xs q = dseg s pv p xs q"
  by (rule dseg_cong; simp)+


lemma dlist_frame:
  assumes "dlist s l ns" and "l_head s' l = l_head s l" "l_tail s' l = l_tail s l" "l_size s' l = l_size s l"
    and "\<And>x. x \<in> set ns \<Longrightarrow> n_prev s' x = n_prev s x \<and> n_next s' x = n_next s x"
  shows "dlist s' l ns"
  using assms dseg_cong [of ns s' s] by (simp add: dlist_def)

lemma dlist_nonnull: "dlist s l ns \<Longrightarrow> x \<in> set ns \<Longrightarrow> x \<noteq> NULL"
  by (auto simp: dlist_def dest: dseg_nonnull)

lemma dlist_head: "dlist s l ns \<Longrightarrow> l_head s l = (if ns = [] then NULL else hd ns)"
  by (cases ns) (auto simp: dlist_def)

lemma dlist_empty:
  assumes "dlist s l ns"
  shows "l_head s l = NULL \<longleftrightarrow> ns = []" and "l_tail s l = NULL \<longleftrightarrow> ns = []"
proof -
  show "l_head s l = NULL \<longleftrightarrow> ns = []"
    using dlist_head [OF assms] dlist_nonnull [OF assms, of "hd ns"] by (cases ns) simp_all
  show "l_tail s l = NULL \<longleftrightarrow> ns = []"
    using assms dlist_nonnull [OF assms, of "last ns"] by (cases "ns = []") (simp_all add: dlist_def last_of_def)
qed

lemma list_create_ok: "dlist (list_create l s) l []"
  by (simp add: list_create_def dlist_def last_of_def)

lemma list_insert_front_ok:
  assumes d: "dlist s l ns" and t: "t \<noteq> NULL" "t \<notin> set ns" and n: "length ns + 1 < 2 ^ 32"
  shows "dlist (list_insert_front t l v s) l (t # ns)"
    and "n_value (list_insert_front t l v s) = (n_value s)(t := v)"
proof -
  let ?s' = "list_insert_front t l v s" and ?h = "l_head s l"
  have seg: "dseg s NULL ?h ns NULL" and tl: "l_tail s l = last_of ns" and dist: "distinct ns"
    using d by (auto simp: dlist_def)
  have np: "n_prev ?s' = (n_prev s)(t := NULL, ?h := t)" "n_next ?s' = (n_next s)(t := ?h)"
    and lf: "l_head ?s' l = t" "l_tail ?s' l = (if ?h = NULL then t else l_tail s l)" "l_size ?s' l = l_size s l + 1"
    by (simp_all add: list_insert_front_def calloc_node_def Let_def)
  show "n_value ?s' = (n_value s)(t := v)" by (simp add: list_insert_front_def calloc_node_def Let_def)
  have ht: "?h \<noteq> t" using t dlist_head [OF d] by (auto split: if_splits)
  have "dseg ?s' t ?h ns NULL"
  proof (cases ns)
    case (Cons x xs)
    then have "dseg s x (n_next s x) xs NULL" "?h = x" "x \<noteq> NULL" using seg by auto
    moreover have "dseg ?s' x (n_next s x) xs NULL = dseg s x (n_next s x) xs NULL"
      using t dist Cons \<open>?h = x\<close> by (intro dseg_cong) (auto simp: np)
    ultimately show ?thesis using t Cons by (auto simp: np)
  qed (use seg in simp)
  then have "dseg ?s' NULL t (t # ns) NULL" using t ht by (simp add: np)
  then show "dlist ?s' l (t # ns)"
    using d t n tl dlist_empty(1) [OF d] by (auto simp: dlist_def lf last_of_def)
qed

text \<open>Insertion leaves every other list alone, apart from the field of address 0.\<close>

lemma list_insert_front_frame:
  assumes "dlist s l ns" and "dlist s k ms" and "k \<noteq> l" and "set ms \<inter> set ns = {}" and "t \<notin> set ms"
  shows "dlist (list_insert_front t l v s) k ms"
proof (rule dlist_frame [OF assms(2)])
  have "l_head s l \<notin> set ms"
    using dlist_head [OF assms(1)] assms(4) dlist_nonnull [OF assms(2)] by (cases ns) auto
  then show "n_prev (list_insert_front t l v s) x = n_prev s x \<and> n_next (list_insert_front t l v s) x = n_next s x"
    if "x \<in> set ms" for x
    using that assms(5) by (auto simp: list_insert_front_def calloc_node_def Let_def)
qed (use assms(3) in \<open>simp_all add: list_insert_front_def calloc_node_def Let_def\<close>)

lemma list_insert_back_ok:
  assumes d: "dlist s l ns" and t: "t \<noteq> NULL" "t \<notin> set ns" and n: "length ns + 1 < 2 ^ 32"
  shows "dlist (list_insert_back t l v s) l (ns @ [t])"
    and "n_value (list_insert_back t l v s) = (n_value s)(t := v)"
proof -
  let ?s' = "list_insert_back t l v s" and ?h = "l_head s l" and ?e = "l_tail s l"
  have seg: "dseg s NULL ?h ns NULL" and tl: "?e = last_of ns" and dist: "distinct ns"
    using d by (auto simp: dlist_def)
  show "n_value ?s' = (n_value s)(t := v)" by (simp add: list_insert_back_def calloc_node_def Let_def)
  have lf: "l_head ?s' l = (if ?h = NULL then t else ?h)" "l_tail ?s' l = t" "l_size ?s' l = l_size s l + 1"
    and np: "n_prev ?s' = (n_prev s)(t := ?e)"
      "n_next ?s' = (if ?e = NULL then (n_next s)(t := NULL) else (n_next s)(t := NULL, ?e := t))"
    by (simp_all add: list_insert_back_def calloc_node_def Let_def)
  have "dseg ?s' NULL (l_head ?s' l) (ns @ [t]) NULL"
  proof (cases ns rule: rev_cases)
    case Nil
    then show ?thesis using t seg tl by (simp add: lf np last_of_def)
  next
    case (snoc ys y)
    have e: "?e = y" "y \<noteq> NULL" "y \<noteq> t" using tl snoc t seg by (auto simp: last_of_def dseg_snoc)
    have h: "?h \<noteq> NULL" using dlist_empty [OF d] snoc by simp
    have y: "dseg s NULL ?h ys y" "n_prev s y = last_of ys" using seg by (auto simp: snoc dseg_snoc last_of_def)
    have "dseg ?s' NULL ?h ys y = dseg s NULL ?h ys y"
      using t snoc dist e by (intro dseg_cong) (auto simp: np)
    then show ?thesis
      using y e t h unfolding snoc dseg_snoc by (simp add: lf np last_of_def)
  qed
  then show "dlist ?s' l (ns @ [t])"
    using d t n by (auto simp: dlist_def lf last_of_def)
qed


section \<open>Removal\<close>

lemma list_remove_front_ok:
  assumes d: "dlist s l (x # ns)" and ne: "ns \<noteq> []"
  shows "\<exists>s'. list_remove_front l s = (n_value s x, s') \<and> dlist s' l ns \<and> n_value s' = n_value s
    \<and> freed s' = freed s @ [x]"
proof -
  obtain y ys where ns: "ns = y # ys" using ne by (cases ns) auto
  have h: "l_head s l = x" "x \<noteq> NULL" "n_next s x = y" "y \<noteq> NULL"
    and seg: "dseg s x y ns NULL" using d ns by (auto simp: dlist_def)
  let ?s1 = "s\<lparr>n_prev := (n_prev s)(y := NULL)\<rparr>"
  let ?s' = "snd (list_remove_front l s)"
  have r: "list_remove_front l s = (n_value s x, ?s')" and f: "freed ?s' = freed s @ [x]" "n_value ?s' = n_value s"
    "l_head ?s' l = y" "l_tail ?s' l = l_tail s l" "l_size ?s' l = l_size s l - 1"
    "n_prev ?s' = n_prev ?s1" "n_next ?s' = n_next s"
    using h by (simp_all add: list_remove_front_def list_kfree_def Let_def)
  have "dseg ?s1 NULL y ns NULL" using dseg_set_prev [OF seg, of NULL] d ns by (simp add: dlist_def)
  then have "dseg ?s' NULL y ns NULL" by (subst dseg_cong [of ns _ ?s1]) (simp_all add: f)
  then have "dlist ?s' l ns" using d ns by (simp add: dlist_def f last_of_def)
  with r f show ?thesis by blast
qed

lemma list_remove_back_ok:
  assumes d: "dlist s l (ns @ [x])" and ne: "ns \<noteq> []"
  shows "\<exists>s'. list_remove_back l s = (n_value s x, s') \<and> dlist s' l ns \<and> n_value s' = n_value s
    \<and> freed s' = freed s @ [x]"
proof -
  obtain ys y where ns: "ns = ys @ [y]" using ne by (cases ns rule: rev_cases) auto
  have seg: "dseg s NULL (l_head s l) ns x" and px: "n_prev s x = y" and tl: "l_tail s l = x"
    using d ns unfolding dlist_def dseg_snoc by (auto simp: last_of_def)
  have h: "l_head s l \<noteq> NULL" using dlist_empty(1) [OF d] by simp
  have y0: "y \<noteq> NULL" using dlist_nonnull [OF d, of y] ns by simp
  let ?s1 = "s\<lparr>n_next := (n_next s)(y := NULL)\<rparr>"
  let ?s' = "snd (list_remove_back l s)"
  have r: "list_remove_back l s = (n_value s x, ?s')" and f: "freed ?s' = freed s @ [x]" "n_value ?s' = n_value s"
    "l_head ?s' l = l_head s l" "l_tail ?s' l = y" "l_size ?s' l = l_size s l - 1"
    "n_prev ?s' = n_prev s" "n_next ?s' = n_next ?s1"
    using h px tl y0 by (simp_all add: list_remove_back_def list_kfree_def Let_def)
  have "dseg ?s1 NULL (l_head s l) ns NULL"
    using dseg_set_next [of s NULL "l_head s l" ys y x NULL] seg d ns by (simp add: dlist_def)
  then have "dseg ?s' NULL (l_head s l) ns NULL" by (subst dseg_cong [of ns _ ?s1]) (simp_all add: f)
  then have "dlist ?s' l ns" using d ns by (simp add: dlist_def f last_of_def)
  with r f show ?thesis by blast
qed

lemma list_remove_middle_ok:
  assumes d: "dlist s l (xs @ x # ys)" and ne: "xs \<noteq> []" "ys \<noteq> []"
  shows "\<exists>s'. list_remove_node l x s = (n_value s x, s') \<and> dlist s' l (xs @ ys) \<and> n_value s' = n_value s
    \<and> freed s' = freed s @ [x]"
proof -
  obtain us u where xs: "xs = us @ [u]" using ne by (cases xs rule: rev_cases) auto
  obtain w ws where ys: "ys = w # ws" using ne by (cases ys) auto
  have dist: "distinct (xs @ x # ys)" using d by (simp add: dlist_def)
  have seg: "dseg s NULL (l_head s l) xs x" "n_prev s x = u" "n_next s x = w" "dseg s x w ys NULL" "w \<noteq> NULL"
    using d by (auto simp: dlist_def dseg_append xs ys)
  have u0: "u \<noteq> NULL" using dlist_nonnull [OF d, of u] xs by simp
  have hx: "l_head s l \<noteq> x" "l_tail s l \<noteq> x"
    using dlist_head [OF d] d dist xs ys by (auto simp: dlist_def last_of_def hd_append split: list.splits)
  let ?s' = "snd (list_remove_node l x s)"
  have wx: "w \<noteq> x" using dist ys by auto
  have r: "list_remove_node l x s = (n_value s x, ?s')" and f: "freed ?s' = freed s @ [x]" "n_value ?s' = n_value s"
    "l_head ?s' l = l_head s l" "l_tail ?s' l = l_tail s l" "l_size ?s' l = l_size s l - 1"
    "n_prev ?s' = (n_prev s)(w := u)" "n_next ?s' = (n_next s)(u := w)"
    using hx seg wx by (simp_all add: list_remove_node_def list_kfree_def Let_def)
  have "dseg (s\<lparr>n_next := (n_next s)(u := w)\<rparr>) NULL (l_head s l) xs w"
    using dseg_set_next [of s NULL "l_head s l" us u x w] seg(1) dist xs by simp
  moreover have "dseg ?s' NULL (l_head s l) xs w = dseg (s\<lparr>n_next := (n_next s)(u := w)\<rparr>) NULL (l_head s l) xs w"
    using dist ys by (intro dseg_cong) (auto simp: f)
  moreover have "dseg (s\<lparr>n_prev := (n_prev s)(w := u)\<rparr>) u w ys NULL"
    using dseg_set_prev [OF seg(4), of u] dist ys by simp
  moreover have "dseg ?s' u w ys NULL = dseg (s\<lparr>n_prev := (n_prev s)(w := u)\<rparr>) u w ys NULL"
    using dist xs by (intro dseg_cong) (auto simp: f)
  ultimately have "dseg ?s' NULL (l_head s l) (xs @ ys) NULL" using xs by (auto simp: dseg_append)
  then have "dlist ?s' l (xs @ ys)" using d dist ne by (simp add: dlist_def f last_of_def)
  with r f show ?thesis by blast
qed

lemma list_remove_node_ok:
  assumes d: "dlist s l ns" and x: "x \<in> set ns" and n: "2 \<le> length ns"
  shows "\<exists>s'. list_remove_node l x s = (n_value s x, s') \<and> dlist s' l (remove1 x ns) \<and> n_value s' = n_value s
    \<and> freed s' = freed s @ [x]"
proof -
  obtain xs ys where ns: "ns = xs @ x # ys" "x \<notin> set xs" using x split_list_first by metis
  have r: "remove1 x ns = xs @ ys" using ns by (simp add: remove1_append)
  have dist: "distinct ns" using d by (simp add: dlist_def)
  consider "xs = []" "ys \<noteq> []" | "ys = []" "xs \<noteq> []" | "xs \<noteq> []" "ys \<noteq> []" using n ns by (cases xs; cases ys) auto
  then show ?thesis
  proof cases
    case 1
    then have "l_head s l = x" using dlist_head [OF d] ns by simp
    then have "list_remove_node l x s = list_remove_front l s" by (simp add: list_remove_node_def)
    then show ?thesis using list_remove_front_ok [of s l x ys] d ns 1 r by simp
  next
    case 2
    then have "l_head s l \<noteq> x" using dlist_head [OF d] ns by (cases xs) auto
    moreover have "l_tail s l = x" using d ns 2 by (simp add: dlist_def last_of_def)
    ultimately have "list_remove_node l x s = list_remove_back l s" by (simp add: list_remove_node_def)
    then show ?thesis using list_remove_back_ok [of s l xs x] d ns 2 r by simp
  next
    case 3
    then show ?thesis using list_remove_middle_ok [of s l xs x ys] d ns r by simp
  qed
qed

section \<open>Traversal\<close>

lemma foreach_node_find:
  "dseg s pv p ns NULL \<Longrightarrow> foreach_node P p s = Some (case find (\<lambda>x. P (n_value s x)) ns of None \<Rightarrow> NULL | Some x \<Rightarrow> x)"
proof (induction ns arbitrary: pv p)
  case Nil
  then show ?case by (simp add: foreach_node.simps [of P 0])
next
  case (Cons x ns)
  then have "p = x" "x \<noteq> NULL" by auto
  then have "foreach_node P p s = (if P (n_value s x) then Some x else foreach_node P (n_next s x) s)"
    by (subst foreach_node.simps) simp
  with Cons.IH [of x "n_next s x"] Cons.prems show ?case by simp
qed

lemma index_loop_nth:
  "dseg s pv p ns NULL \<Longrightarrow> k \<le> unat i \<Longrightarrow> k + length ns < 2 ^ 32 \<Longrightarrow>
     index_loop i (of_nat k) p s = Some (if unat i - k < length ns then ns ! (unat i - k) else NULL)"
proof (induction ns arbitrary: pv p k)
  case Nil
  then show ?case by (simp add: index_loop.simps [of i _ 0])
next
  case (Cons x ns)
  then have px: "p = x" "x \<noteq> NULL" by auto
  have eq: "i = of_nat k \<longleftrightarrow> unat i = k" using Cons.prems(3) by (auto simp: word_unat_eq_iff)
  have "index_loop i (of_nat k) p s = (if unat i = k then Some x else index_loop i (of_nat (Suc k)) (n_next s x) s)"
    using px by (subst index_loop.simps) (simp add: eq add.commute)
  then show ?case
    using Cons.IH [of x "n_next s x" "Suc k"] Cons.prems by (auto simp: nth_Cons' Suc_diff_Suc)
qed

lemma destroy_loop_frees:
  "dseg s pv p ns NULL \<Longrightarrow> destroy_loop p s = Some (s\<lparr>freed := freed s @ ns\<rparr>)"
proof (induction ns arbitrary: pv p s)
  case Nil
  then show ?case by (simp add: destroy_loop.simps [of 0])
next
  case (Cons x ns)
  then have "p = x" "x \<noteq> NULL" by auto
  then have "destroy_loop p s = destroy_loop (n_next s x) (list_kfree x s)" by (subst destroy_loop.simps) simp
  with Cons.IH [of "list_kfree x s" x "n_next s x"] Cons.prems show ?case by (simp add: list_kfree_def)
qed


lemma list_merge_ok:
  assumes t: "dlist s l ns" and m: "dlist s k ms" and kl: "k \<noteq> l" and dj: "set ns \<inter> set ms = {}"
    and n: "length ns + length ms < 2 ^ 32"
  shows "dlist (list_merge l k s) l (ns @ ms)" and "n_value (list_merge l k s) = n_value s"
    and "freed (list_merge l k s) = freed s @ [k]"
proof -
  let ?s' = "list_merge l k s" and ?h = "l_head s l" and ?e = "l_tail s l" and ?g = "l_head s k"
  show "n_value ?s' = n_value s" "freed ?s' = freed s @ [k]"
    by (simp_all add: list_merge_def list_kfree_def Let_def)
  note e = dlist_empty [OF t] dlist_empty [OF m]
  have f: "n_prev ?s' = (if ms = [] then n_prev s else (n_prev s)(?g := ?e))"
    "n_next ?s' = (if ns = [] then n_next s else (n_next s)(?e := ?g))"
    "l_head ?s' l = (if ns = [] then ?g else ?h)" "l_tail ?s' l = (if ms = [] then ?e else l_tail s k)"
    "l_size ?s' l = l_size s l + l_size s k"
    using kl e by (auto simp: list_merge_def list_kfree_def Let_def)
  have seg: "dseg s NULL ?h ns NULL" "dseg s NULL ?g ms NULL" and dist: "distinct ns" "distinct ms"
    using t m by (auto simp: dlist_def)
  have el: "?e = last_of ns" using t by (simp add: dlist_def)
  have gm: "ms \<noteq> [] \<Longrightarrow> ?g \<in> set ms" using dlist_head [OF m] by simp
  have one: "dseg ?s' NULL (l_head ?s' l) ns ?g"
  proof (cases ns rule: rev_cases)
    case (snoc us u)
    have eu: "?e = u" using el snoc by (simp add: last_of_def)
    have "dseg (s\<lparr>n_next := (n_next s)(u := ?g)\<rparr>) NULL ?h ns ?g"
      using dseg_set_next [of s NULL ?h us u NULL ?g] seg(1) dist(1) snoc by simp
    moreover have "dseg ?s' NULL ?h ns ?g = dseg (s\<lparr>n_next := (n_next s)(u := ?g)\<rparr>) NULL ?h ns ?g"
      using gm dj snoc eu by (intro dseg_cong) (auto simp: f)
    ultimately show ?thesis using snoc f(3) by simp
  qed (simp add: f)
  have two: "dseg ?s' (if ns = [] then NULL else last ns) ?g ms NULL"
  proof (cases "ms = []")
    case False
    have en: "?e \<notin> set ms" if "ns \<noteq> []" using that el dj last_in_set [OF that] unfolding last_of_def by (metis disjoint_iff)
    have "dseg (s\<lparr>n_prev := (n_prev s)(?g := ?e)\<rparr>) ?e ?g ms NULL"
      using dseg_set_prev [OF seg(2) dist(2) False, of ?e] .
    moreover have "dseg ?s' ?e ?g ms NULL = dseg (s\<lparr>n_prev := (n_prev s)(?g := ?e)\<rparr>) ?e ?g ms NULL"
      using False en by (intro dseg_cong) (auto simp: f)
    ultimately show ?thesis using el by (simp add: last_of_def)
  qed (use seg(2) in simp)
  from one two have "dseg ?s' NULL (l_head ?s' l) (ns @ ms) NULL" by (auto simp: dseg_append)
  then show "dlist ?s' l (ns @ ms)"
    using t m dj n by (auto simp: dlist_def f last_of_def)
qed

section \<open>Properties\<close>

definition demo_lists :: lstore where
  "demo_lists = list_insert_front 0x300 0x10 7 (list_insert_front 0x200 0x10 8 (list_create 0x10
     \<lparr>n_prev = \<lambda>_. 0, n_next = \<lambda>_. 0, n_value = \<lambda>_. 0, l_head = \<lambda>_. 0, l_tail = \<lambda>_. 0, l_size = \<lambda>_. 0, freed = []\<rparr>))"

lemma demo_lists_ok: "dlist demo_lists 0x10 [0x300, 0x200]" "n_value demo_lists 0x300 = 7" "n_value demo_lists 0x200 = 8"
proof -
  show "dlist demo_lists 0x10 [0x300, 0x200]"
    unfolding demo_lists_def by (intro list_insert_front_ok(1) list_create_ok) simp_all
qed (simp_all add: demo_lists_def list_insert_front_def calloc_node_def Let_def)



text \<open>Lookups on a well-formed list return: by index the node at that position, and a null
  pointer from the length on; by value the first node holding it, and a null pointer when no node
  does.\<close>

theorem list_lookups:
  assumes "dlist s l ns" and "l \<noteq> NULL"
  shows "list_get_node_by_index l i s = Some (if unat i < length ns then ns ! unat i else NULL)
    \<and> list_contain l v s = Some (case find (\<lambda>x. n_value s x = v) ns of None \<Rightarrow> NULL | Some x \<Rightarrow> x)"
proof -
  have seg: "dseg s NULL (l_head s l) ns NULL" and n: "l_size s l = of_nat (length ns)" "length ns < 2 ^ 32"
    using assms(1) by (auto simp: dlist_def)
  have "list_size l s \<le> i \<longleftrightarrow> length ns \<le> unat i" using n assms(2) by (simp add: list_size_def word_le_nat_alt)
  then show ?thesis
    using index_loop_nth [OF seg, of 0 i] foreach_node_find [OF seg, of "\<lambda>x. x = v"] n
    by (simp add: list_get_node_by_index_def list_contain_def)
qed

theorem list_lookups_witness:
  "list_get_node_by_index 0x10 1 demo_lists = Some 0x200 \<and> list_contain 0x10 8 demo_lists = Some 0x200"
  using list_lookups [OF demo_lists_ok(1), of 1 8] demo_lists_ok(2,3) by simp

text \<open>Removing the only node leaves the list's tail pointing to the freed node. The next
  insertion at the back then links the new node behind the freed one, so the list is not well
  formed; only an insertion at the front repairs it.\<close>

theorem list_remove_only_dangles:
  assumes "dlist s l [x]" and "t \<noteq> NULL" and "t \<noteq> x"
  shows "\<exists>s'. list_remove_node l x s = (n_value s x, s') \<and> freed s' = freed s @ [x] \<and> l_head s' l = NULL
    \<and> l_size s' l = 0 \<and> l_tail s' l = x \<and> n_prev (list_insert_back t l v s') t = x
    \<and> \<not> dlist (list_insert_back t l v s') l [t] \<and> dlist (list_insert_front t l v s') l [t]"
proof -
  have h: "l_head s l = x" "x \<noteq> NULL" "n_next s x = NULL" "l_tail s l = x" "l_size s l = 1"
    using assms(1) by (auto simp: dlist_def last_of_def)
  let ?s' = "snd (list_remove_node l x s)"
  have r: "list_remove_node l x s = (n_value s x, ?s')" and f: "freed ?s' = freed s @ [x]" "l_head ?s' l = NULL"
      "l_size ?s' l = 0" "l_tail ?s' l = x"
    using h by (simp_all add: list_remove_node_def list_remove_front_def list_kfree_def Let_def)
  have b: "n_prev (list_insert_back t l v ?s') t = x"
    using f h(2) by (simp add: list_insert_back_def calloc_node_def Let_def)
  have "dlist (list_insert_front t l v ?s') l [t]"
    using f assms(2) by (simp add: dlist_def list_insert_front_def calloc_node_def Let_def last_of_def)
  moreover have "\<not> dlist (list_insert_back t l v ?s') l [t]" using b h(2) by (simp add: dlist_def)
  ultimately show ?thesis using r f b by blast
qed

theorem list_remove_only_dangles_witness:
  "\<exists>s s'. dlist s 0x10 [0x200] \<and> list_remove_node 0x10 0x200 s = (n_value s 0x200, s') \<and> l_tail s' 0x10 = 0x200"
proof -
  obtain s where s: "dlist s 0x10 [0x200]"
    using list_remove_node_ok [OF demo_lists_ok(1), of "0x300"] by auto
  then show ?thesis using list_remove_only_dangles [OF s, of "0x400" 0] by (rule_tac exI [of _ s]) auto
qed

text \<open>Merging two disjoint well-formed lists concatenates them, keeps all values and frees the
  source list object only.\<close>

theorem list_merge_concatenates:
  assumes "dlist s l ns" and "dlist s k ms" and "k \<noteq> l" and "set ns \<inter> set ms = {}" and "length ns + length ms < 2 ^ 32"
  shows "dlist (list_merge l k s) l (ns @ ms)
    \<and> values_of (list_merge l k s) (ns @ ms) = values_of s ns @ values_of s ms
    \<and> freed (list_merge l k s) = freed s @ [k]"
  using list_merge_ok [OF assms] by (simp add: values_of_def)

theorem list_merge_concatenates_witness:
  "dlist (list_merge 0x10 0x20 (list_insert_back 0x500 0x20 5 (list_create 0x20 demo_lists))) 0x10 [0x300, 0x200, 0x500]"
proof -
  let ?s = "list_insert_back 0x500 0x20 5 (list_create 0x20 demo_lists)"
  have k: "dlist ?s 0x20 [0x500]" using list_insert_back_ok(1) [OF list_create_ok, of "0x500" "0x20" 5] by simp
  have "dlist ?s 0x10 [0x300, 0x200]"
    by (rule dlist_frame [OF demo_lists_ok(1)])
      (auto simp: list_insert_back_def list_create_def calloc_node_def Let_def)
  from list_merge_concatenates [OF this k] show ?thesis by simp
qed

end
