(* ===== verification/Ktree.thy ===== *)
theory Ktree
  imports Dlists "HOL-Library.Monad_Syntax"
begin

text \<open>
  The generic tree, kernel/utils/dsa/tree.c, on top of the lists. A node's children are a list
  whose values are the child nodes. Recursive functions carry a depth bound \<open>n\<close>; \<open>None\<close> is a
  recursion deeper than the bound or a list that does not end. Addresses of new objects are
  arguments, as in theory \<open>Dlists\<close>.
\<close>

record tstore =
  lists :: lstore
  t_value :: "ptr \<Rightarrow> ptr"
  t_children :: "ptr \<Rightarrow> ptr"
  t_parent :: "ptr \<Rightarrow> ptr"
  tr_nodes :: "ptr \<Rightarrow> u32"
  tr_root :: "ptr \<Rightarrow> ptr"

section \<open>Operations\<close>

definition t_free :: "ptr \<Rightarrow> tstore \<Rightarrow> tstore" where
  "t_free p s = s\<lparr>lists := list_kfree p (lists s)\<rparr>"

partial_function (option) list_walk :: "ptr \<Rightarrow> lstore \<Rightarrow> ptr list option" where
  "list_walk p s = (if p = NULL then Some []
     else Option.bind (list_walk (n_next s p) s) (\<lambda>vs. Some (n_value s p # vs)))"

definition children_of :: "ptr \<Rightarrow> tstore \<Rightarrow> ptr list option" where
  "children_of node s = list_walk (l_head (lists s) (t_children s node)) (lists s)"

definition tree_create :: "ptr \<Rightarrow> tstore \<Rightarrow> tstore" where
  "tree_create t s = s\<lparr>tr_nodes := (tr_nodes s)(t := 0), tr_root := (tr_root s)(t := NULL)\<rparr>"

definition tree_node_create :: "ptr \<Rightarrow> ptr \<Rightarrow> ptr \<Rightarrow> tstore \<Rightarrow> tstore" where
  "tree_node_create out lst v s =
     s\<lparr>t_value := (t_value s)(out := v), lists := list_create lst (lists s),
       t_children := (t_children s)(out := lst), t_parent := (t_parent s)(out := NULL)\<rparr>"

definition tree_set_root :: "ptr \<Rightarrow> ptr \<Rightarrow> ptr \<Rightarrow> ptr \<Rightarrow> tstore \<Rightarrow> tstore" where
  "tree_set_root out lst tree v s =
     (let s = tree_node_create out lst v s
      in s\<lparr>tr_root := (tr_root s)(tree := out), tr_nodes := (tr_nodes s)(tree := 1)\<rparr>)"

text \<open>Running a state change on each child in turn.\<close>

primrec each_child :: "(ptr \<Rightarrow> tstore \<Rightarrow> tstore option) \<Rightarrow> ptr list \<Rightarrow> tstore \<Rightarrow> tstore option" where
  "each_child f [] s = Some s"
| "each_child f (c # cs) s = Option.bind (f c s) (each_child f cs)"

primrec tree_node_destroy :: "nat \<Rightarrow> ptr \<Rightarrow> tstore \<Rightarrow> tstore option" where
  "tree_node_destroy 0 = (\<lambda>node s. None)"
| "tree_node_destroy (Suc n) = (\<lambda>node s.
     Option.bind (children_of node s) (\<lambda>cs.
     Option.bind (each_child (tree_node_destroy n) cs s) (\<lambda>s. Some (t_free (t_value s node) s))))"

definition tree_destroy :: "nat \<Rightarrow> ptr \<Rightarrow> tstore \<Rightarrow> tstore option" where
  "tree_destroy n tree s = (if tr_root s tree \<noteq> NULL then tree_node_destroy n (tr_root s tree) s else Some s)"

primrec tree_node_free :: "nat \<Rightarrow> ptr \<Rightarrow> tstore \<Rightarrow> tstore option" where
  "tree_node_free 0 = (\<lambda>node s. None)"
| "tree_node_free (Suc n) = (\<lambda>node s.
     if node = NULL then Some s
     else Option.bind (children_of node s) (\<lambda>cs.
          Option.bind (each_child (tree_node_free n) cs s) (\<lambda>s. Some (t_free node s))))"

definition tree_free :: "nat \<Rightarrow> ptr \<Rightarrow> tstore \<Rightarrow> tstore option" where
  "tree_free n tree s = tree_node_free n (tr_root s tree) s"

definition tree_node_insert_child_node :: "ptr \<Rightarrow> ptr \<Rightarrow> ptr \<Rightarrow> ptr \<Rightarrow> tstore \<Rightarrow> tstore" where
  "tree_node_insert_child_node cell tree parent node s =
     s\<lparr>lists := list_insert_front cell (t_children s parent) node (lists s),
       t_parent := (t_parent s)(node := parent), tr_nodes := (tr_nodes s)(tree := tr_nodes s tree + 1)\<rparr>"

definition tree_node_insert_child :: "ptr \<Rightarrow> ptr \<Rightarrow> ptr \<Rightarrow> ptr \<Rightarrow> ptr \<Rightarrow> ptr \<Rightarrow> tstore \<Rightarrow> tstore" where
  "tree_node_insert_child out lst cell tree parent v s =
     tree_node_insert_child_node cell tree parent out (tree_node_create out lst v s)"

text \<open>First child for which a recursive call gives a non-null answer.\<close>

primrec first_found :: "(ptr \<Rightarrow> ptr option) \<Rightarrow> ptr list \<Rightarrow> ptr option" where
  "first_found f [] = Some NULL"
| "first_found f (c # cs) = Option.bind (f c) (\<lambda>r. if r \<noteq> NULL then Some r else first_found f cs)"

primrec tree_node_find_parent :: "nat \<Rightarrow> ptr \<Rightarrow> ptr \<Rightarrow> tstore \<Rightarrow> ptr option" where
  "tree_node_find_parent 0 = (\<lambda>haystack needle s. None)"
| "tree_node_find_parent (Suc n) = (\<lambda>haystack needle s.
     Option.bind (children_of haystack s) (\<lambda>cs.
       first_found (\<lambda>c. if c = needle then Some haystack else tree_node_find_parent n c needle s) cs))"

definition tree_find_parent :: "nat \<Rightarrow> ptr \<Rightarrow> ptr \<Rightarrow> tstore \<Rightarrow> ptr option" where
  "tree_find_parent n tree node s =
     (if tr_root s tree = NULL then Some NULL else tree_node_find_parent n (tr_root s tree) node s)"

primrec sum_children :: "(ptr \<Rightarrow> u32 option) \<Rightarrow> ptr list \<Rightarrow> u32 \<Rightarrow> u32 option" where
  "sum_children f [] out = Some out"
| "sum_children f (c # cs) out = Option.bind (f c) (\<lambda>k. sum_children f cs (out + k))"

primrec tree_count_children :: "nat \<Rightarrow> ptr \<Rightarrow> tstore \<Rightarrow> u32 option" where
  "tree_count_children 0 = (\<lambda>node s. None)"
| "tree_count_children (Suc n) = (\<lambda>node s.
     if node = NULL then Some 0
     else if t_children s node = NULL then Some 0
     else Option.bind (children_of node s) (\<lambda>cs.
            sum_children (\<lambda>c. tree_count_children n c s) cs (l_size (lists s) (t_children s node))))"

text \<open>The lookup used by every removal searches the children for the node's value, not the node.\<close>

definition unlink_child :: "ptr \<Rightarrow> ptr \<Rightarrow> tstore \<Rightarrow> tstore option" where
  "unlink_child parent node s =
     Option.bind (list_contain (t_children s parent) (t_value s node) (lists s)) (\<lambda>cell.
       Some (s\<lparr>lists := snd (list_remove_node (t_children s parent) cell (lists s))\<rparr>))"

definition tree_node_parent_remove :: "nat \<Rightarrow> ptr \<Rightarrow> ptr \<Rightarrow> ptr \<Rightarrow> tstore \<Rightarrow> tstore option" where
  "tree_node_parent_remove n tree parent node s =
     Option.bind (tree_count_children n node s) (\<lambda>k.
       let s = s\<lparr>tr_nodes := (tr_nodes s)(tree := tr_nodes s tree - (k + 1))\<rparr>
       in Option.bind (unlink_child parent node s) (tree_node_free n node))"

definition tree_node_remove :: "nat \<Rightarrow> ptr \<Rightarrow> ptr \<Rightarrow> tstore \<Rightarrow> tstore option" where
  "tree_node_remove n tree node s =
     (let parent = t_parent s node
      in Option.bind
           (if parent = NULL \<and> node = tr_root s tree
            then tree_node_free n node (s\<lparr>tr_nodes := (tr_nodes s)(tree := 0), tr_root := (tr_root s)(tree := NULL)\<rparr>)
            else Some s)
           (tree_node_parent_remove n tree parent node))"

text \<open>Removal of one node: its children are handed to \<open>heir\<close>, the parent or the root.\<close>

definition remove_into :: "ptr \<Rightarrow> ptr \<Rightarrow> ptr \<Rightarrow> ptr \<Rightarrow> tstore \<Rightarrow> tstore option" where
  "remove_into heir tree parent node s =
     Option.bind (unlink_child parent node (s\<lparr>tr_nodes := (tr_nodes s)(tree := tr_nodes s tree - 1)\<rparr>)) (\<lambda>s.
     Option.bind (children_of node s) (\<lambda>cs.
       let s = s\<lparr>t_parent := fold (\<lambda>c f. f(c := heir)) cs (t_parent s)\<rparr>;
           s = s\<lparr>lists := list_merge (t_children s heir) (t_children s node) (lists s)\<rparr>
       in Some (t_free node s)))"

definition tree_remove :: "ptr \<Rightarrow> ptr \<Rightarrow> tstore \<Rightarrow> tstore option" where
  "tree_remove tree node s =
     (let parent = t_parent s node in if parent = NULL then Some s else remove_into parent tree parent node s)"

definition tree_remove_reparent_root :: "ptr \<Rightarrow> ptr \<Rightarrow> tstore \<Rightarrow> tstore option" where
  "tree_remove_reparent_root tree node s =
     (let parent = t_parent s node in if parent = NULL then Some s else remove_into (tr_root s tree) tree parent node s)"

definition tree_break_off :: "ptr \<Rightarrow> ptr \<Rightarrow> tstore \<Rightarrow> tstore option" where
  "tree_break_off tree node s =
     (let parent = t_parent s node in if parent = NULL then Some s else unlink_child parent node s)"

primrec tree_node_find :: "nat \<Rightarrow> (ptr \<Rightarrow> ptr \<Rightarrow> bool) \<Rightarrow> ptr \<Rightarrow> ptr \<Rightarrow> tstore \<Rightarrow> ptr option" where
  "tree_node_find 0 = (\<lambda>comparator node search s. None)"
| "tree_node_find (Suc n) = (\<lambda>comparator node search s.
     if comparator (t_value s node) search then Some node
     else Option.bind (children_of node s) (first_found (\<lambda>c. tree_node_find n comparator c search s)))"

definition tree_find :: "nat \<Rightarrow> (ptr \<Rightarrow> ptr \<Rightarrow> bool) \<Rightarrow> ptr \<Rightarrow> ptr \<Rightarrow> tstore \<Rightarrow> ptr option" where
  "tree_find n comparator tree v s = tree_node_find n comparator (tr_root s tree) v s"

section \<open>Children\<close>

lemma list_walk_values: "dseg s pv p ns NULL \<Longrightarrow> list_walk p s = Some (values_of s ns)"
proof (induction ns arbitrary: pv p)
  case Nil
  then show ?case by (simp add: list_walk.simps [of 0] values_of_def)
next
  case (Cons x ns)
  then have "p = x" "x \<noteq> NULL" by auto
  then have "list_walk p s = Option.bind (list_walk (n_next s x) s) (\<lambda>vs. Some (n_value s x # vs))"
    by (subst list_walk.simps) simp
  with Cons.IH [of x "n_next s x"] Cons.prems show ?case by (simp add: values_of_def)
qed

lemma children_of_values: "dlist (lists s) (t_children s node) ns \<Longrightarrow> children_of node s = Some (values_of (lists s) ns)"
  using list_walk_values by (auto simp: children_of_def dlist_def)

section \<open>Properties\<close>

text \<open>Inserting a child puts the node in front of its parent's children, sets its parent and
  counts it.\<close>

theorem tree_insert_child_prepends:
  assumes "dlist (lists s) (t_children s parent) ns" and "cell \<noteq> NULL" and "cell \<notin> set ns" and "length ns + 1 < 2 ^ 32"
  shows "children_of parent (tree_node_insert_child_node cell tree parent node s) =
      Some (node # values_of (lists s) ns)
    \<and> t_parent (tree_node_insert_child_node cell tree parent node s) node = parent
    \<and> tr_nodes (tree_node_insert_child_node cell tree parent node s) tree = tr_nodes s tree + 1"
proof -
  let ?s' = "tree_node_insert_child_node cell tree parent node s"
  note i = list_insert_front_ok [OF assms]
  have "dlist (lists ?s') (t_children ?s' parent) (cell # ns)"
    using i(1) [of node] by (simp add: tree_node_insert_child_node_def)
  from children_of_values [OF this] show ?thesis
    using i(2) [of node] assms(3) by (auto simp: tree_node_insert_child_node_def values_of_def)
qed

definition demo_tree :: tstore where
  "demo_tree = \<lparr>lists = demo_lists, t_value = (\<lambda>_. 0x99), t_children = (\<lambda>_. 0x10), t_parent = (\<lambda>_. 0x50),
     tr_nodes = (\<lambda>_. 3), tr_root = (\<lambda>_. 0x50)\<rparr>"

theorem tree_insert_child_prepends_witness:
  "children_of 0x50 (tree_node_insert_child_node 0x400 0x60 0x50 9 demo_tree) = Some [9, 7, 8]"
  using tree_insert_child_prepends [of demo_tree "0x50" "[0x300, 0x200]" "0x400" "0x60" 9] demo_lists_ok
  by (simp add: demo_tree_def values_of_def)

text \<open>Breaking a node off its parent does not find it. The children's list holds the nodes,
  but the search compares them with the node's value; when that value is not itself a child, a
  null cell is unlinked: the children and their order stay as they were, only the recorded size
  drops, and a null pointer is freed.\<close>

theorem tree_break_off_misses:
  assumes "dlist (lists s) (t_children s (t_parent s node)) ns" and "t_parent s node \<noteq> NULL" and "ns \<noteq> []"
    and "t_value s node \<notin> set (values_of (lists s) ns)"
    and "n_next (lists s) NULL = NULL" and "n_prev (lists s) NULL \<in> insert (last ns) (- set ns)"
  shows "\<exists>s'. tree_break_off tree node s = Some s'
    \<and> children_of (t_parent s node) s' = Some (values_of (lists s) ns)
    \<and> l_size (lists s') (t_children s (t_parent s node)) = of_nat (length ns) - 1
    \<and> freed (lists s') = freed (lists s) @ [NULL]"
proof -
  let ?L = "lists s" and ?l = "t_children s (t_parent s node)"
  have seg: "dseg ?L NULL (l_head ?L ?l) ns NULL" using assms(1) by (simp add: dlist_def)
  have "find (\<lambda>x. n_value ?L x = t_value s node) ns = None"
    using assms(4) unfolding find_None_iff values_of_def set_map by (metis imageI)
  then have c: "list_contain ?l (t_value s node) ?L = Some NULL"
    using foreach_node_find [OF seg, of "\<lambda>x. x = t_value s node"] by (simp add: list_contain_def)
  let ?L' = "snd (list_remove_node ?l NULL ?L)"
  have f: "l_head ?L' ?l = l_head ?L ?l" "l_size ?L' ?l = l_size ?L ?l - 1" "freed ?L' = freed ?L @ [NULL]"
      "n_value ?L' = n_value ?L" "n_next ?L' = (n_next ?L)(n_prev ?L' NULL := n_next ?L NULL)"
      "n_prev ?L' = (n_prev ?L)(n_next ?L NULL := n_prev ?L NULL)"
    using dlist_empty [OF assms(1)] assms(3) by (simp_all add: list_remove_node_def list_kfree_def Let_def)
  obtain us u where "ns = us @ [u]" using assms(3) by (cases ns rule: rev_cases) auto
  then have "n_next ?L (last ns) = NULL" using seg by (auto simp: dseg_append)
  then have n: "n_next ?L' x = n_next ?L x" if "x \<in> set ns" for x
    using that assms(5,6) by (auto simp: f(5,6))
  have p: "n_prev ?L' x = n_prev ?L x" for x by (simp add: f(6) assms(5))
  have "dseg ?L' NULL (l_head ?L ?l) ns NULL"
    using seg n p by (subst dseg_cong [of ns _ ?L]) auto
  then have "list_walk (l_head ?L' ?l) ?L' = Some (values_of ?L ns)"
    using list_walk_values f(1,4) by (metis values_of_def)
  then show ?thesis
    using c f assms(1,2) by (simp add: tree_break_off_def unlink_child_def children_of_def dlist_def)
qed

theorem tree_break_off_misses_witness:
  "\<exists>s'. tree_break_off 0x60 7 demo_tree = Some s' \<and> children_of 0x50 s' = Some [7, 8] \<and> l_size (lists s') 0x10 = 1"
proof -
  have z: "n_next demo_lists 0 = 0" "n_prev demo_lists 0 = 0x200"
    by (simp_all add: demo_lists_def list_insert_front_def list_create_def calloc_node_def Let_def)
  have "values_of demo_lists [0x300, 0x200] = [7, 8]" using demo_lists_ok by (simp add: values_of_def)
  then show ?thesis
    using tree_break_off_misses [of demo_tree 7 "[0x300, 0x200]" "0x60"] demo_lists_ok(1) z
    by (auto simp: demo_tree_def)
qed

end
