(* ===== verification/Kio.thy ===== *)
theory Kio
  imports Kprelude
begin

text \<open>
  Port input and output, include/drivers/io_port.h. A machine's history is the list of port
  accesses so far; what a read returns is decided by a parameter \<open>hw\<close>, the hardware, from the
  history and the port. Drivers take \<open>hw\<close> and the history and return the longer history.
\<close>

datatype io_op = Wr8 u16 u8 | Rd8 u16 u8 | Wr16 u16 u16 | Rd16 u16 u16 | Wr32 u16 u32 | Rd32 u16 u32

type_synonym io = "io_op list"
type_synonym hardware = "io_op list \<Rightarrow> u16 \<Rightarrow> u32"

definition outb :: "u16 \<Rightarrow> u8 \<Rightarrow> io \<Rightarrow> io" where
  "outb port data h = h @ [Wr8 port data]"

definition inb :: "hardware \<Rightarrow> u16 \<Rightarrow> io \<Rightarrow> u8 \<times> io" where
  "inb hw port h = (let v = ucast (hw h port) in (v, h @ [Rd8 port v]))"

definition outw :: "u16 \<Rightarrow> u16 \<Rightarrow> io \<Rightarrow> io" where
  "outw port data h = h @ [Wr16 port data]"

definition inw :: "hardware \<Rightarrow> u16 \<Rightarrow> io \<Rightarrow> u16 \<times> io" where
  "inw hw port h = (let v = ucast (hw h port) in (v, h @ [Rd16 port v]))"

definition outl :: "u16 \<Rightarrow> u32 \<Rightarrow> io \<Rightarrow> io" where
  "outl port data h = h @ [Wr32 port data]"

definition inl :: "hardware \<Rightarrow> u16 \<Rightarrow> io \<Rightarrow> u32 \<times> io" where
  "inl hw port h = (let v = hw h port in (v, h @ [Rd32 port v]))"

text \<open>The bytes sent to a port, in order.\<close>

fun sent :: "u16 \<Rightarrow> io \<Rightarrow> u8 list" where
  "sent port [] = []"
| "sent port (Wr8 p v # h) = (if p = port then v # sent port h else sent port h)"
| "sent port (_ # h) = sent port h"

lemma sent_append [simp]: "sent port (h @ h') = sent port h @ sent port h'"
  by (induction port h rule: sent.induct) auto

lemma sent_outb [simp]: "sent port (outb p v h) = sent port h @ (if p = port then [v] else [])"
  by (simp add: outb_def)

lemma sent_inb [simp]: "sent port (snd (inb hw p h)) = sent port h"
  by (simp add: inb_def Let_def)

end
