(* ===== verification/Serial.thy ===== *)
theory Serial
  imports Kio Isr "HOL-Library.Monad_Syntax"
begin

unbundle bit_operations_syntax

text \<open>
  The serial driver, kernel/drivers/serial.c: port set-up, polled output, and the receive queue
  that the interrupt handler fills and \<open>serial_getc\<close> empties. The queue is a ring of 1024 bytes
  with two C ints, both -1 when it is empty. The locale \<open>byte_queue\<close> is the contract of a
  bounded queue; the ring satisfies it in states that \<open>not_full\<close> describes. Log output is left out.
\<close>

section \<open>State and operations\<close>

abbreviation READ_QUEUE_SIZE :: int where "READ_QUEUE_SIZE \<equiv> 1024"
abbreviation PORT_COM1 :: u16 where "PORT_COM1 \<equiv> 0x3f8"

record serial =
  read_queue :: "u8 list"
  queue_front :: int
  queue_rear :: int

definition serial_start :: serial where
  "serial_start = \<lparr>read_queue = replicate 1024 0, queue_front = - 1, queue_rear = - 1\<rparr>"

definition port_enable :: "hardware \<Rightarrow> u16 \<Rightarrow> io \<Rightarrow> bool \<times> io" where
  "port_enable hw port h =
     (let h = outb (port + 3) 0x80 h; h = outb (port + 0) 0x03 h; h = outb (port + 1) 0x00 h;
          h = outb (port + 3) 0x03 h; h = outb (port + 2) 0xc7 h; h = outb (port + 4) 0x0b h;
          h = outb (port + 4) 0x1e h; h = outb (port + 0) 0xae h;
          (v, h) = inb hw (port + 0) h
      in if v \<noteq> 0xae then (False, h) else (True, outb (port + 4) 0x0b h))"

text \<open>Both readiness tests look at COM1 whatever port they are given.\<close>

definition port_read_ready :: "hardware \<Rightarrow> u16 \<Rightarrow> io \<Rightarrow> bool \<times> io" where
  "port_read_ready hw port h = (let (v, h) = inb hw (PORT_COM1 + 5) h in (v AND 1 \<noteq> 0, h))"

definition port_write_ready :: "hardware \<Rightarrow> u16 \<Rightarrow> io \<Rightarrow> bool \<times> io" where
  "port_write_ready hw port h = (let (v, h) = inb hw (PORT_COM1 + 5) h in (v AND 0x20 \<noteq> 0, h))"

partial_function (option) wait_write :: "hardware \<Rightarrow> io \<Rightarrow> io option" where
  "wait_write hw h = (let (ok, h) = port_write_ready hw PORT_COM1 h in if ok then Some h else wait_write hw h)"

partial_function (option) wait_read :: "hardware \<Rightarrow> io \<Rightarrow> io option" where
  "wait_read hw h = (let (ok, h) = port_read_ready hw PORT_COM1 h in if ok then Some h else wait_read hw h)"

definition serial_getc :: "serial \<Rightarrow> u8 \<times> serial" where
  "serial_getc s =
     (if queue_front s = - 1 then (0, s)
      else let c = read_queue s ! nat (queue_front s)
           in (c, if queue_front s = queue_rear s then s\<lparr>queue_front := - 1, queue_rear := - 1\<rparr>
                  else s\<lparr>queue_front := (queue_front s + 1) mod READ_QUEUE_SIZE\<rparr>))"

definition serial_putc :: "hardware \<Rightarrow> u8 \<Rightarrow> io \<Rightarrow> io option" where
  "serial_putc hw c h = map_option (outb PORT_COM1 c) (wait_write hw h)"

primrec serial_puts :: "hardware \<Rightarrow> u8 list \<Rightarrow> io \<Rightarrow> io option" where
  "serial_puts hw [] h = Some h"
| "serial_puts hw (c # cs) h = Option.bind (serial_putc hw c h) (serial_puts hw cs)"

text \<open>The queue part of the interrupt handler: the test for a full queue, and the insertion.\<close>

definition queue_full_test :: "serial \<Rightarrow> bool" where
  "queue_full_test s \<longleftrightarrow> queue_front s = 0 \<and> queue_rear s = READ_QUEUE_SIZE - 1"

definition queue_insert :: "u8 \<Rightarrow> serial \<Rightarrow> serial" where
  "queue_insert d s =
     (let s = (if queue_front s = - 1 then s\<lparr>queue_front := 0\<rparr> else s);
          s = s\<lparr>queue_rear := (queue_rear s + 1) mod READ_QUEUE_SIZE\<rparr>
      in s\<lparr>read_queue := (read_queue s)[nat (queue_rear s) := d]\<rparr>)"

definition serial_irq_handler :: "hardware \<Rightarrow> serial \<Rightarrow> io \<Rightarrow> (serial \<times> io) option" where
  "serial_irq_handler hw s h =
     (let (isr, h) = inb hw (PORT_COM1 + 2) h
      in if isr AND 4 \<noteq> 0 then
           Option.bind (wait_read hw h) (\<lambda>h.
             if queue_full_test s then Some (s, h)
             else let (d, h) = inb hw PORT_COM1 h in Some (queue_insert d s, h))
         else Some (s, h))"

definition serial_init :: "hardware \<Rightarrow> handler_table \<Rightarrow> io \<Rightarrow> handler_table \<times> io" where
  "serial_init hw t h =
     (let (ok, h) = port_enable hw PORT_COM1 h
      in if \<not> ok then (t, h)
         else (int_install_handler 36 Serial_irq_handler t, outb (PORT_COM1 + 1) 0x01 h))"

section \<open>The ring as a list\<close>

definition ring_ok :: "serial \<Rightarrow> bool" where
  "ring_ok s \<longleftrightarrow> length (read_queue s) = 1024
     \<and> (queue_front s = - 1 \<and> queue_rear s = - 1
        \<or> 0 \<le> queue_front s \<and> queue_front s < 1024 \<and> 0 \<le> queue_rear s \<and> queue_rear s < 1024)"

definition pending_count :: "serial \<Rightarrow> nat" where
  "pending_count s = (if queue_front s = - 1 then 0 else nat ((queue_rear s - queue_front s) mod 1024) + 1)"

definition pending :: "serial \<Rightarrow> u8 list" where
  "pending s = map (\<lambda>i. read_queue s ! nat ((queue_front s + int i) mod 1024)) [0..<pending_count s]"

lemma length_pending [simp]: "length (pending s) = pending_count s"
  by (simp add: pending_def)

lemma serial_start_ok: "ring_ok serial_start" "pending serial_start = []"
  by (simp_all add: ring_ok_def serial_start_def pending_def pending_count_def)

lemma pending_nth: "i < pending_count s \<Longrightarrow> pending s ! i = read_queue s ! nat ((queue_front s + int i) mod 1024)"
  by (simp add: pending_def)

lemma pending_nil_iff: "ring_ok s \<Longrightarrow> pending s = [] \<longleftrightarrow> queue_front s = - 1"
  by (auto simp: pending_def pending_count_def)

lemma count_le: "pending_count s \<le> 1024"
  by (simp add: pending_count_def nat_less_iff Suc_le_eq flip: zless_nat_eq_int_zless)

lemma front_next:
  fixes f r :: int
  assumes "(r - f) mod 1024 \<noteq> 0"
  shows "(r - (f + 1) mod 1024) mod 1024 = (r - f) mod 1024 - 1"
proof -
  have "(r - (f + 1) mod 1024) mod 1024 = (r - f - 1) mod 1024" by (simp add: mod_diff_right_eq algebra_simps)
  also have "\<dots> = ((r - f) mod 1024 - 1) mod 1024" by (simp add: mod_diff_left_eq)
  also have "\<dots> = (r - f) mod 1024 - 1"
  proof (rule mod_pos_pos_trivial)
    show "0 \<le> (r - f) mod 1024 - 1" using assms pos_mod_sign [of 1024 "r - f"] by linarith
    show "(r - f) mod 1024 - 1 < 1024" using pos_mod_bound [of 1024 "r - f"] by linarith
  qed
  finally show ?thesis .
qed

lemma getc_pending:
  assumes ok: "ring_ok s" and p: "pending s = c # cs"
  shows "\<exists>s'. serial_getc s = (c, s') \<and> ring_ok s' \<and> pending s' = cs"
proof -
  let ?f = "queue_front s" and ?r = "queue_rear s"
  have f: "?f \<noteq> - 1" "0 \<le> ?f" "?f < 1024" "0 \<le> ?r" "?r < 1024" "length (read_queue s) = 1024"
    using ok p pending_nil_iff [OF ok] by (auto simp: ring_ok_def)
  have n: "pending_count s = nat ((?r - ?f) mod 1024) + 1" using f(1) by (simp add: pending_count_def)
  have c: "c = read_queue s ! nat ?f" using pending_nth [of 0 s] p n f by simp
  show ?thesis
  proof (cases "?f = ?r")
    case True
    then have "cs = []" using n p length_pending [of s] by simp
    with True f c show ?thesis by (auto simp: serial_getc_def ring_ok_def pending_def pending_count_def)
  next
    case False
    let ?s' = "s\<lparr>queue_front := (?f + 1) mod 1024\<rparr>"
    have d: "(?r - ?f) mod 1024 \<noteq> 0"
      using False f by (metis diff_eq_eq mod_pos_pos_trivial mod_eq_dvd_iff dvd_eq_mod_eq_0 add_0)
    have lo: "0 \<le> (?r - ?f) mod 1024" by simp
    note e = front_next [OF d]
    have f': "(?f + 1) mod 1024 \<noteq> - 1" by (metis Euclidean_Rings.pos_mod_sign not_one_le_zero neg_0_le_iff_le zero_less_numeral)
    have n': "pending_count ?s' = nat ((?r - ?f) mod 1024)"
      using e d lo f' by (simp add: pending_count_def)
    have "pending ?s' = cs"
    proof (rule nth_equalityI)
      show "length (pending ?s') = length cs" using n n' p length_pending [of s] by simp
      fix i assume i: "i < length (pending ?s')"
      then have "pending ?s' ! i = read_queue s ! nat (((?f + 1) mod 1024 + int i) mod 1024)"
        using pending_nth [of i ?s'] by simp
      also have "((?f + 1) mod 1024 + int i) mod 1024 = (?f + int (Suc i)) mod 1024"
        by (simp add: mod_add_left_eq add.assoc)
      also have "read_queue s ! nat ((?f + int (Suc i)) mod 1024) = pending s ! Suc i"
        using i n n' pending_nth [of "Suc i" s] by simp
      finally show "pending ?s' ! i = cs ! i" using p by simp
    qed
    moreover have "ring_ok ?s'" using f by (simp add: ring_ok_def)
    ultimately show ?thesis using False f c by (simp add: serial_getc_def)
  qed
qed


lemma rear_next:
  assumes "ring_ok s" and "queue_front s \<noteq> - 1"
  shows "(queue_rear s + 1) mod 1024 = (queue_front s + int (pending_count s)) mod 1024"
proof -
  have "queue_front s + int (pending_count s) = queue_front s + ((queue_rear s - queue_front s) mod 1024 + 1)"
    using assms(2) by (simp add: pending_count_def)
  also have "\<dots> mod 1024 = (queue_front s + (queue_rear s - queue_front s) + 1) mod 1024"
    by (metis add.assoc mod_add_left_eq mod_add_right_eq)
  finally show ?thesis by simp
qed

lemma mod_offset_inj: "i < j \<Longrightarrow> j < 1024 \<Longrightarrow> (f + int i) mod 1024 \<noteq> (f + int j) mod 1024"
proof
  assume "i < j" "j < 1024" and "(f + int i) mod 1024 = (f + int j) mod 1024"
  then have "(1024 :: int) dvd int j - int i" by (simp add: mod_eq_dvd_iff dvd_diff_commute)
  moreover have "0 < int j - int i" "int j - int i < 1024" using \<open>i < j\<close> \<open>j < 1024\<close> by auto
  ultimately show False using zdvd_not_zless by blast
qed

lemma insert_pending:
  assumes ok: "ring_ok s" and room: "pending_count s < 1024"
  shows "ring_ok (queue_insert d s)" and "pending (queue_insert d s) = pending s @ [d]"
proof -
  let ?f = "queue_front s" and ?n = "pending_count s" and ?s' = "queue_insert d s"
  show rk: "ring_ok ?s'" using ok by (auto simp: ring_ok_def queue_insert_def Let_def)
  show "pending ?s' = pending s @ [d]"
  proof (cases "?f = - 1")
    case True
    then have "queue_rear s = - 1" "length (read_queue s) = 1024" using ok by (auto simp: ring_ok_def)
    with True show ?thesis by (simp add: queue_insert_def Let_def pending_def pending_count_def)
  next
    case False
    have f: "0 \<le> ?f" "?f < 1024" "length (read_queue s) = 1024" using ok False by (auto simp: ring_ok_def)
    let ?j = "nat ((?f + int ?n) mod 1024)"
    have s': "?s' = s\<lparr>queue_rear := (?f + int ?n) mod 1024, read_queue := (read_queue s)[?j := d]\<rparr>"
      using False rear_next [OF ok False] by (simp add: queue_insert_def Let_def)
    have "(((?f + int ?n) mod 1024) - ?f) mod 1024 = int ?n"
      using room by (simp add: mod_diff_left_eq)
    then have n': "pending_count ?s' = Suc ?n" using False by (simp add: s' pending_count_def)
    show ?thesis
    proof (rule nth_equalityI)
      show "length (pending ?s') = length (pending s @ [d])" by (simp add: n')
      fix i assume "i < length (pending ?s')"
      then consider "i < ?n" | "i = ?n" using n' by (simp add: less_Suc_eq) blast
      then show "pending ?s' ! i = (pending s @ [d]) ! i"
      proof cases
        case 1
        have "?j \<noteq> nat ((?f + int i) mod 1024)"
          using mod_offset_inj [OF 1 room, of ?f] by (simp add: eq_nat_nat_iff)
        then have "pending ?s' ! i = read_queue s ! nat ((?f + int i) mod 1024)"
          using 1 n' pending_nth [of i ?s'] by (simp add: s')
        then show ?thesis using 1 by (simp add: nth_append pending_nth)
      next
        case 2
        have "?j < 1024" by (simp add: nat_less_iff)
        then show ?thesis
          using 2 n' f(3) pending_nth [of i ?s'] by (simp add: s' nth_append)
      qed
    qed
  qed
qed

section \<open>The queue contract\<close>

primrec pop_n :: "('s \<Rightarrow> 'b \<times> 's) \<Rightarrow> nat \<Rightarrow> 's \<Rightarrow> 'b list \<times> 's" where
  "pop_n pop 0 s = ([], s)"
| "pop_n pop (Suc n) s = (case pop s of (b, s) \<Rightarrow> case pop_n pop n s of (bs, s) \<Rightarrow> (b # bs, s))"

locale byte_queue =
  fixes push :: "'b \<Rightarrow> 's \<Rightarrow> 's"
    and pop :: "'s \<Rightarrow> 'b \<times> 's"
    and items :: "'s \<Rightarrow> 'b list"
    and cap :: nat
    and ok :: "'s \<Rightarrow> bool"
  assumes push_items: "ok s \<Longrightarrow> length (items s) < cap \<Longrightarrow> ok (push b s) \<and> items (push b s) = items s @ [b]"
    and pop_items: "ok s \<Longrightarrow> items s = b # bs \<Longrightarrow> \<exists>s'. pop s = (b, s') \<and> ok s' \<and> items s' = bs"
begin

lemma push_many: "ok s \<Longrightarrow> length (items s) + length bs \<le> cap \<Longrightarrow> ok (fold push bs s) \<and> items (fold push bs s) = items s @ bs"
proof (induction bs arbitrary: s)
  case (Cons b bs)
  then have "ok (push b s)" "items (push b s) = items s @ [b]" using push_items [of s b] by auto
  with Cons.IH [of "push b s"] Cons.prems show ?case by simp
qed simp

lemma pop_many: "ok s \<Longrightarrow> items s = bs @ cs \<Longrightarrow> \<exists>s'. pop_n pop (length bs) s = (bs, s') \<and> ok s' \<and> items s' = cs"
proof (induction bs arbitrary: s)
  case (Cons b bs)
  then obtain s' where "pop s = (b, s')" "ok s'" "items s' = bs @ cs" using pop_items [of s b "bs @ cs"] by auto
  with Cons.IH [of s'] show ?case by auto
qed simp

end

interpretation rq: byte_queue queue_insert serial_getc pending 1024 ring_ok
  by unfold_locales (use insert_pending getc_pending in auto)

section \<open>Properties\<close>

text \<open>C23: the receive queue is first in, first out as long as it holds at most 1024 bytes. Whatever
  is pending, inserting \<open>bs\<close> and then reading as many bytes as are pending returns the earlier bytes
  and then \<open>bs\<close>, and leaves the queue empty; an empty queue reads as 0.\<close>

theorem serial_queue_fifo:
  assumes "ring_ok s" and "length (pending s) + length bs \<le> 1024"
  shows "\<exists>s'. pop_n serial_getc (length (pending s @ bs)) (fold queue_insert bs s) = (pending s @ bs, s')
    \<and> ring_ok s' \<and> pending s' = [] \<and> serial_getc s' = (0, s')"
proof -
  have "ring_ok (fold queue_insert bs s)" "pending (fold queue_insert bs s) = (pending s @ bs) @ []"
    using rq.push_many [OF assms] by auto
  from rq.pop_many [OF this] obtain s' where s':
    "pop_n serial_getc (length (pending s @ bs)) (fold queue_insert bs s) = (pending s @ bs, s')"
    "ring_ok s'" "pending s' = []" by blast
  then show ?thesis using pending_nil_iff [OF s'(2)] by (simp add: serial_getc_def)
qed

theorem serial_queue_fifo_witness:
  "\<exists>s'. pop_n serial_getc 3 (fold queue_insert [104, 105, 10] serial_start) = ([104, 105, 10], s')"
proof -
  let ?bs = "[104, 105, 10 :: u8]"
  have n: "length (pending serial_start @ ?bs) = 3" and le: "length (pending serial_start) + length ?bs \<le> 1024"
    by (simp_all add: serial_start_ok(2) del: length_pending)
  from serial_queue_fifo [OF serial_start_ok(1) le] show ?thesis
    unfolding n unfolding serial_start_ok(2) append_Nil by blast
qed

text \<open>The test for a full queue misses a full ring whose front is not at index 0. One more byte
  then overtakes the front, and the whole content is lost: only the new byte remains.\<close>

theorem serial_full_ring_loses_content:
  assumes "ring_ok s" and "pending_count s = 1024" and "queue_front s \<noteq> 0"
  shows "\<not> queue_full_test s \<and> pending (queue_insert d s) = [d]"
proof -
  let ?f = "queue_front s"
  have f: "?f \<noteq> - 1" "0 \<le> ?f" "?f < 1024" "length (read_queue s) = 1024"
    using assms by (auto simp: ring_ok_def pending_count_def)
  have "(queue_rear s + 1) mod 1024 = ?f" using rear_next [OF assms(1) f(1)] assms(2) f by simp
  then have "queue_insert d s = s\<lparr>queue_rear := ?f, read_queue := (read_queue s)[nat ?f := d]\<rparr>"
    using f by (simp add: queue_insert_def Let_def)
  then show ?thesis using f assms(3) by (simp add: queue_full_test_def pending_def pending_count_def)
qed

theorem serial_full_ring_loses_content_witness:
  "pending (queue_insert 7 (serial_start\<lparr>queue_front := 5, queue_rear := 4\<rparr>)) = [7]"
  using serial_full_ring_loses_content [of "serial_start\<lparr>queue_front := 5, queue_rear := 4\<rparr>" 7]
  by (simp add: ring_ok_def serial_start_def pending_count_def)

end
