(* ===== verification/Vga.thy ===== *)
theory Vga
  imports Kio Kdisplay
begin

unbundle bit_operations_syntax

text \<open>
  The text-mode screen, kernel/drivers/vga.c. \<open>screen\<close> gives the 16-bit cells from the start of
  the video buffer; cells from 2000 on are memory after the screen. A \<open>char\<close> is signed, so a byte
  of 128 or more is not printable.
\<close>

section \<open>State and operations\<close>

abbreviation NUM_COLS :: nat where "NUM_COLS \<equiv> 80"
abbreviation NUM_ROWS :: nat where "NUM_ROWS \<equiv> 25"

record vga =
  screen :: "nat \<Rightarrow> u16"
  color :: u16
  cur_x :: u8
  cur_y :: u8

fun color_code :: "vga_color \<Rightarrow> u16" where
  "color_code VGA_COLOR_BLACK = 0" | "color_code VGA_COLOR_BLUE = 1" | "color_code VGA_COLOR_GREEN = 2"
| "color_code VGA_COLOR_CYAN = 3" | "color_code VGA_COLOR_RED = 4" | "color_code VGA_COLOR_MAGENTA = 5"
| "color_code VGA_COLOR_BROWN = 6" | "color_code VGA_COLOR_LIGHT_GRAY = 7" | "color_code VGA_COLOR_DARK_GRAY = 8"
| "color_code VGA_COLOR_LIGHT_BLUE = 9" | "color_code VGA_COLOR_LIGHT_GREEN = 10"
| "color_code VGA_COLOR_LIGHT_CYAN = 11" | "color_code VGA_COLOR_LIGHT_RED = 12" | "color_code VGA_COLOR_PINK = 13"
| "color_code VGA_COLOR_YELLOW = 14" | "color_code VGA_COLOR_WHITE = 15"

definition vga_clear :: "vga \<Rightarrow> vga" where
  "vga_clear s = s\<lparr>screen := \<lambda>i. if i < NUM_COLS * NUM_ROWS then 3872 else screen s i\<rparr>"

text \<open>The copy runs forwards to lower addresses, so it moves the rows as they were. The cursor is at
  most one row below the screen here (\<open>settle\<close> below), so the row count does not go negative.\<close>

definition scroll :: "vga \<Rightarrow> vga" where
  "scroll s =
     (if NUM_ROWS \<le> unat (cur_y s) then
        let temp = unat (cur_y s) - NUM_ROWS + 1;
            s = s\<lparr>screen := \<lambda>i. if i < (NUM_ROWS - temp) * NUM_COLS then screen s (i + temp * NUM_COLS) else screen s i\<rparr>;
            s = s\<lparr>screen := \<lambda>i. if NUM_COLS * (NUM_ROWS - 1) \<le> i \<and> i < NUM_COLS * NUM_ROWS then 3872 else screen s i\<rparr>
        in s\<lparr>cur_y := of_nat (NUM_ROWS - 1)\<rparr>
      else s)"

definition move_cur :: "vga \<Rightarrow> io \<Rightarrow> io" where
  "move_cur s h =
     (let temp = of_nat (unat (cur_y s) * NUM_COLS + unat (cur_x s)) :: u16
      in outb 0x3D5 (ucast temp) (outb 0x3D4 15 (outb 0x3D5 (ucast (drop_bit 8 temp)) (outb 0x3D4 14 h))))"

definition cell_at :: "vga \<Rightarrow> nat" where
  "cell_at s = unat (cur_y s) * NUM_COLS + unat (cur_x s)"

definition put_cell :: "u8 \<Rightarrow> vga \<Rightarrow> vga" where
  "put_cell c s =
     (if c = 0x08 then
        (if cur_x s \<noteq> 0 then
           let s = s\<lparr>cur_x := cur_x s - 1\<rparr> in s\<lparr>screen := (screen s)(cell_at s := 3872)\<rparr>
         else s)
      else if c = 0x09 then s\<lparr>cur_x := (cur_x s + 8) AND NOT 7\<rparr>
      else if c = 0x0d then s\<lparr>cur_x := 0\<rparr>
      else if c = 0x0a then s\<lparr>cur_x := 0, cur_y := cur_y s + 1\<rparr>
      else if 32 \<le> sint c then
        s\<lparr>screen := (screen s)(cell_at s := ucast c OR color s), cur_x := cur_x s + 1\<rparr>
      else s)"

definition vga_putc :: "u8 \<Rightarrow> vga \<times> io \<Rightarrow> vga \<times> io" where
  "vga_putc c sh =
     (let (s, h) = sh;
          s = put_cell c s;
          s = (if NUM_COLS \<le> unat (cur_x s) then s\<lparr>cur_x := 0, cur_y := cur_y s + 1\<rparr> else s);
          s = scroll s
      in (s, move_cur s h))"

definition vga_puts :: "u8 list \<Rightarrow> vga \<times> io \<Rightarrow> vga \<times> io" where
  "vga_puts cs sh = fold vga_putc cs sh"

definition vga_set_color :: "vga_color \<Rightarrow> vga_color \<Rightarrow> vga \<Rightarrow> vga" where
  "vga_set_color fg bg s = s\<lparr>color := push_bit 8 (push_bit 4 (color_code bg) OR color_code fg)\<rparr>"

section \<open>The cursor\<close>

definition cursor_ok :: "vga \<Rightarrow> bool" where
  "cursor_ok s \<longleftrightarrow> unat (cur_x s) < NUM_COLS \<and> unat (cur_y s) < NUM_ROWS"

lemma unat8_plus: "unat a + unat b < 256 \<Longrightarrow> unat (a + b) = unat a + unat b" for a b :: u8
  by (simp add: unat_word_ariths)

lemma cell_bound: "cursor_ok s \<Longrightarrow> cell_at s < 2000"
  by (simp add: cursor_ok_def cell_at_def)

lemma put_cell_y: "cursor_ok s \<Longrightarrow> unat (cur_y (put_cell c s)) \<le> 25
    \<and> (unat (cur_y (put_cell c s)) = 25 \<longrightarrow> cur_x (put_cell c s) = 0)"
  using unat8_plus [of "cur_y s" 1] by (auto simp: put_cell_def cursor_ok_def Let_def)

lemma put_cell_beyond:
  assumes "cursor_ok s" and "2000 \<le> i"
  shows "screen (put_cell c s) i = screen s i"
proof -
  have "cell_at s < 2000" using assms(1) by (rule cell_bound)
  moreover have "cell_at (s\<lparr>cur_x := cur_x s - 1\<rparr>) < 2000" if "cur_x s \<noteq> 0"
    using that assms(1) by (intro cell_bound) (auto simp: cursor_ok_def unat_minus_one)
  ultimately show ?thesis using assms(2) by (auto simp: put_cell_def Let_def)
qed

text \<open>The column wrap and the scroll, which follow every character.\<close>

definition settle :: "vga \<Rightarrow> vga" where
  "settle s = scroll (if NUM_COLS \<le> unat (cur_x s) then s\<lparr>cur_x := 0, cur_y := cur_y s + 1\<rparr> else s)"

lemma vga_putc_settle: "vga_putc c (s, h) = (settle (put_cell c s), move_cur (settle (put_cell c s)) h)"
  by (simp add: vga_putc_def settle_def Let_def)

lemma scroll_ok: "unat (cur_x s) < 80 \<Longrightarrow> unat (cur_y s) \<le> 25 \<Longrightarrow> cursor_ok (scroll s)"
  by (simp add: scroll_def cursor_ok_def Let_def)

lemma scroll_beyond: "2000 \<le> i \<Longrightarrow> screen (scroll s) i = screen s i"
proof -
  assume i: "2000 \<le> i"
  have "(49 - unat (cur_y s)) * 80 \<le> 1920" if "25 \<le> unat (cur_y s)" using that by linarith
  then show "screen (scroll s) i = screen s i" using i by (auto simp: scroll_def Let_def)
qed

lemma settle_ok:
  assumes "unat (cur_y s) \<le> 25" and "unat (cur_y s) = 25 \<longrightarrow> cur_x s = 0"
  shows "cursor_ok (settle s)" and "2000 \<le> i \<Longrightarrow> screen (settle s) i = screen s i"
proof -
  let ?s = "if NUM_COLS \<le> unat (cur_x s) then s\<lparr>cur_x := 0, cur_y := cur_y s + 1\<rparr> else s"
  have "unat (cur_y ?s) \<le> 25" "unat (cur_x ?s) < 80"
    using assms unat8_plus [of "cur_y s" 1] by auto
  then show "cursor_ok (settle s)" unfolding settle_def by (rule_tac scroll_ok)
  show "screen (settle s) i = screen s i" if "2000 \<le> i"
    using that by (simp add: settle_def scroll_beyond)
qed

lemma vga_putc_ok:
  assumes "cursor_ok s" and "vga_putc c (s, h) = (s', h')"
  shows "cursor_ok s'" and "2000 \<le> i \<Longrightarrow> screen s' i = screen s i"
  using assms put_cell_y [OF assms(1), of c] put_cell_beyond [OF assms(1), of i c] settle_ok [of "put_cell c s"]
  by (auto simp: vga_putc_settle)

lemma move_cur_bytes:
  assumes "cursor_ok s"
  shows "\<exists>hi lo. sent 0x3D5 (move_cur s h) = sent 0x3D5 h @ [hi, lo] \<and> 256 * unat hi + unat lo = cell_at s"
proof -
  let ?n = "cell_at s" and ?t = "of_nat (cell_at s) :: u16"
  have n: "?n < 2000" using assms by (rule cell_bound)
  have t: "unat ?t = ?n" using n by (simp add: unat_of_nat take_bit_eq_mod)
  have "unat (ucast (drop_bit 8 ?t) :: u8) = ?n div 256"
  proof -
    have "unat (drop_bit 8 ?t) = ?n div 256" by (simp add: drop_bit_eq_div unat_div t)
    moreover have "?n div 256 < 256" using n by (simp add: div_less_iff_less_mult)
    ultimately show ?thesis by (simp add: unsigned_ucast_eq take_bit_eq_mod unat_mod)
  qed
  moreover have "unat (ucast ?t :: u8) = ?n mod 256" using t by (simp add: unsigned_ucast_eq take_bit_eq_mod unat_mod)
  ultimately show ?thesis by (simp add: move_cur_def Let_def flip: cell_at_def)
qed


section \<open>Properties\<close>

text \<open>C20: whatever byte is printed, the cursor stays on the 80 by 25 screen, no cell outside the
  screen buffer is written, and the last two bytes sent to the cursor data port are the high and
  low byte of the cell under the cursor.\<close>

theorem vga_putc_stays_on_screen:
  assumes "cursor_ok s" and "vga_putc c (s, h) = (s', h')"
  shows "cursor_ok s' \<and> (\<forall>i \<ge> 2000. screen s' i = screen s i)
    \<and> (\<exists>hi lo. sent 0x3D5 h' = sent 0x3D5 h @ [hi, lo] \<and> 256 * unat hi + unat lo = cell_at s')"
proof -
  have "h' = move_cur s' h" using assms(2) by (auto simp: vga_putc_settle)
  then show ?thesis
    using vga_putc_ok [OF assms] move_cur_bytes [of s' h] by auto
qed

definition demo_vga :: vga where
  "demo_vga = \<lparr>screen = (\<lambda>i. of_nat i), color = 0x0f00, cur_x = 79, cur_y = 24\<rparr>"

theorem vga_putc_stays_on_screen_witness:
  "\<exists>s' h'. vga_putc 65 (demo_vga, []) = (s', h') \<and> cursor_ok s' \<and> screen s' 2000 = screen demo_vga 2000"
proof -
  obtain s' h' where p: "vga_putc 65 (demo_vga, []) = (s', h')" by (cases "vga_putc 65 (demo_vga, [])")
  have "cursor_ok demo_vga" by (simp add: cursor_ok_def demo_vga_def)
  from vga_putc_stays_on_screen [OF this p] p show ?thesis by auto
qed

text \<open>A printable byte before the last column.\<close>

lemma put_printable:
  assumes "cursor_ok s" and "unat (cur_x s) < 79" and "32 \<le> sint c"
  shows "vga_putc c (s, h) = (let s' = s\<lparr>screen := (screen s)(cell_at s := ucast c OR color s), cur_x := cur_x s + 1\<rparr>
    in (s', move_cur s' h))"
proof -
  have c: "c \<noteq> 8" "c \<noteq> 9" "c \<noteq> 13" "c \<noteq> 10" using assms(3) by auto
  have x: "unat (cur_x s + 1) < 80" using assms(2) unat8_plus [of "cur_x s" 1] by simp
  have y: "unat (cur_y s) < 25" using assms(1) by (simp add: cursor_ok_def)
  show ?thesis using c x y assms(3) by (simp add: vga_putc_settle settle_def put_cell_def scroll_def Let_def)
qed

text \<open>A string of printable characters that ends before the right margin appears on the screen
  in the current colour, one cell per character from the cursor on, and changes nothing else; the
  cursor ends after it.\<close>

theorem vga_puts_shows_text:
  assumes "cursor_ok s" and "\<forall>c \<in> set cs. 32 \<le> sint c" and "unat (cur_x s) + length cs < 80"
  shows "\<exists>s' h'. vga_puts cs (s, h) = (s', h') \<and> unat (cur_x s') = unat (cur_x s) + length cs \<and> cur_y s' = cur_y s
    \<and> (\<forall>i. screen s' i = (if cell_at s \<le> i \<and> i < cell_at s + length cs
         then ucast (cs ! (i - cell_at s)) OR color s else screen s i))"
  using assms
proof (induction cs arbitrary: s h)
  case Nil
  then show ?case by (auto simp: vga_puts_def)
next
  case (Cons c cs)
  let ?s = "s\<lparr>screen := (screen s)(cell_at s := ucast c OR color s), cur_x := cur_x s + 1\<rparr>"
  have x: "unat (cur_x s + 1) = unat (cur_x s) + 1" using Cons.prems(3) unat8_plus [of "cur_x s" 1] by simp
  have "vga_puts (c # cs) (s, h) = vga_puts cs (?s, move_cur ?s h)"
    using put_printable [of s c h] Cons.prems by (simp add: vga_puts_def Let_def)
  moreover have "cursor_ok ?s" using Cons.prems x by (simp add: cursor_ok_def)
  moreover have "cell_at ?s = cell_at s + 1" using x by (simp add: cell_at_def)
  ultimately obtain s' h' where "vga_puts (c # cs) (s, h) = (s', h')"
      "unat (cur_x s') = unat (cur_x s) + 1 + length cs" "cur_y s' = cur_y s"
      "\<And>i. screen s' i = (if cell_at s + 1 \<le> i \<and> i < cell_at s + 1 + length cs
         then ucast (cs ! (i - (cell_at s + 1))) OR color s else screen ?s i)"
    using Cons.IH [of ?s "move_cur ?s h"] Cons.prems x by auto
  then show ?case
    by (intro exI [of _ s'] exI [of _ h']) (auto simp: nth_Cons' Suc_le_eq)
qed

theorem vga_puts_shows_text_witness:
  "\<exists>s' h'. vga_puts [104, 105] (demo_vga\<lparr>cur_x := 3, cur_y := 2\<rparr>, []) = (s', h')
     \<and> screen s' 163 = 0x0f68 \<and> screen s' 164 = 0x0f69 \<and> screen s' 165 = 165"
proof -
  let ?s = "demo_vga\<lparr>cur_x := 3, cur_y := 2\<rparr>"
  have h: "cursor_ok ?s" "\<forall>c \<in> set [104, 105 :: u8]. 32 \<le> sint c" "unat (cur_x ?s) + length [104, 105 :: u8] < 80"
    and c: "cell_at ?s = 163" by (simp_all add: cursor_ok_def cell_at_def)
  show ?thesis using vga_puts_shows_text [OF h, of "[]"] unfolding c by (auto simp: demo_vga_def)
qed

end
