(* ===== verification/Keyboard.thy ===== *)
theory Keyboard
  imports Kio Isr
begin

unbundle bit_operations_syntax

text \<open>
  The PS/2 keyboard driver, kernel/drivers/keyboard.c: scan-code tables, the state of the modifier
  keys and the interrupt handler. The handler's output is the character it passes to \<open>kprintf\<close>.
\<close>

section \<open>Tables\<close>

abbreviation SHIFT :: u8 where "SHIFT \<equiv> 1"
abbreviation CTL :: u8 where "CTL \<equiv> 2"
abbreviation ALT :: u8 where "ALT \<equiv> 4"
abbreviation CAPSLOCK :: u8 where "CAPSLOCK \<equiv> 8"
abbreviation NUMLOCK :: u8 where "NUMLOCK \<equiv> 16"
abbreviation SCROLLLOCK :: u8 where "SCROLLLOCK \<equiv> 32"
abbreviation E0ESC :: u8 where "E0ESC \<equiv> 64"

definition shiftcode :: "u8 \<Rightarrow> u8" where
  "shiftcode d = (if d = 0x1D \<or> d = 0x9D then CTL else if d = 0x2A \<or> d = 0x36 then SHIFT
     else if d = 0x38 \<or> d = 0xB8 then ALT else 0)"

definition togglecode :: "u8 \<Rightarrow> u8" where
  "togglecode d = (if d = 0x3A then CAPSLOCK else if d = 0x45 then NUMLOCK else if d = 0x46 then SCROLLLOCK else 0)"

text \<open>An initializer: leading entries by position, then entries by index, zero elsewhere.\<close>

definition key_table :: "u8 list \<Rightarrow> (u8 \<times> u8) list \<Rightarrow> u8 \<Rightarrow> u8" where
  "key_table xs extra d = (case map_of extra d of Some v \<Rightarrow> v | None \<Rightarrow> if unat d < length xs then xs ! unat d else 0)"

definition normalmap :: "u8 \<Rightarrow> u8" where
  "normalmap = key_table [
     0, 27, 49, 50, 51, 52, 53, 54, 55, 56, 57, 48, 45, 61, 8, 9,
     113, 119, 101, 114, 116, 121, 117, 105, 111, 112, 91, 93, 10, 0, 97, 115,
     100, 102, 103, 104, 106, 107, 108, 59, 39, 96, 0, 92, 122, 120, 99, 118,
     98, 110, 109, 44, 46, 47, 0, 42, 0, 32, 0, 0, 0, 0, 0, 0,
     0, 0, 0, 0, 0, 0, 0, 55, 56, 57, 45, 52, 53, 54, 43, 49,
     50, 51, 48, 46, 0, 0, 0, 0]
     [(0x9C, 10), (0xB5, 47)]"

definition shiftmap :: "u8 \<Rightarrow> u8" where
  "shiftmap = key_table [
     0, 27, 33, 64, 35, 36, 37, 94, 38, 42, 40, 41, 95, 43, 8, 9,
     81, 87, 69, 82, 84, 89, 85, 73, 79, 80, 123, 125, 10, 0, 65, 83,
     68, 70, 71, 72, 74, 75, 76, 58, 34, 126, 0, 124, 90, 88, 67, 86,
     66, 78, 77, 60, 62, 63, 0, 42, 0, 32, 0, 0, 0, 0, 0, 0,
     0, 0, 0, 0, 0, 0, 0, 55, 56, 57, 45, 52, 53, 54, 43, 49,
     50, 51, 48, 46, 0, 0, 0, 0]
     [(0x9C, 10), (0xB5, 47)]"

definition ctlmap :: "u8 \<Rightarrow> u8" where
  "ctlmap = key_table [
     0, 0, 0, 0, 0, 0, 0, 0, 0, 0, 0, 0, 0, 0, 0, 0,
     17, 23, 5, 18, 20, 25, 21, 9, 15, 16, 0, 0, 13, 0, 1, 19,
     4, 6, 7, 8, 10, 11, 12, 0, 0, 0, 0, 28, 26, 24, 3, 22,
     2, 14, 13, 0, 0, 239, 0, 0]
     [(0x9C, 13), (0xB5, 239)]"

definition charcode :: "u8 \<Rightarrow> u8 \<Rightarrow> u8" where
  "charcode k d = (if k = 0 then normalmap d else if k = 1 then shiftmap d else ctlmap d)"

section \<open>The handler\<close>

definition caps_swap :: "u8 \<Rightarrow> u8" where
  "caps_swap c = (if 97 \<le> c \<and> c \<le> 122 then c + (65 - 97) else if 65 \<le> c \<and> c \<le> 90 then c + (97 - 65) else c)"

text \<open>What one scan code does: the new modifier state, and the character printed if any.\<close>

definition key_step :: "u8 \<Rightarrow> u8 \<Rightarrow> u8 \<times> u8 option" where
  "key_step data shift =
     (if data = 0xE0 then (shift OR E0ESC, None)
      else if data AND 0x80 \<noteq> 0 then
        let data = (if shift AND E0ESC \<noteq> 0 then data else data AND 0x7F)
        in (shift AND NOT (shiftcode data OR E0ESC), None)
      else
        let (data, shift) = (if shift AND E0ESC \<noteq> 0 then (data OR 0x80, shift AND NOT E0ESC) else (data, shift));
            shift = shift OR shiftcode data;
            shift = shift XOR togglecode data;
            c = charcode (shift AND (CTL OR SHIFT)) data
        in (shift, Some (if shift AND CAPSLOCK \<noteq> 0 then caps_swap c else c)))"

primrec poll_cmd :: "hardware \<Rightarrow> nat \<Rightarrow> io \<Rightarrow> io" where
  "poll_cmd hw 0 h = h"
| "poll_cmd hw (Suc n) h = poll_cmd hw n (snd (inb hw 0x64 h))"

definition keyboard_irq_handler :: "hardware \<Rightarrow> u8 \<Rightarrow> io \<Rightarrow> u8 \<times> u8 option \<times> io" where
  "keyboard_irq_handler hw shift h =
     (let h = poll_cmd hw 1000 h;
          (data, h) = inb hw 0x60 h;
          (shift, out) = key_step data shift
      in (shift, out, h))"

definition keyboard_reset :: "hardware \<Rightarrow> io \<Rightarrow> io" where
  "keyboard_reset hw h =
     (let (tmp, h) = inb hw 0x61 h
      in snd (inb hw 0x60 (outb 0x61 (tmp AND 0x7F) (outb 0x61 (tmp OR 0x80) h))))"

definition keyboard_init :: "hardware \<Rightarrow> handler_table \<Rightarrow> io \<Rightarrow> handler_table \<times> io" where
  "keyboard_init hw t h = (int_install_handler 33 Keyboard_irq_handler t, keyboard_reset hw h)"

section \<open>Properties\<close>

definition letter_codes :: "u8 list" where
  "letter_codes = [0x10, 0x11, 0x12, 0x13, 0x14, 0x15, 0x16, 0x17, 0x18, 0x19, 0x1E, 0x1F, 0x20, 0x21, 0x22, 0x23,
     0x24, 0x25, 0x26, 0x2C, 0x2D, 0x2E, 0x2F, 0x30, 0x31, 0x32]"

lemma letter_tables_all:
  "list_all (\<lambda>d. shiftcode d = 0 \<and> togglecode d = 0 \<and> d \<noteq> 0xE0 \<and> d AND 0x80 = 0
     \<and> 97 \<le> normalmap d \<and> normalmap d \<le> 122 \<and> shiftmap d = normalmap d - 32) letter_codes"
  by code_simp

lemma letter_tables:
  "d \<in> set letter_codes \<Longrightarrow> shiftcode d = 0 \<and> togglecode d = 0 \<and> d \<noteq> 0xE0 \<and> d AND 0x80 = 0
     \<and> 97 \<le> normalmap d \<and> normalmap d \<le> 122 \<and> shiftmap d = normalmap d - 32"
  using letter_tables_all unfolding list_all_iff by blast

lemma and_three: "x AND 2 = 0 \<Longrightarrow> x AND 3 = x AND 1" for x :: u8
proof -
  assume "x AND 2 = 0"
  moreover have "(3 :: u8) = 2 OR 1" by simp
  ultimately show "x AND 3 = x AND 1" by (metis bit.conj_disj_distrib or.left_neutral)
qed

lemma clear_masked:
  fixes x m s :: u8
  assumes "x AND m = 0"
  shows "(x OR s) AND NOT (s OR m) = x AND NOT s"
proof (rule bit_word_eqI)
  fix n assume "n < LENGTH(8)"
  have "\<not> (bit x n \<and> bit m n)" using arg_cong [OF assms, of "\<lambda>w. bit w n"] by (simp add: bit_and_iff)
  then show "bit ((x OR s) AND NOT (s OR m)) n = bit (x AND NOT s) n" by (auto simp: bit_simps)
qed

lemma and_one_cases: "x AND 1 = 0 \<or> x AND 1 = 1" for x :: u8
  by (simp add: and_one_eq mod_2_eq_odd)

text \<open>A letter key prints its lower-case letter, and the upper-case one exactly when either
  shift or caps lock is on but not both; the modifier state does not change.\<close>

lemma letter_key_case:
  assumes "d \<in> set letter_codes" and "shift AND CTL = 0" and "shift AND E0ESC = 0"
  shows "97 \<le> normalmap d \<and> normalmap d \<le> 122 \<and> key_step d shift =
    (shift, Some (if (shift AND SHIFT \<noteq> 0) \<noteq> (shift AND CAPSLOCK \<noteq> 0) then normalmap d - 32 else normalmap d))"
proof -
  note t = letter_tables [OF assms(1)]
  let ?n = "normalmap d"
  have low: "\<not> (97 \<le> normalmap d - 32 \<and> normalmap d - 32 \<le> 122)" "65 \<le> normalmap d - 32" "normalmap d - 32 \<le> 90"
    using t by (auto simp: word_le_nat_alt unat_sub)
  have k: "shift AND 3 = shift AND 1" using assms(2) by (rule and_three)
  have st: "key_step d shift = (shift, Some (if shift AND CAPSLOCK \<noteq> 0 then caps_swap (charcode (shift AND 1) d) else charcode (shift AND 1) d))"
    using t assms(3) k by (simp add: key_step_def Let_def)
  have sw: "caps_swap ?n = ?n - 32" "caps_swap (?n - 32) = ?n" using t low by (auto simp: caps_swap_def)
  have ch: "charcode 0 d = ?n" "charcode 1 d = ?n - 32" using t by (simp_all add: charcode_def)
  show ?thesis
  proof (cases "shift AND 1 = 0")
    case True
    then show ?thesis using st sw ch t by simp
  next
    case False
    then have "shift AND 1 = 1" using and_one_cases [of shift] by blast
    then show ?thesis using st sw ch t by simp
  qed
qed

text \<open>Holding a modifier key lasts exactly until its release: pressing it sets its bit and
  prints nothing printable, releasing it clears the bit, and all other modifier bits are as before.\<close>

theorem modifier_press_release:
  assumes "d \<in> {0x1D, 0x2A, 0x36, 0x38}" and "shift AND E0ESC = 0"
  shows "fst (key_step d shift) = shift OR shiftcode d
    \<and> key_step (d OR 0x80) (fst (key_step d shift)) = (shift AND NOT (shiftcode d), None)"
proof -
  have s: "shiftcode d AND E0ESC = 0" "togglecode d = 0" "d \<noteq> 0xE0" "d AND 0x80 = 0" "d OR 0x80 \<noteq> 0xE0"
      "(d OR 0x80) AND 0x80 \<noteq> 0" "(d OR 0x80) AND 0x7F = d"
    using assms(1) by (auto simp: shiftcode_def togglecode_def)
  have p: "fst (key_step d shift) = shift OR shiftcode d" using s assms(2) by (simp add: key_step_def Let_def)
  have "(shift OR shiftcode d) AND E0ESC = 0" using assms(2) s(1) by (simp add: bit.conj_disj_distrib2)
  then have "key_step (d OR 0x80) (shift OR shiftcode d) = ((shift OR shiftcode d) AND NOT (shiftcode d OR E0ESC), None)"
    using s by (simp add: key_step_def Let_def)
  with p clear_masked [OF assms(2)] show ?thesis by simp
qed


theorem modifier_press_release_witness:
  "fst (key_step 0x2A CAPSLOCK) = CAPSLOCK OR SHIFT \<and> key_step 0xAA (fst (key_step 0x2A CAPSLOCK)) = (CAPSLOCK, None)"
  using modifier_press_release [of "0x2A" CAPSLOCK] by (auto simp: shiftcode_def)

end
