(* ===== verification/Rtc.thy ===== *)
theory Rtc
  imports Kio Isr
begin

unbundle bit_operations_syntax

text \<open>
  The real-time clock and the interval timer's set-up, kernel/drivers/rtc.c and timer.c. The macro
  \<open>from_bcd\<close> mentions its argument twice, so every field is computed from two register reads.
  \<open>get_seconds\<close> multiplies C ints; the products wrap at 32 bits.
\<close>

section \<open>State and operations\<close>

record time_t =
  year :: u16
  mnth :: u16
  day :: u16
  hour :: u16
  minute :: u16
  sec :: u16

datatype cmos_reg = CMOS_SECOND | CMOS_MINUTE | CMOS_HOUR | CMOS_WEEKDAY | CMOS_DAY | CMOS_MONTH | CMOS_YEAR
  | CMOS_STATUS_A | CMOS_STATUS_B | CMOS_STATUS_C

primrec cmos_num :: "cmos_reg \<Rightarrow> u8" where
  "cmos_num CMOS_SECOND = 0x00"
| "cmos_num CMOS_MINUTE = 0x02"
| "cmos_num CMOS_HOUR = 0x04"
| "cmos_num CMOS_WEEKDAY = 0x06"
| "cmos_num CMOS_DAY = 0x07"
| "cmos_num CMOS_MONTH = 0x08"
| "cmos_num CMOS_YEAR = 0x09"
| "cmos_num CMOS_STATUS_A = 0x0a"
| "cmos_num CMOS_STATUS_B = 0x0b"
| "cmos_num CMOS_STATUS_C = 0x0c"

text \<open>The interrupt flag, which \<open>write_cmos\<close> clears and sets again around its two accesses, is not part of the history.\<close>

definition read_cmos :: "hardware \<Rightarrow> u8 \<Rightarrow> io \<Rightarrow> u8 \<times> io" where
  "read_cmos hw reg h = inb hw 0x71 (outb 0x70 (0x80 OR reg) h)"

definition write_cmos :: "u8 \<Rightarrow> u8 \<Rightarrow> io \<Rightarrow> io" where
  "write_cmos reg v h = outb 0x71 v (outb 0x70 (0x80 OR reg) h)"

definition from_bcd_read :: "hardware \<Rightarrow> u8 \<Rightarrow> io \<Rightarrow> u16 \<times> io" where
  "from_bcd_read hw reg h =
     (let (a, h) = read_cmos hw reg h; (b, h) = read_cmos hw reg h
      in (ucast (drop_bit 4 a) * 10 + ucast (b AND 0xf), h))"

definition get_time :: "time_t \<Rightarrow> time_t" where
  "get_time dt = dt"

definition get_seconds :: "time_t \<Rightarrow> u32" where
  "get_seconds dt = ucast (year dt) * 31536000 + ucast (mnth dt) * 2629800 + ucast (day dt) * 86400
     + ucast (hour dt) * 3600 + ucast (minute dt) * 60 + ucast (sec dt)"

definition rtc_update :: "hardware \<Rightarrow> time_t \<Rightarrow> io \<Rightarrow> time_t \<times> io" where
  "rtc_update hw dt h =
     (let (c, h) = read_cmos hw (cmos_num CMOS_STATUS_C) h
      in if c AND 0x10 \<noteq> 0 then
           let (s, h) = from_bcd_read hw (cmos_num CMOS_SECOND) h; (mi, h) = from_bcd_read hw (cmos_num CMOS_MINUTE) h; (ho, h) = from_bcd_read hw (cmos_num CMOS_HOUR) h;
               (d, h) = from_bcd_read hw (cmos_num CMOS_DAY) h; (mo, h) = from_bcd_read hw (cmos_num CMOS_MONTH) h; (y, h) = from_bcd_read hw (cmos_num CMOS_YEAR) h
           in (\<lparr>year = 2000 + y, mnth = mo, day = d, hour = ho, minute = mi, sec = s\<rparr>, h)
         else (dt, h))"

definition rtc_irq_handler :: "hardware \<Rightarrow> time_t \<Rightarrow> io \<Rightarrow> time_t \<times> io" where
  "rtc_irq_handler hw dt h = rtc_update hw dt h"

definition rtc_init :: "hardware \<Rightarrow> handler_table \<Rightarrow> time_t \<Rightarrow> io \<Rightarrow> handler_table \<times> time_t \<times> io" where
  "rtc_init hw t dt h =
     (let (status, h) = read_cmos hw (cmos_num CMOS_STATUS_B) h;
          status = status OR 0x02; status = status OR 0x10;
          status = status AND NOT 0x20; status = status AND NOT 0x40;
          h = write_cmos 0x0B status h;
          (dt, h) = rtc_update hw dt h
      in (int_install_handler 40 Rtc_irq_handler t, dt, h))"

text \<open>The interval timer: the divisor is a C int division; a zero rate traps.\<close>

definition timer_init :: "int \<Rightarrow> handler_table \<Rightarrow> io \<Rightarrow> kerr + handler_table \<times> io" where
  "timer_init hz t h =
     (if hz = 0 then Inl Div_by_zero
      else let divisor = (if 0 < hz then 1193180 div hz else - (1193180 div (- hz)));
               h = outb 0x40 (word_of_int (divisor div 256)) (outb 0x40 (word_of_int divisor) (outb 0x43 0x36 h))
           in Inr (int_install_handler 32 Timer_irq_handler t, h))"

section \<open>Properties\<close>

text \<open>Hardware whose clock registers hold \<open>regs\<close> throughout.\<close>

definition cmos_holds :: "hardware \<Rightarrow> (u8 \<Rightarrow> u8) \<Rightarrow> bool" where
  "cmos_holds hw regs \<longleftrightarrow> (\<forall>h r. fst (read_cmos hw r h) = regs r)"

definition bcd_ok :: "u8 \<Rightarrow> bool" where
  "bcd_ok b \<longleftrightarrow> unat b div 16 < 10 \<and> unat b mod 16 < 10"

definition bcd_value :: "u8 \<Rightarrow> nat" where
  "bcd_value b = 10 * (unat b div 16) + unat b mod 16"

lemma bcd_halves: "unat (ucast (drop_bit 4 a) * 10 + ucast (b AND 0xf) :: u16) = 10 * (unat a div 16) + unat b mod 16"
  for a b :: u8
proof -
  have "b AND 0xf = take_bit 4 b" by (simp add: take_bit_eq_mask mask_eq_exp_minus_1)
  then have lo: "unat (b AND 0xf) = unat b mod 16" by (simp add: take_bit_eq_mod unat_mod)
  have hi: "unat (drop_bit 4 a) = unat a div 16" by (simp add: drop_bit_eq_div unat_div)
  have "unat a < 256" using unsigned_less [of a, where 'a = nat] by simp
  then have a: "unat a div 16 < 16" by (simp add: div_less_iff_less_mult)
  have "unat (ucast (drop_bit 4 a) :: u16) = unat a div 16" "unat (ucast (b AND 0xf) :: u16) = unat b mod 16"
    using a lo hi by (simp_all add: unsigned_ucast_eq take_bit_eq_mod unat_mod)
  then show ?thesis using a mod_less_divisor [of 16 "unat b"] by (simp add: unat_word_ariths)
qed

lemma from_bcd_stable:
  assumes "cmos_holds hw regs"
  shows "unat (fst (from_bcd_read hw r h)) = bcd_value (regs r)"
  using assms bcd_halves [of "regs r" "regs r"]
  by (simp add: from_bcd_read_def cmos_holds_def bcd_value_def Let_def split_beta)

text \<open>With clock registers that do not change during the handler and the update flag set, the
  clock's fields become the decimal values of the BCD registers.\<close>

theorem rtc_reads_registers:
  assumes "cmos_holds hw regs" and "regs 0x0c AND 0x10 \<noteq> 0" and "bcd_ok (regs 0x09)"
  shows "\<exists>dt' h'. rtc_irq_handler hw dt h = (dt', h') \<and> unat (sec dt') = bcd_value (regs 0x00)
    \<and> unat (minute dt') = bcd_value (regs 0x02) \<and> unat (hour dt') = bcd_value (regs 0x04)
    \<and> unat (day dt') = bcd_value (regs 0x07) \<and> unat (mnth dt') = bcd_value (regs 0x08)
    \<and> unat (year dt') = 2000 + bcd_value (regs 0x09)"
proof -
  have c: "fst (read_cmos hw 0x0c h) = regs 0x0c"
    using assms(1) by (simp add: cmos_holds_def)
  note f = from_bcd_stable [OF assms(1)]
  have y: "unat (2000 + fst (from_bcd_read hw 0x09 k)) = 2000 + bcd_value (regs 0x09)" for k
  proof -
    have "bcd_value (regs 0x09) < 100" using assms(3) by (simp add: bcd_ok_def bcd_value_def)
    then show ?thesis using f [of "0x09" k] by (simp add: unat_word_ariths)
  qed
  show ?thesis
    using c assms(2) f y by (simp add: rtc_irq_handler_def rtc_update_def Let_def split_beta)
qed


definition demo_clock :: "u8 \<Rightarrow> u8" where
  "demo_clock r = (if r = 0x0c then 0x10 else if r = 0x09 then 0x24 else if r = 0x08 then 0x12 else 0x31)"

text \<open>Hardware that answers a data read from the register selected last.\<close>

definition demo_cmos :: hardware where
  "demo_cmos h p = (if h = [] then 0 else case last h of Wr8 q v \<Rightarrow> ucast (demo_clock (v AND 0x7f)) | _ \<Rightarrow> 0)"

theorem rtc_reads_registers_witness:
  "\<exists>dt' h'. rtc_irq_handler demo_cmos \<lparr>year = 0, mnth = 0, day = 0, hour = 0, minute = 0, sec = 0\<rparr> [] = (dt', h')
     \<and> unat (year dt') = 2024 \<and> unat (mnth dt') = 12 \<and> unat (sec dt') = 31"
proof -
  have "(0x80 OR r) AND 0x7f = r AND 0x7f" for r :: u8 by (simp add: bit.conj_disj_distrib2)
  moreover have "ucast (ucast x :: u32) = x" for x :: u8 by (rule bit_word_eqI) (simp add: bit_simps)
  ultimately have c: "cmos_holds demo_cmos (\<lambda>r. demo_clock (r AND 0x7f))"
    by (simp add: cmos_holds_def read_cmos_def inb_def outb_def demo_cmos_def Let_def)
  from rtc_reads_registers [OF c] show ?thesis
    by (fastforce simp: demo_clock_def bcd_ok_def bcd_value_def)
qed

text \<open>A field read while its register changes is wrong by more than the change: tens and units
  come from two different reads, so a step from 09 to 10 in between yields 0.\<close>

theorem rtc_torn_read:
  assumes "fst (read_cmos hw r h) = 0x09" and "fst (read_cmos hw r (snd (read_cmos hw r h))) = 0x10"
  shows "fst (from_bcd_read hw r h) = 0"
  using assms by (simp add: from_bcd_read_def Let_def split_beta)

theorem rtc_torn_read_witness:
  "fst (from_bcd_read (\<lambda>h p. if length h \<le> 1 then 0x09 else 0x10) 0x00 []) = 0"
  by (rule rtc_torn_read) (simp_all add: read_cmos_def inb_def outb_def Let_def)

lemma timer_init_divisor:
  assumes "18 < hz"
  shows "\<exists>t' h' lo hi. timer_init hz t h = Inr (t', h') \<and> t' 32 = Some Timer_irq_handler
    \<and> sent 0x40 h' = sent 0x40 h @ [lo, hi] \<and> 256 * uint hi + uint lo = 1193180 div hz"
proof -
  let ?d = "1193180 div hz"
  have "?d \<le> 1193180 div 19" using assms by (intro zdiv_mono2) auto
  then have d: "0 \<le> ?d" "?d < 65536" using assms by (simp_all add: pos_imp_zdiv_nonneg_iff)
  then have "0 \<le> ?d div 256" "?d div 256 < 256" by auto
  then have hi: "uint (word_of_int (?d div 256) :: u8) = ?d div 256" by (simp add: uint_word_of_int)
  have lo: "uint (word_of_int ?d :: u8) = ?d mod 256" by (simp add: uint_word_of_int)
  have h: "timer_init hz t h = Inr (int_install_handler 32 Timer_irq_handler t,
      outb 0x40 (word_of_int (?d div 256)) (outb 0x40 (word_of_int ?d) (outb 0x43 0x36 h)))"
    using assms by (simp add: timer_init_def Let_def)
  show ?thesis
    by (intro exI [of _ "word_of_int ?d :: u8"] exI [of _ "word_of_int (?d div 256) :: u8"] exI conjI, rule h)
      (simp_all add: int_install_handler_def hi lo)
qed

end
