(* ===== verification/Desc_tbls.thy ===== *)
theory Desc_tbls
  imports Kio
begin

unbundle bit_operations_syntax

text \<open>
  Descriptor tables, kernel/cpu/gdt.c, idt.c and tss.c. The tables are arrays of records; loading
  them into the processor is recorded as the values of the table registers and the task register.
  The addresses of the assembly stubs, of the tables and of the task segment are arguments.
  \<open>gate_base\<close>, \<open>seg_base\<close> and \<open>seg_limit\<close> read a descriptor the way the processor does.
\<close>

section \<open>State and operations\<close>

record gdt_descr_t =
  limit_low :: u16
  base_low :: u16
  base_middle :: u8
  gd_access :: u8
  granularity :: u8
  base_high :: u8

record idt_descr_t =
  id_base_low :: u16
  seg_sel :: u16
  id_zero :: u8
  id_flags :: u8
  id_base_high :: u16

record tss_entry_t =
  esp0 :: u32
  ss0 :: u16
  tss_cs :: u16
  tss_ds :: u16
  tss_es :: u16
  tss_fs :: u16
  tss_gs :: u16
  tss_ss :: u16

record cpu_tables =
  gdt :: "u16 \<Rightarrow> gdt_descr_t"
  idt :: "u8 \<Rightarrow> idt_descr_t"
  tss :: tss_entry_t
  gdtr :: "u16 \<times> u32"
  idtr :: "u16 \<times> u32"
  task_register :: u16
  code_seg :: u16
  data_segs :: u16
  interrupts_on :: bool

definition gdt_set_descr :: "u16 \<Rightarrow> u32 \<Rightarrow> u32 \<Rightarrow> u8 \<Rightarrow> u8 \<Rightarrow> cpu_tables \<Rightarrow> cpu_tables" where
  "gdt_set_descr index base limit acc gran s =
     s\<lparr>gdt := (gdt s)(index := \<lparr>limit_low = ucast (limit AND 0xFFFF), base_low = ucast (base AND 0xFFFF),
       base_middle = ucast (drop_bit 16 base AND 0xFF), gd_access = acc,
       granularity = ucast (drop_bit 16 limit AND 0x0F) OR (gran AND 0xF0),
       base_high = ucast (drop_bit 24 base AND 0xFF)\<rparr>)\<rparr>"

text \<open>The selectors of the kernel's code and data segments are loaded with the table; the stack segment is not.\<close>

definition gdt_set :: "u16 \<times> u32 \<Rightarrow> cpu_tables \<Rightarrow> cpu_tables" where
  "gdt_set p s = s\<lparr>gdtr := p, data_segs := 0x10, code_seg := 0x08\<rparr>"

definition gdt_init :: "u32 \<Rightarrow> cpu_tables \<Rightarrow> cpu_tables" where
  "gdt_init gdt_addr s =
     (let s = gdt_set_descr 0 0 0 0 0 s;
          s = gdt_set_descr 1 0 0xFFFFFFFF 0x9A 0xCF s;
          s = gdt_set_descr 2 0 0xFFFFFFFF 0x92 0xCF s;
          s = gdt_set_descr 3 0 0xFFFFFFFF 0xFA 0xCF s;
          s = gdt_set_descr 4 0 0xFFFFFFFF 0xF2 0xCF s
      in gdt_set (6 * 8 - 1, gdt_addr) s)"

definition idt_set_descr :: "u8 \<Rightarrow> u32 \<Rightarrow> u8 \<Rightarrow> cpu_tables \<Rightarrow> cpu_tables" where
  "idt_set_descr num base flags s =
     s\<lparr>idt := (idt s)(num := \<lparr>id_base_low = ucast (base AND 0xffff), seg_sel = 0x08, id_zero = 0,
       id_flags = flags, id_base_high = ucast (drop_bit 16 base AND 0xffff)\<rparr>)\<rparr>"

definition pic_init :: "io \<Rightarrow> io" where
  "pic_init h = fold (\<lambda>(p, v). outb p v) [(0x20, 0x11), (0xA0, 0x11), (0x21, 0x20), (0xA1, 0x28), (0x21, 0x04),
     (0xA1, 0x02), (0x21, 0x01), (0xA1, 0x01), (0x21, 0x00), (0xA1, 0x00)] h"

text \<open>\<open>stub n\<close> is the address of the entry stub for vector \<open>n\<close> (isr or irq) in interrupt.asm.\<close>

definition idt_vectors :: "nat list" where
  "idt_vectors = [0..<32] @ [127] @ [32..<48]"

definition idt_set :: "u16 \<times> u32 \<Rightarrow> cpu_tables \<Rightarrow> cpu_tables" where
  "idt_set p s = s\<lparr>idtr := p\<rparr>"

definition idt_init :: "u32 \<Rightarrow> (nat \<Rightarrow> u32) \<Rightarrow> cpu_tables \<Rightarrow> io \<Rightarrow> cpu_tables \<times> io" where
  "idt_init idt_addr stub s h =
     (let s = s\<lparr>idt := \<lambda>_. \<lparr>id_base_low = 0, seg_sel = 0, id_zero = 0, id_flags = 0, id_base_high = 0\<rparr>\<rparr>;
          h = pic_init h;
          s = fold (\<lambda>n. idt_set_descr (of_nat n) (stub n) 0x8E) idt_vectors s
      in ((idt_set (8 * 256 - 1, idt_addr) s)\<lparr>interrupts_on := True\<rparr>, h))"

definition tss_flush :: "u16 \<Rightarrow> cpu_tables \<Rightarrow> cpu_tables" where
  "tss_flush index s = s\<lparr>task_register := index * 8\<rparr>"

definition tss_init :: "u32 \<Rightarrow> u32 \<Rightarrow> u32 \<Rightarrow> u32 \<Rightarrow> cpu_tables \<Rightarrow> cpu_tables" where
  "tss_init tss_addr index kss kesp s =
     (let s = gdt_set_descr (ucast index) tss_addr (tss_addr + 104) 0xe9 0 s
      in tss_flush (ucast index) (s\<lparr>tss := \<lparr>esp0 = kesp, ss0 = ucast kss, tss_cs = 0x0b, tss_ds = 0x13, tss_es = 0x13, tss_fs = 0x13,
             tss_gs = 0x13, tss_ss = 0x13\<rparr>\<rparr>))"

definition tss_set_stack :: "u32 \<Rightarrow> u32 \<Rightarrow> cpu_tables \<Rightarrow> cpu_tables" where
  "tss_set_stack kss kesp s = s\<lparr>tss := (tss s)\<lparr>ss0 := ucast kss, esp0 := kesp\<rparr>\<rparr>"

section \<open>How the processor reads descriptors\<close>

definition seg_base :: "gdt_descr_t \<Rightarrow> u32" where
  "seg_base d = ucast (base_low d) OR push_bit 16 (ucast (base_middle d)) OR push_bit 24 (ucast (base_high d))"

definition seg_limit :: "gdt_descr_t \<Rightarrow> u32" where
  "seg_limit d = ucast (limit_low d) OR push_bit 16 (ucast (granularity d AND 0x0F))"

definition gate_base :: "idt_descr_t \<Rightarrow> u32" where
  "gate_base d = ucast (id_base_low d) OR push_bit 16 (ucast (id_base_high d))"

text \<open>Loading a register changes no table.\<close>

lemma table_loads [simp]:
  "gdt (gdt_set p s) = gdt s" "idt (gdt_set p s) = idt s" "tss (gdt_set p s) = tss s" "interrupts_on (gdt_set p s) = interrupts_on s"
  "gdt (idt_set p s) = gdt s" "idt (idt_set p s) = idt s" "tss (idt_set p s) = tss s" "interrupts_on (idt_set p s) = interrupts_on s"
  "gdt (tss_flush i s) = gdt s" "idt (tss_flush i s) = idt s" "tss (tss_flush i s) = tss s" "interrupts_on (tss_flush i s) = interrupts_on s"
  "gdtr (gdt_set p s) = p" "idtr (idt_set p s) = p" "task_register (tss_flush i s) = i * 8"
  by (simp_all add: gdt_set_def idt_set_def tss_flush_def)

lemma masks: "(0xFFFF :: u32) = mask 16" "(0xFF :: u32) = mask 8" "(0x0F :: u32) = mask 4" "(0x0F :: u8) = mask 4"
    "(0xF0 :: u8) = push_bit 4 (mask 4)"
  by (simp_all add: mask_eq_exp_minus_1)

lemma seg_base_set [simp]: "seg_base (gdt (gdt_set_descr i base limit acc gran s) i) = base"
proof (rule bit_word_eqI)
  fix n assume "n < LENGTH(32)"
  then consider "n < 16" | "16 \<le> n" "n < 24" | "24 \<le> n" "n < 32" by fastforce
  then show "bit (seg_base (gdt (gdt_set_descr i base limit acc gran s) i)) n = bit base n"
    by cases (auto simp: seg_base_def gdt_set_descr_def masks bit_simps)
qed

lemma seg_limit_set [simp]: "seg_limit (gdt (gdt_set_descr i base limit acc gran s) i) = take_bit 20 limit"
  by (rule bit_word_eqI) (auto simp: seg_limit_def gdt_set_descr_def masks bit_simps)

lemma gate_base_set [simp]: "gate_base (idt (idt_set_descr n base flags s) n) = base"
  by (rule bit_word_eqI) (auto simp: gate_base_def idt_set_descr_def masks bit_simps)


lemma fold_idt:
  "distinct ns \<Longrightarrow> (\<forall>n \<in> set ns. n < 256) \<Longrightarrow>
     idt (fold (\<lambda>n. idt_set_descr (of_nat n) (stub n) 0x8E) ns s) v =
       (if unat v \<in> set ns then idt (idt_set_descr v (stub (unat v)) 0x8E s) v else idt s v)"
proof (induction ns arbitrary: s)
  case (Cons m ns)
  have m: "of_nat m = v \<longleftrightarrow> unat v = m" using Cons.prems(2) by (auto simp: unat_of_nat take_bit_eq_mod)
  have "unat v \<noteq> m" if "unat v \<in> set ns" using that Cons.prems(1) by auto
  then show ?case using Cons.IH Cons.prems m by (auto simp: idt_set_descr_def)
qed simp

section \<open>Properties\<close>

lemma idt_init_gates:
  "idt_init idt_addr stub s h = (s', h') \<Longrightarrow>
     (\<forall>v. if unat v < 48 \<or> v = 127
          then gate_base (idt s' v) = stub (unat v) \<and> id_flags (idt s' v) = 0x8E \<and> seg_sel (idt s' v) = 0x08
            \<and> drop_bit 5 (id_flags (idt s' v)) AND 3 = 0
          else id_flags (idt s' v) = 0)
     \<and> interrupts_on s' \<and> sent 0x21 h' = sent 0x21 h @ [0x20, 0x04, 0x01, 0x00]"
proof -
  assume i: "idt_init idt_addr stub s h = (s', h')"
  let ?z = "s\<lparr>idt := \<lambda>_. \<lparr>id_base_low = 0, seg_sel = 0, id_zero = 0, id_flags = 0, id_base_high = 0\<rparr>\<rparr>"
  have d: "distinct idt_vectors" "\<forall>n \<in> set idt_vectors. n < 256" by (auto simp: idt_vectors_def)
  have m: "unat v \<in> set idt_vectors \<longleftrightarrow> unat v < 48 \<or> v = 127" for v :: u8
  proof -
    have "v = 127 \<longleftrightarrow> unat v = 127" by (simp add: word_unat_eq_iff)
    then show ?thesis unfolding idt_vectors_def set_append set_upt list.set Un_iff insert_iff atLeastLessThan_iff by auto
  qed
  have s': "idt s' v = (if unat v \<in> set idt_vectors then idt (idt_set_descr v (stub (unat v)) 0x8E ?z) v else idt ?z v)" for v
    using i fold_idt [OF d, of stub ?z v] by (auto simp: idt_init_def Let_def)
  have "gate_base (idt s' v) = stub (unat v) \<and> id_flags (idt s' v) = 0x8E \<and> seg_sel (idt s' v) = 0x08"
    if "unat v < 48 \<or> v = 127" for v
    using that gate_base_set [of v "stub (unat v)" "0x8E" ?z] s' [of v] m [of v] by (simp add: idt_set_descr_def)
  moreover have "id_flags (idt s' v) = 0" if "\<not> (unat v < 48 \<or> v = 127)" for v
    using that s' [of v] m [of v] by simp
  moreover have "interrupts_on s'" "sent 0x21 h' = sent 0x21 h @ [0x20, 0x04, 0x01, 0x00]"
    using i by (auto simp: idt_init_def pic_init_def Let_def)
  ultimately show ?thesis by auto
qed

text \<open>\<open>idt_init\<close> routes every exception, interrupt and the system-call vector to its stub and
  leaves all other vectors absent. All gates have privilege level 0, the one of vector 127 too,
  so a software interrupt 127 from user mode is refused by the processor.\<close>

theorem idt_init_routes_vectors:
  "idt_init idt_addr stub s h = (s', h') \<Longrightarrow>
     (\<forall>v. if unat v < 48 \<or> v = 127
          then gate_base (idt s' v) = stub (unat v) \<and> id_flags (idt s' v) = 0x8E \<and> seg_sel (idt s' v) = 0x08
            \<and> drop_bit 5 (id_flags (idt s' v)) AND 3 = 0
          else id_flags (idt s' v) = 0)
     \<and> interrupts_on s' \<and> sent 0x21 h' = sent 0x21 h @ [0x20, 0x04, 0x01, 0x00]"
  by (rule idt_init_gates)

definition demo_tables :: cpu_tables where
  "demo_tables = \<lparr>gdt = \<lambda>_. \<lparr>limit_low = 0, base_low = 0, base_middle = 0, gd_access = 0, granularity = 0, base_high = 0\<rparr>,
     idt = \<lambda>_. \<lparr>id_base_low = 1, seg_sel = 1, id_zero = 1, id_flags = 1, id_base_high = 1\<rparr>,
     tss = \<lparr>esp0 = 0, ss0 = 0, tss_cs = 0, tss_ds = 0, tss_es = 0, tss_fs = 0, tss_gs = 0, tss_ss = 0\<rparr>,
     gdtr = (0, 0), idtr = (0, 0), task_register = 0, code_seg = 0, data_segs = 0, interrupts_on = False\<rparr>"

theorem idt_init_routes_vectors_witness:
  "\<exists>s' h'. idt_init 0xc0108000 (\<lambda>n. 0xc0100000 + 16 * of_nat n) demo_tables [] = (s', h')
     \<and> gate_base (idt s' 14) = 0xc01000e0 \<and> id_flags (idt s' 127) = 0x8E \<and> id_flags (idt s' 128) = 0"
proof -
  obtain s' h' where i: "idt_init 0xc0108000 (\<lambda>n. 0xc0100000 + 16 * of_nat n) demo_tables [] = (s', h')" by fastforce
  from idt_init_routes_vectors [OF i] have
    "\<And>v. if unat v < 48 \<or> v = 127 then gate_base (idt s' v) = 0xc0100000 + 16 * of_nat (unat v) \<and> id_flags (idt s' v) = 0x8E
       else id_flags (idt s' v) = 0" by presburger
  from this [of 14] this [of 127] this [of 128] i show ?thesis by auto
qed

text \<open>\<open>gdt_init\<close> builds flat 4 GB segments: base 0, limit 0xfffff in pages, kernel code and
  data at level 0, user code and data at level 3. \<open>tss_init\<close> gives the task segment the right base
  but a limit taken from the segment's end address instead of its size.\<close>

theorem gdt_flat_tss_limit:
  "\<exists>s'. s' = tss_init tss_addr 5 kss kesp (gdt_init gdt_addr s)
    \<and> (\<forall>i \<in> {1, 2, 3, 4}. seg_base (gdt s' i) = 0 \<and> seg_limit (gdt s' i) = 0xfffff \<and> bit (granularity (gdt s' i)) 7)
    \<and> drop_bit 5 (gd_access (gdt s' 1)) AND 3 = 0 \<and> drop_bit 5 (gd_access (gdt s' 2)) AND 3 = 0
    \<and> drop_bit 5 (gd_access (gdt s' 3)) AND 3 = 3 \<and> drop_bit 5 (gd_access (gdt s' 4)) AND 3 = 3
    \<and> seg_base (gdt s' 5) = tss_addr \<and> seg_limit (gdt s' 5) = take_bit 20 (tss_addr + 104)
    \<and> esp0 (tss s') = kesp \<and> task_register s' = 40"
proof -
  let ?g = "gdt_init gdt_addr s" and ?s' = "tss_init tss_addr 5 kss kesp (gdt_init gdt_addr s)"
  have g: "gdt ?s' i = gdt ?g i" if "i \<in> {1, 2, 3, 4}" for i
    using that by (auto simp: tss_init_def gdt_set_descr_def)
  have t: "gdt ?s' 5 = gdt (gdt_set_descr 5 tss_addr (tss_addr + 104) 0xe9 0 ?g) 5" by (simp add: tss_init_def)
  have "seg_base (gdt ?g i) = 0 \<and> seg_limit (gdt ?g i) = 0xfffff \<and> bit (granularity (gdt ?g i)) 7" if "i \<in> {1, 2, 3, 4}" for i
    using that by (auto simp: gdt_init_def gdt_set_descr_def seg_base_def seg_limit_def)
  moreover have "drop_bit 5 (gd_access (gdt ?g 1)) AND 3 = 0" "drop_bit 5 (gd_access (gdt ?g 2)) AND 3 = 0"
    "drop_bit 5 (gd_access (gdt ?g 3)) AND 3 = 3" "drop_bit 5 (gd_access (gdt ?g 4)) AND 3 = 3"
    by (simp_all add: gdt_init_def gdt_set_descr_def)
  moreover have "seg_base (gdt ?s' 5) = tss_addr" "seg_limit (gdt ?s' 5) = take_bit 20 (tss_addr + 104)"
    unfolding t by simp_all
  moreover have "esp0 (tss ?s') = kesp" "task_register ?s' = 40" by (simp_all add: tss_init_def Let_def)
  ultimately show ?thesis using g by (intro exI [of _ ?s']) simp
qed

end
