(* ===== verification/Spinlock.thy ===== *)
theory Spinlock
  imports Kprelude
begin

text \<open>
  Spin locks, kernel/sys/spinlock.c. \<open>spin_lock\<close> and \<open>spin_unlock\<close> are the operations as one thread
  sees them when no other runs: a held lock is waited for forever. The step relation interleaves
  any number of threads, each exchange being atomic; \<open>stray\<close> is a thread that releases the lock
  without holding it, as \<open>rootfs_readdir\<close> does.
\<close>

type_synonym spinlock_t = u32

definition test_and_set :: "spinlock_t \<Rightarrow> u32 \<times> spinlock_t" where
  "test_and_set l = (l, 1)"

definition spin_lock :: "spinlock_t \<Rightarrow> spinlock_t option" where
  "spin_lock l = (let (old, l) = test_and_set l in if old = 0 then Some l else None)"

definition spin_unlock :: "spinlock_t \<Rightarrow> spinlock_t" where
  "spin_unlock l = 0"

section \<open>Interleaving\<close>

datatype pc = Idle | Trying | Critical

record threads =
  pcs :: "nat \<Rightarrow> pc"
  lockw :: spinlock_t

inductive lock_step :: "threads \<Rightarrow> threads \<Rightarrow> bool" where
  start: "pcs s t = Idle \<Longrightarrow> lock_step s (s\<lparr>pcs := (pcs s)(t := Trying)\<rparr>)"
| spin: "pcs s t = Trying \<Longrightarrow> test_and_set (lockw s) = (old, l) \<Longrightarrow> old \<noteq> 0 \<Longrightarrow> lock_step s (s\<lparr>lockw := l\<rparr>)"
| enter: "pcs s t = Trying \<Longrightarrow> test_and_set (lockw s) = (0, l) \<Longrightarrow>
    lock_step s (s\<lparr>lockw := l, pcs := (pcs s)(t := Critical)\<rparr>)"
| leave: "pcs s t = Critical \<Longrightarrow> lock_step s (s\<lparr>lockw := spin_unlock (lockw s), pcs := (pcs s)(t := Idle)\<rparr>)"

definition lock_reach :: "threads \<Rightarrow> bool" where
  "lock_reach s \<longleftrightarrow> lock_step\<^sup>*\<^sup>* \<lparr>pcs = \<lambda>_. Idle, lockw = 0\<rparr> s"

lemma lock_reach_intros:
  "lock_reach \<lparr>pcs = \<lambda>_. Idle, lockw = 0\<rparr>" "lock_reach s \<Longrightarrow> lock_step s s' \<Longrightarrow> lock_reach s'"
  by (simp_all add: lock_reach_def)

inductive_cases lock_stepE: "lock_step s s'"

definition lock_inv :: "threads \<Rightarrow> bool" where
  "lock_inv s \<longleftrightarrow> (\<forall>t u. pcs s t = Critical \<longrightarrow> pcs s u = Critical \<longrightarrow> t = u)
     \<and> ((\<exists>t. pcs s t = Critical) \<longleftrightarrow> lockw s \<noteq> 0)"

lemma lock_inv_step:
  assumes "lock_step s s'" and "lock_inv s"
  shows "lock_inv s'"
  using assms
proof (cases rule: lock_step.cases)
  case (leave t)
  then have "pcs s u \<noteq> Critical" if "u \<noteq> t" for u using assms(2) that by (auto simp: lock_inv_def)
  with leave show ?thesis by (auto simp: lock_inv_def spin_unlock_def)
next
  case (start t)
  then have "pcs s' u = Critical \<longleftrightarrow> pcs s u = Critical" for u by auto
  with start assms(2) show ?thesis by (simp add: lock_inv_def)
qed (use assms(2) in \<open>auto simp: lock_inv_def test_and_set_def split: if_splits\<close>)

interpretation lock_steps: step_invariant lock_step lock_inv
  by unfold_locales (rule lock_inv_step)

lemma lock_reach_inv: "lock_reach s \<Longrightarrow> lock_inv s"
  unfolding lock_reach_def by (erule lock_steps.inv_steps) (simp add: lock_inv_def)

section \<open>Properties\<close>

text \<open>C17: threads that take the lock before the critical section and release it after exclude one
  another: in every reachable interleaving at most one thread is in the critical section, and the
  lock word is set exactly while one is.\<close>

theorem spinlock_mutual_exclusion:
  assumes "lock_reach s" and "pcs s t = Critical"
  shows "lockw s \<noteq> 0 \<and> (\<forall>u. pcs s u = Critical \<longrightarrow> u = t)"
  using lock_reach_inv [OF assms(1)] assms(2) by (auto simp: lock_inv_def)

lemma reach_critical: "lock_reach \<lparr>pcs = (\<lambda>_. Idle)(0 := Critical), lockw = 1\<rparr>"
proof -
  have a: "lock_reach \<lparr>pcs = (\<lambda>_. Idle)(0 := Trying), lockw = 0\<rparr>"
    using lock_reach_intros(2) [OF lock_reach_intros(1) lock_step.start [of _ 0]] by simp
  have "lock_step \<lparr>pcs = (\<lambda>_. Idle)(0 := Trying), lockw = 0\<rparr> \<lparr>pcs = (\<lambda>_. Idle)(0 := Critical), lockw = 1\<rparr>"
    using lock_step.enter [of "\<lparr>pcs = (\<lambda>_. Idle)(0 := Trying), lockw = 0\<rparr>" 0 1] by (simp add: test_and_set_def)
  with a show ?thesis by (rule lock_reach_intros(2))
qed

theorem spinlock_mutual_exclusion_witness:
  "lockw \<lparr>pcs = (\<lambda>_. Idle)(0 := Critical), lockw = 1\<rparr> \<noteq> 0"
  using spinlock_mutual_exclusion [OF reach_critical, of 0] by simp

text \<open>One release without a matching acquisition breaks the exclusion: from any reachable state
  with a thread in the critical section and another one waiting, releasing the lock word lets the
  second thread in.\<close>

theorem stray_unlock_breaks_exclusion:
  assumes "lock_reach s" and "pcs s t = Critical" and "pcs s u = Trying"
  shows "\<exists>s'. lock_step (s\<lparr>lockw := spin_unlock (lockw s)\<rparr>) s' \<and> pcs s' t = Critical \<and> pcs s' u = Critical \<and> t \<noteq> u"
proof -
  let ?s = "s\<lparr>lockw := spin_unlock (lockw s)\<rparr>"
  have "lock_step ?s (?s\<lparr>lockw := 1, pcs := (pcs ?s)(u := Critical)\<rparr>)"
    by (rule lock_step.enter) (use assms(3) in \<open>simp_all add: test_and_set_def spin_unlock_def\<close>)
  moreover have "t \<noteq> u" using assms by auto
  ultimately show ?thesis using assms(2) by (intro exI [of _ "?s\<lparr>lockw := 1, pcs := (pcs ?s)(u := Critical)\<rparr>"]) simp
qed

theorem stray_unlock_breaks_exclusion_witness:
  "\<exists>s s'. lock_reach s \<and> lock_step (s\<lparr>lockw := spin_unlock (lockw s)\<rparr>) s' \<and> pcs s' 0 = Critical \<and> pcs s' 1 = Critical"
proof -
  let ?s = "\<lparr>pcs = (\<lambda>_. Idle)(0 := Critical, 1 := Trying), lockw = 1\<rparr>"
  have "lock_step \<lparr>pcs = (\<lambda>_. Idle)(0 := Critical), lockw = 1\<rparr> ?s"
    using lock_step.start [of "\<lparr>pcs = (\<lambda>_. Idle)(0 := Critical), lockw = 1\<rparr>" 1] by simp
  then have r: "lock_reach ?s" by (rule lock_reach_intros(2) [OF reach_critical])
  from stray_unlock_breaks_exclusion [OF r, of 0 1] r show ?thesis by (rule_tac exI [of _ ?s]) auto
qed

end
