(* ===== verification/Fs.thy ===== *)
theory Fs
  imports Dlists Spinlock Serial Rtc "HOL-Library.Monad_Syntax"
begin

text \<open>
  File system nodes, the root file system and the device file system: include/fs/fs.h,
  kernel/fs/rootfs.c and devfs.c. A function pointer of a node is one of the kernel's operations;
  names are strings without a terminating zero, compared for equality, which theory \<open>Kstring\<close>
  justifies for \<open>strcmp\<close>. Addresses that the heap returned are arguments: \<open>cell\<close> for list cells,
  \<open>nd\<close> for nodes. A node from \<open>kmalloc\<close> keeps the bytes it had in the fields that are not assigned.
  \<open>None\<close> is a call that waits for a lock forever or walks an endless list. The locale
  \<open>name_registry\<close> is what the callers of a register and lookup pair rely on.
\<close>

section \<open>State\<close>

datatype fs_op = Rootfs_readdir | Rootfs_finddir | Devfs_readdir | Devfs_finddir
  | Tarfs_read | Tarfs_readdir | Tarfs_finddir | Read_com | Write_com | Read_null | Write_null
  | Read_port | Write_port | Read_random | Write_random

record fs_node_t =
  fs_name :: string
  fs_flags :: u32
  fs_inode :: u32
  fs_length :: u32
  fs_atime :: u32
  fs_ctime :: u32
  fs_open :: "fs_op option"
  fs_close :: "fs_op option"
  fs_read :: "fs_op option"
  fs_write :: "fs_op option"
  fs_readdir :: "fs_op option"
  fs_finddir :: "fs_op option"
  fs_ioctl :: "fs_op option"

record dirent =
  d_name :: string
  d_flags :: u32
  d_inode :: u32
  d_offset :: u32

record fsys =
  fnodes :: "ptr \<Rightarrow> fs_node_t"
  flists :: lstore
  fs_root :: ptr
  root_nodes :: ptr
  rootfs_lock :: spinlock_t
  root_files :: u32
  devlist :: ptr
  devfs_lock :: spinlock_t
  devfs_dirent :: ptr
  dirents :: "ptr \<Rightarrow> dirent"
  fclock :: time_t
  fmem :: mem
  com_lock :: spinlock_t
  fserial :: serial
  fio :: io
  rand_Q :: "u32 \<Rightarrow> u32"
  rand_c :: u32
  rand_i :: u32
  headers :: "u32 \<Rightarrow> ptr"
  tarfs_files :: u32
  tarfs_root :: ptr

definition zero_node :: fs_node_t where
  "zero_node = \<lparr>fs_name = '''', fs_flags = 0, fs_inode = 0, fs_length = 0, fs_atime = 0, fs_ctime = 0, fs_open = None,
     fs_close = None, fs_read = None, fs_write = None, fs_readdir = None, fs_finddir = None, fs_ioctl = None\<rparr>"

section \<open>The root file system\<close>

definition find_name :: "ptr \<Rightarrow> string \<Rightarrow> fsys \<Rightarrow> ptr option" where
  "find_name l name s =
     map_option (\<lambda>cell. if cell = NULL then NULL else n_value (flists s) cell)
       (foreach_node (\<lambda>v. name = fs_name (fnodes s v)) (l_head (flists s) l) (flists s))"

text \<open>
  The first part reads the list without the lock; the release at the end happens all the same.
  \<open>d\<close> is what \<open>kmalloc\<close> returned.
\<close>

definition rootfs_readdir :: "ptr \<Rightarrow> u32 \<Rightarrow> fsys \<Rightarrow> (ptr \<times> fsys) option" where
  "rootfs_readdir d index s =
     (if root_files s \<le> index then Some (NULL, s)
      else Option.bind (list_get_node_by_index (root_nodes s) index (flists s)) (\<lambda>entry.
        let rnode = n_value (flists s) entry
        in if rnode \<noteq> NULL then
             if d = NULL then Some (NULL, s)
             else Some (d, s\<lparr>dirents := (dirents s)(d := (dirents s d)\<lparr>d_name := fs_name (fnodes s rnode),
                      d_inode := rnode, d_offset := index, d_flags := fs_flags (fnodes s rnode)\<rparr>),
                    rootfs_lock := spin_unlock (rootfs_lock s)\<rparr>)
           else Some (NULL, s\<lparr>rootfs_lock := spin_unlock (rootfs_lock s)\<rparr>)))"

definition rootfs_finddir :: "string \<Rightarrow> fsys \<Rightarrow> (ptr \<times> fsys) option" where
  "rootfs_finddir name s =
     Option.bind (spin_lock (rootfs_lock s)) (\<lambda>lk.
     Option.bind (find_name (root_nodes s) name s) (\<lambda>result.
       Some (result, s\<lparr>rootfs_lock := spin_unlock lk\<rparr>)))"

definition fs_register :: "ptr \<Rightarrow> ptr \<Rightarrow> fsys \<Rightarrow> fsys option" where
  "fs_register cell node s =
     Option.bind (spin_lock (rootfs_lock s)) (\<lambda>lk.
     Option.bind (find_name (root_nodes s) (fs_name (fnodes s node)) s) (\<lambda>found.
       if found \<noteq> NULL then Some (s\<lparr>rootfs_lock := spin_unlock lk\<rparr>)
       else Some (s\<lparr>flists := list_insert_front cell (root_nodes s) node (flists s), root_files := root_files s + 1,
                     rootfs_lock := spin_unlock lk\<rparr>)))"

definition rootfs_init :: "ptr \<Rightarrow> ptr \<Rightarrow> fsys \<Rightarrow> ptr \<times> fsys" where
  "rootfs_init nd lst s =
     (nd, s\<lparr>fnodes := (fnodes s)(nd := zero_node\<lparr>fs_name := ''/'', fs_flags := 0x02 OR 0x08,
              fs_readdir := Some Rootfs_readdir, fs_finddir := Some Rootfs_finddir\<rparr>),
            root_nodes := lst, flists := list_create lst (flists s)\<rparr>)"

section \<open>The device file system\<close>

text \<open>The entry is written to the static \<open>devfs_dirent\<close>, a pointer that is never set.\<close>

definition devfs_readdir :: "u32 \<Rightarrow> fsys \<Rightarrow> (ptr \<times> fsys) option" where
  "devfs_readdir index s =
     Option.bind (spin_lock (devfs_lock s)) (\<lambda>lk.
     Option.bind (index_loop index 0 (l_head (flists s) (devlist s)) (flists s)) (\<lambda>cell.
       if cell = NULL then Some (NULL, s\<lparr>devfs_lock := spin_unlock lk\<rparr>)
       else Some (devfs_dirent s, s\<lparr>dirents := (dirents s)(devfs_dirent s := (dirents s (devfs_dirent s))
              \<lparr>d_name := fs_name (fnodes s (n_value (flists s) cell)), d_inode := index\<rparr>),
            devfs_lock := spin_unlock lk\<rparr>)))"

definition devfs_finddir :: "string \<Rightarrow> fsys \<Rightarrow> (ptr \<times> fsys) option" where
  "devfs_finddir name s =
     Option.bind (spin_lock (devfs_lock s)) (\<lambda>lk.
     Option.bind (find_name (devlist s) name s) (\<lambda>result.
       Some (result, s\<lparr>devfs_lock := spin_unlock lk\<rparr>)))"

definition devfs_register :: "ptr \<Rightarrow> ptr \<Rightarrow> fsys \<Rightarrow> fsys option" where
  "devfs_register cell device s =
     Option.bind (spin_lock (devfs_lock s)) (\<lambda>lk.
     Option.bind (find_name (devlist s) (fs_name (fnodes s device)) s) (\<lambda>found.
       if found \<noteq> NULL then Some (s\<lparr>devfs_lock := spin_unlock lk\<rparr>)
       else Some (s\<lparr>flists := list_insert_front cell (devlist s) device (flists s), devfs_lock := spin_unlock lk\<rparr>)))"

section \<open>Registries\<close>

definition entries :: "fsys \<Rightarrow> ptr list \<Rightarrow> (string \<times> ptr) list" where
  "entries s ns = map (\<lambda>x. (fs_name (fnodes s (n_value (flists s) x)), n_value (flists s) x)) ns"

definition reg_list :: "ptr \<Rightarrow> fsys \<Rightarrow> (string \<times> ptr) list \<Rightarrow> bool" where
  "reg_list l s es \<longleftrightarrow> (\<exists>ns. dlist (flists s) l ns \<and> es = entries s ns) \<and> NULL \<notin> snd ` set es"

definition fresh_cell :: "ptr \<Rightarrow> ptr \<Rightarrow> fsys \<Rightarrow> bool" where
  "fresh_cell l cell s \<longleftrightarrow> cell \<noteq> NULL \<and> (\<forall>ns. dlist (flists s) l ns \<longrightarrow> cell \<notin> set ns \<and> length ns + 1 < 2 ^ 32)"

lemma map_of_entries:
  "map_of (entries s ns) n = map_option (n_value (flists s)) (find (\<lambda>x. n = fs_name (fnodes s (n_value (flists s) x))) ns)"
  by (induction ns) (auto simp: entries_def)

lemma find_name_map_of:
  assumes "reg_list l s es"
  shows "find_name l n s = Some (case map_of es n of None \<Rightarrow> NULL | Some v \<Rightarrow> v)"
proof -
  obtain ns where d: "dlist (flists s) l ns" "es = entries s ns" using assms by (auto simp: reg_list_def)
  let ?f = "find (\<lambda>x. n = fs_name (fnodes s (n_value (flists s) x))) ns"
  have seg: "dseg (flists s) NULL (l_head (flists s) l) ns NULL" using d by (simp add: dlist_def)
  have "x \<noteq> NULL" if "?f = Some x" for x
    using that dlist_nonnull [OF d(1)] by (auto simp: find_Some_iff)
  then show ?thesis
    using foreach_node_find [OF seg, of "\<lambda>v. n = fs_name (fnodes s v)"]
    by (cases ?f) (simp_all add: find_name_def d(2) map_of_entries)
qed

lemma reg_list_insert:
  assumes "reg_list l s es" and "fresh_cell l cell s" and "v \<noteq> NULL"
    and "fnodes s' = fnodes s" and "flists s' = list_insert_front cell l v (flists s)"
  shows "reg_list l s' ((fs_name (fnodes s v), v) # es)"
proof -
  obtain ns where d: "dlist (flists s) l ns" "es = entries s ns" using assms(1) by (auto simp: reg_list_def)
  have c: "cell \<noteq> NULL" "cell \<notin> set ns" "length ns + 1 < 2 ^ 32" using assms(2) d(1) by (auto simp: fresh_cell_def)
  note i = list_insert_front_ok [OF d(1) c, of v]
  have "entries s' (cell # ns) = (fs_name (fnodes s v), v) # es"
    using c(2) by (auto simp: entries_def d(2) assms(4,5) i(2))
  then show ?thesis
    using i(1) assms(1,3,5) unfolding reg_list_def by (intro conjI exI [of _ "cell # ns"]) auto
qed


text \<open>
  What a registry promises: \<open>reg s es\<close> says that state \<open>s\<close> holds the entries \<open>es\<close>. Registering an
  unused name puts the entry in front, registering a used one changes no entry, and a lookup
  returns the entry of the name.
\<close>

locale name_registry =
  fixes reg :: "'s \<Rightarrow> ('n \<times> 'v) list \<Rightarrow> bool"
    and register :: "'c \<Rightarrow> 'v \<Rightarrow> 's \<Rightarrow> 's option"
    and lookup :: "'n \<Rightarrow> 's \<Rightarrow> ('v option \<times> 's) option"
    and name_of :: "'s \<Rightarrow> 'v \<Rightarrow> 'n"
    and fresh :: "'c \<Rightarrow> 'v \<Rightarrow> 's \<Rightarrow> bool"
  assumes register_new: "reg s es \<Longrightarrow> fresh c v s \<Longrightarrow> map_of es (name_of s v) = None \<Longrightarrow>
      \<exists>s'. register c v s = Some s' \<and> reg s' ((name_of s v, v) # es)"
    and register_used: "reg s es \<Longrightarrow> map_of es (name_of s v) \<noteq> None \<Longrightarrow> \<exists>s'. register c v s = Some s' \<and> reg s' es"
    and lookup_entry: "reg s es \<Longrightarrow> \<exists>s'. lookup n s = Some (map_of es n, s') \<and> reg s' es"
begin

text \<open>The first registration of a name wins, and no other name is affected.\<close>

lemma register_then_lookup:
  assumes "reg s es" and "fresh c v s"
  shows "\<exists>s' s''. register c v s = Some s' \<and> lookup n s' =
    Some (if n = name_of s v \<and> map_of es n = None then Some v else map_of es n, s'')"
proof (cases "map_of es (name_of s v)")
  case None
  then obtain s' where s': "register c v s = Some s'" "reg s' ((name_of s v, v) # es)"
    using register_new [OF assms] by blast
  then obtain s'' where "lookup n s' = Some (map_of ((name_of s v, v) # es) n, s'')" using lookup_entry by blast
  with s' None show ?thesis by auto
next
  case (Some w)
  then obtain s' where s': "register c v s = Some s'" "reg s' es" using register_used [OF assms(1)] by blast
  then obtain s'' where "lookup n s' = Some (map_of es n, s'')" using lookup_entry by blast
  with s' Some show ?thesis by auto
qed

end

definition opt_ptr :: "(ptr \<times> fsys) option \<Rightarrow> (ptr option \<times> fsys) option" where
  "opt_ptr r = map_option (\<lambda>(p, s). (if p = NULL then None else Some p, s)) r"

lemma opt_ptr_Some: "opt_ptr r = Some (v, s) \<longleftrightarrow> (\<exists>p. r = Some (p, s) \<and> (if p = NULL then None else Some p) = v)"
  by (cases r) (auto simp: opt_ptr_def)

lemma spin_lock_free: "spin_lock 0 = Some 1"
  by (simp add: spin_lock_def test_and_set_def)

lemma entry_nonnull: "reg_list l s es \<Longrightarrow> map_of es n = Some v \<Longrightarrow> v \<noteq> NULL"
  unfolding reg_list_def by (metis map_of_SomeD image_eqI snd_conv)

lemma find_name_opt:
  assumes "reg_list l s es"
  shows "\<exists>p. find_name l n s = Some p \<and> (if p = NULL then None else Some p) = map_of es n"
proof (cases "map_of es n")
  case None
  then show ?thesis using find_name_map_of [OF assms, of n] by simp
next
  case (Some v)
  then show ?thesis using find_name_map_of [OF assms, of n] entry_nonnull [OF assms Some] by simp
qed

lemma reg_list_cong:
  "fnodes s' = fnodes s \<Longrightarrow> flists s' = flists s \<Longrightarrow> reg_list l s' es = reg_list l s es"
  by (simp add: reg_list_def entries_def)

definition root_reg :: "fsys \<Rightarrow> (string \<times> ptr) list \<Rightarrow> bool" where
  "root_reg s es \<longleftrightarrow> rootfs_lock s = 0 \<and> reg_list (root_nodes s) s es \<and> root_files s = of_nat (length es)"

definition dev_reg :: "fsys \<Rightarrow> (string \<times> ptr) list \<Rightarrow> bool" where
  "dev_reg s es \<longleftrightarrow> devfs_lock s = 0 \<and> reg_list (devlist s) s es"

interpretation rootfs: name_registry root_reg fs_register "\<lambda>n s. opt_ptr (rootfs_finddir n s)"
  "\<lambda>s v. fs_name (fnodes s v)" "\<lambda>c v s. fresh_cell (root_nodes s) c s \<and> v \<noteq> NULL"
proof unfold_locales
  fix s :: fsys and es c v
  assume r: "root_reg s es" and f: "fresh_cell (root_nodes s) c s \<and> v \<noteq> NULL"
    and n: "map_of es (fs_name (fnodes s v)) = None"
  have rl: "reg_list (root_nodes s) s es" and l0: "rootfs_lock s = 0" using r by (auto simp: root_reg_def)
  let ?s = "s\<lparr>flists := list_insert_front c (root_nodes s) v (flists s), root_files := root_files s + 1, rootfs_lock := 0\<rparr>"
  have "fs_register c v s = Some ?s"
    using find_name_map_of [OF rl] n by (simp add: fs_register_def l0 spin_lock_free spin_unlock_def)
  moreover have "reg_list (root_nodes s) ?s ((fs_name (fnodes s v), v) # es)"
    by (rule reg_list_insert [OF rl]) (use f in simp_all)
  ultimately show "\<exists>s'. fs_register c v s = Some s' \<and> root_reg s' ((fs_name (fnodes s v), v) # es)"
    using r by (auto simp: root_reg_def)
next
  fix s :: fsys and es c v
  assume r: "root_reg s es" and n: "map_of es (fs_name (fnodes s v)) \<noteq> None"
  have rl: "reg_list (root_nodes s) s es" and l0: "rootfs_lock s = 0" using r by (auto simp: root_reg_def)
  obtain w where w: "map_of es (fs_name (fnodes s v)) = Some w" using n by auto
  have "fs_register c v s = Some (s\<lparr>rootfs_lock := 0\<rparr>)"
    using find_name_map_of [OF rl] w entry_nonnull [OF rl w] by (simp add: fs_register_def l0 spin_lock_free spin_unlock_def)
  moreover have "root_reg (s\<lparr>rootfs_lock := 0\<rparr>) es" using r by (simp add: root_reg_def reg_list_cong [of "s\<lparr>rootfs_lock := 0\<rparr>" s])
  ultimately show "\<exists>s'. fs_register c v s = Some s' \<and> root_reg s' es" by blast
next
  fix s :: fsys and es n
  assume r: "root_reg s es"
  have rl: "reg_list (root_nodes s) s es" and l0: "rootfs_lock s = 0" using r by (auto simp: root_reg_def)
  obtain p where p: "find_name (root_nodes s) n s = Some p" "(if p = NULL then None else Some p) = map_of es n"
    using find_name_opt [OF rl] by blast
  have "opt_ptr (rootfs_finddir n s) = Some (map_of es n, s\<lparr>rootfs_lock := 0\<rparr>)"
    unfolding p(2) [symmetric] by (simp add: rootfs_finddir_def opt_ptr_def l0 spin_lock_free spin_unlock_def p(1))
  moreover have "root_reg (s\<lparr>rootfs_lock := 0\<rparr>) es" using r by (simp add: root_reg_def reg_list_cong [of "s\<lparr>rootfs_lock := 0\<rparr>" s])
  ultimately show "\<exists>s'. opt_ptr (rootfs_finddir n s) = Some (map_of es n, s') \<and> root_reg s' es" by blast
qed

interpretation devfs: name_registry dev_reg devfs_register "\<lambda>n s. opt_ptr (devfs_finddir n s)"
  "\<lambda>s v. fs_name (fnodes s v)" "\<lambda>c v s. fresh_cell (devlist s) c s \<and> v \<noteq> NULL"
proof unfold_locales
  fix s :: fsys and es c v
  assume r: "dev_reg s es" and f: "fresh_cell (devlist s) c s \<and> v \<noteq> NULL"
    and n: "map_of es (fs_name (fnodes s v)) = None"
  have rl: "reg_list (devlist s) s es" and l0: "devfs_lock s = 0" using r by (auto simp: dev_reg_def)
  let ?s = "s\<lparr>flists := list_insert_front c (devlist s) v (flists s), devfs_lock := 0\<rparr>"
  have "devfs_register c v s = Some ?s"
    using find_name_map_of [OF rl] n by (simp add: devfs_register_def l0 spin_lock_free spin_unlock_def)
  moreover have "reg_list (devlist s) ?s ((fs_name (fnodes s v), v) # es)"
    by (rule reg_list_insert [OF rl]) (use f in simp_all)
  ultimately show "\<exists>s'. devfs_register c v s = Some s' \<and> dev_reg s' ((fs_name (fnodes s v), v) # es)"
    by (auto simp: dev_reg_def)
next
  fix s :: fsys and es c v
  assume r: "dev_reg s es" and n: "map_of es (fs_name (fnodes s v)) \<noteq> None"
  have rl: "reg_list (devlist s) s es" and l0: "devfs_lock s = 0" using r by (auto simp: dev_reg_def)
  obtain w where w: "map_of es (fs_name (fnodes s v)) = Some w" using n by auto
  have "devfs_register c v s = Some (s\<lparr>devfs_lock := 0\<rparr>)"
    using find_name_map_of [OF rl] w entry_nonnull [OF rl w] by (simp add: devfs_register_def l0 spin_lock_free spin_unlock_def)
  moreover have "dev_reg (s\<lparr>devfs_lock := 0\<rparr>) es" using r by (simp add: dev_reg_def reg_list_cong [of "s\<lparr>devfs_lock := 0\<rparr>" s])
  ultimately show "\<exists>s'. devfs_register c v s = Some s' \<and> dev_reg s' es" by blast
next
  fix s :: fsys and es n
  assume r: "dev_reg s es"
  have rl: "reg_list (devlist s) s es" and l0: "devfs_lock s = 0" using r by (auto simp: dev_reg_def)
  obtain p where p: "find_name (devlist s) n s = Some p" "(if p = NULL then None else Some p) = map_of es n"
    using find_name_opt [OF rl] by blast
  have "opt_ptr (devfs_finddir n s) = Some (map_of es n, s\<lparr>devfs_lock := 0\<rparr>)"
    unfolding p(2) [symmetric] by (simp add: devfs_finddir_def opt_ptr_def l0 spin_lock_free spin_unlock_def p(1))
  moreover have "dev_reg (s\<lparr>devfs_lock := 0\<rparr>) es" using r by (simp add: dev_reg_def reg_list_cong [of "s\<lparr>devfs_lock := 0\<rparr>" s])
  ultimately show "\<exists>s'. opt_ptr (devfs_finddir n s) = Some (map_of es n, s') \<and> dev_reg s' es" by blast
qed

section \<open>Properties\<close>

definition demo_fs :: fsys where
  "demo_fs = \<lparr>fnodes = (\<lambda>p. zero_node\<lparr>fs_name := if p = 0x500 then ''dev'' else ''initrd'', fs_flags := 2\<rparr>),
     flists = list_create 0x20 (list_create 0x10 demo_lists), fs_root = 0, root_nodes = 0x10, rootfs_lock = 0,
     root_files = 0, devlist = 0x20, devfs_lock = 0, devfs_dirent = 0,
     dirents = \<lambda>_. \<lparr>d_name = '''', d_flags = 0, d_inode = 0, d_offset = 0\<rparr>,
     fclock = \<lparr>year = 0, mnth = 0, day = 0, hour = 0, minute = 0, sec = 0\<rparr>, fmem = \<lambda>_. 0, com_lock = 0,
     fserial = serial_start, fio = [], rand_Q = \<lambda>_. 0, rand_c = 362436, rand_i = 4095, headers = \<lambda>_. 0,
     tarfs_files = 0, tarfs_root = 0\<rparr>"

lemma demo_fs_reg: "root_reg demo_fs []" "dev_reg demo_fs []" "fresh_cell 0x10 0x700 demo_fs" "fresh_cell 0x20 0x700 demo_fs"
proof -
  have l: "dlist (flists demo_fs) 0x10 []" "dlist (flists demo_fs) 0x20 []"
    by (simp_all add: demo_fs_def list_create_def dlist_def last_of_def)
  have u: "ns = []" if "dlist (flists demo_fs) k ns" "k = 0x10 \<or> k = 0x20" for k ns
    using that dlist_empty(1) [OF that(1)] by (auto simp: demo_fs_def list_create_def)
  show "root_reg demo_fs []" "dev_reg demo_fs []"
    using l by (auto simp: root_reg_def dev_reg_def reg_list_def entries_def demo_fs_def)
  show "fresh_cell 0x10 0x700 demo_fs" "fresh_cell 0x20 0x700 demo_fs"
    by (auto simp: fresh_cell_def dest: u [of "0x10", simplified] u [of "0x20", simplified])
qed

text \<open>The root registry. After a node is registered, a lookup returns: the name that was unused
  now finds the node, a name that was taken still finds the node registered first, and every other
  name finds what it found before.\<close>

theorem fs_register_then_find:
  assumes "root_reg s es" and "fresh_cell (root_nodes s) cell s" and "node \<noteq> NULL"
  shows "\<exists>s' p s''. fs_register cell node s = Some s' \<and> rootfs_finddir name s' = Some (p, s'')
    \<and> (if p = NULL then None else Some p)
      = (if name = fs_name (fnodes s node) \<and> map_of es name = None then Some node else map_of es name)"
  using rootfs.register_then_lookup [OF assms(1), of cell node name] assms(2,3) unfolding opt_ptr_Some by blast

theorem fs_register_then_find_witness:
  "\<exists>s' s''. fs_register 0x700 0x500 demo_fs = Some s' \<and> rootfs_finddir ''dev'' s' = Some (0x500, s'')"
proof -
  have "fresh_cell (root_nodes demo_fs) 0x700 demo_fs" using demo_fs_reg(3) by (simp add: demo_fs_def)
  from fs_register_then_find [OF demo_fs_reg(1) this, of "0x500" "''dev''"] show ?thesis
    by (auto simp: demo_fs_def split: if_splits)
qed

text \<open>The device registry makes the same promise as the root registry.\<close>

theorem devfs_register_then_find:
  assumes "dev_reg s es" and "fresh_cell (devlist s) cell s" and "node \<noteq> NULL"
  shows "\<exists>s' p s''. devfs_register cell node s = Some s' \<and> devfs_finddir name s' = Some (p, s'')
    \<and> (if p = NULL then None else Some p)
      = (if name = fs_name (fnodes s node) \<and> map_of es name = None then Some node else map_of es name)"
  using devfs.register_then_lookup [OF assms(1), of cell node name] assms(2,3) unfolding opt_ptr_Some by blast

theorem devfs_register_then_find_witness:
  "\<exists>s' s''. devfs_register 0x700 0x500 demo_fs = Some s' \<and> devfs_finddir ''dev'' s' = Some (0x500, s'')"
proof -
  have "fresh_cell (devlist demo_fs) 0x700 demo_fs" using demo_fs_reg(4) by (simp add: demo_fs_def)
  from devfs_register_then_find [OF demo_fs_reg(2) this, of "0x500" "''dev''"] show ?thesis
    by (auto simp: demo_fs_def split: if_splits)
qed

text \<open>Reading a directory entry of the root returns the entry at the index and, although it
  never took the lock, releases it: a lock held by another thread is open afterwards.\<close>

theorem rootfs_readdir_opens_lock:
  assumes "reg_list (root_nodes s) s es" and "root_files s = of_nat (length es)" and "length es < 2 ^ 32"
    and "unat index < length es" and "root_nodes s \<noteq> NULL" and "d \<noteq> NULL"
  shows "\<exists>s'. rootfs_readdir d index s = Some (d, s') \<and> rootfs_lock s' = 0
    \<and> d_name (dirents s' d) = fst (es ! unat index) \<and> d_inode (dirents s' d) = snd (es ! unat index)"
proof -
  obtain ns where ns: "dlist (flists s) (root_nodes s) ns" "es = entries s ns" using assms(1) by (auto simp: reg_list_def)
  have len: "length ns = length es" using ns by (simp add: entries_def)
  have "\<not> root_files s \<le> index" using assms(2-4) by (simp add: word_le_nat_alt)
  moreover have "list_get_node_by_index (root_nodes s) index (flists s) = Some (ns ! unat index)"
  proof -
    have seg: "dseg (flists s) NULL (l_head (flists s) (root_nodes s)) ns NULL" using ns by (simp add: dlist_def)
    have "list_size (root_nodes s) (flists s) = of_nat (length es)" using ns assms(5) len by (simp add: list_size_def dlist_def)
    then have "\<not> list_size (root_nodes s) (flists s) \<le> index" using assms(3,4) by (simp add: word_le_nat_alt)
    then show ?thesis using index_loop_nth [OF seg, of 0 index] assms(3,4) len by (simp add: list_get_node_by_index_def)
  qed
  moreover have "unat index < length ns" using assms(4) len by simp
  then have "es ! unat index = (fs_name (fnodes s (n_value (flists s) (ns ! unat index))), n_value (flists s) (ns ! unat index))"
    unfolding ns(2) entries_def by (rule nth_map)
  moreover have "snd (es ! unat index) \<in> snd ` set es" by (rule imageI [OF nth_mem [OF assms(4)]])
  then have "snd (es ! unat index) \<noteq> NULL" using assms(1) unfolding reg_list_def by metis
  ultimately show ?thesis using assms(6) by (simp add: rootfs_readdir_def spin_unlock_def Let_def)
qed

theorem rootfs_readdir_opens_lock_witness:
  "\<exists>s s' d. rootfs_lock s = 1 \<and> rootfs_readdir d 0 s = Some (d, s') \<and> rootfs_lock s' = 0"
proof -
  have "fresh_cell (root_nodes demo_fs) 0x700 demo_fs \<and> (0x500 :: ptr) \<noteq> 0" using demo_fs_reg(3) by (simp add: demo_fs_def)
  from rootfs.register_new [OF demo_fs_reg(1) this] obtain s1 where
    s1: "fs_register 0x700 0x500 demo_fs = Some s1" "root_reg s1 [(''dev'', 0x500)]" by (auto simp: demo_fs_def)
  let ?s = "s1\<lparr>rootfs_lock := 1\<rparr>"
  have "root_nodes s1 = 0x10" using s1(1)
    by (auto simp: fs_register_def demo_fs_def bind_eq_Some_conv split: if_splits)
  moreover have "reg_list (root_nodes ?s) ?s [(''dev'', 0x500)]"
    using s1(2) reg_list_cong [of ?s s1] by (simp add: root_reg_def)
  ultimately show ?thesis
    using rootfs_readdir_opens_lock [of ?s "[(''dev'', 0x500)]" 0 "0x900"] s1(2)
    by (rule_tac exI [of _ ?s]) (auto simp: root_reg_def)
qed

end
