(* ===== verification/Fs_ops.thy ===== *)
theory Fs_ops
  imports Fs Kstring Kdisplay
begin

unbundle bit_operations_syntax

text \<open>
  The devices under /dev (kernel/fs/devices), the ramdisk (kernel/fs/tarfs.c) and the dispatch
  through a node's function pointers (kernel/fs/vfs.c). Buffers and the ramdisk image are bytes of
  \<open>fmem\<close>. A null file name in \<open>tarfs_finddir\<close> is \<open>None\<close>. An operation called through a pointer of
  another kind has no value. \<open>Inl Buffer_overflow\<close> is a write past the 64 header slots.
\<close>

section \<open>Devices\<close>

primrec read_com_loop :: "nat \<Rightarrow> ptr \<Rightarrow> fsys \<Rightarrow> fsys" where
  "read_com_loop 0 buf s = s"
| "read_com_loop (Suc n) buf s =
     (let (c, q) = serial_getc (fserial s)
      in read_com_loop n (buf + 1) (s\<lparr>fserial := q, fmem := (fmem s)(buf := c)\<rparr>))"

definition read_com :: "u32 \<Rightarrow> ptr \<Rightarrow> fsys \<Rightarrow> u32 \<times> fsys" where
  "read_com sz buf s = (sz, read_com_loop (unat sz) buf s)"

primrec write_com_loop :: "hardware \<Rightarrow> nat \<Rightarrow> ptr \<Rightarrow> fsys \<Rightarrow> fsys option" where
  "write_com_loop hw 0 buf s = Some s"
| "write_com_loop hw (Suc n) buf s =
     Option.bind (serial_putc hw (fmem s buf) (fio s)) (\<lambda>h. write_com_loop hw n (buf + 1) (s\<lparr>fio := h\<rparr>))"

definition write_com :: "hardware \<Rightarrow> u32 \<Rightarrow> ptr \<Rightarrow> fsys \<Rightarrow> (u32 \<times> fsys) option" where
  "write_com hw sz buf s =
     Option.bind (spin_lock (com_lock s)) (\<lambda>lk.
     Option.bind (write_com_loop hw (unat sz) buf (s\<lparr>com_lock := lk\<rparr>)) (\<lambda>s.
       Some (sz, s\<lparr>com_lock := spin_unlock (com_lock s)\<rparr>)))"

definition read_null :: "u32 \<Rightarrow> fsys \<Rightarrow> u32 \<times> fsys" where
  "read_null sz s = (sz, s)"

definition write_null :: "u32 \<Rightarrow> fsys \<Rightarrow> u32 \<times> fsys" where
  "write_null sz s = (sz, s)"

primrec port_in_loop :: "hardware \<Rightarrow> nat \<Rightarrow> u32 \<Rightarrow> ptr \<Rightarrow> fsys \<Rightarrow> fsys" where
  "port_in_loop hw 0 off buf s = s"
| "port_in_loop hw (Suc n) off buf s =
     (let (v, h) = inb hw (ucast off) (fio s)
      in port_in_loop hw n (off + 1) (buf + 1) (s\<lparr>fio := h, fmem := (fmem s)(buf := v)\<rparr>))"

definition read_port :: "hardware \<Rightarrow> u32 \<Rightarrow> u32 \<Rightarrow> ptr \<Rightarrow> fsys \<Rightarrow> u32 \<times> fsys" where
  "read_port hw off sz buf s =
     (sz, if sz = 1 then (let (v, h) = inb hw (ucast off) (fio s) in s\<lparr>fio := h, fmem := (fmem s)(buf := v)\<rparr>)
          else if sz = 2 then
            (let (v, h) = inw hw (ucast off) (fio s)
             in s\<lparr>fio := h, fmem := (fmem s)(buf := ucast v, buf + 1 := ucast (drop_bit 8 v))\<rparr>)
          else if sz = 4 then (let (v, h) = inl hw (ucast off) (fio s) in s\<lparr>fio := h, fmem := store32 (fmem s) buf v\<rparr>)
          else port_in_loop hw (unat sz) off buf s)"

primrec port_out_loop :: "nat \<Rightarrow> u32 \<Rightarrow> ptr \<Rightarrow> fsys \<Rightarrow> fsys" where
  "port_out_loop 0 off buf s = s"
| "port_out_loop (Suc n) off buf s = port_out_loop n (off + 1) (buf + 1) (s\<lparr>fio := outb (ucast off) (fmem s buf) (fio s)\<rparr>)"

definition write_port :: "u32 \<Rightarrow> u32 \<Rightarrow> ptr \<Rightarrow> fsys \<Rightarrow> u32 \<times> fsys" where
  "write_port off sz buf s =
     (sz, if sz = 1 then s\<lparr>fio := outb (ucast off) (fmem s buf) (fio s)\<rparr>
          else if sz = 2 then s\<lparr>fio := outw (ucast off) (ucast (fmem s buf) OR push_bit 8 (ucast (fmem s (buf + 1)))) (fio s)\<rparr>
          else if sz = 4 then s\<lparr>fio := outl (ucast off) (load32 (fmem s) buf) (fio s)\<rparr>
          else port_out_loop (unat sz) off buf s)"

abbreviation PHI :: u32 where "PHI \<equiv> 0x9e3779b9"

primrec init_rand_loop :: "nat list \<Rightarrow> (u32 \<Rightarrow> u32) \<Rightarrow> (u32 \<Rightarrow> u32)" where
  "init_rand_loop [] Q = Q"
| "init_rand_loop (i # is) Q =
     init_rand_loop is (Q(of_nat i := Q (of_nat i - 3) XOR Q (of_nat i - 2) XOR PHI XOR of_nat i))"

definition init_rand :: "u32 \<Rightarrow> fsys \<Rightarrow> fsys" where
  "init_rand x s = s\<lparr>rand_Q := init_rand_loop [3..<4096] ((rand_Q s)(0 := x, 1 := x + PHI, 2 := x + PHI + PHI))\<rparr>"

definition rand :: "fsys \<Rightarrow> u32 \<times> fsys" where
  "rand s =
     (let i = (rand_i s + 1) AND 4095;
          t = 18782 * ucast (rand_Q s i) + ucast (rand_c s) :: u64;
          c = ucast (drop_bit 32 t) :: u32;
          x = ucast t + c :: u32;
          (x, c) = (if x < c then (x + 1, c + 1) else (x, c));
          q = 0xfffffffe - x
      in (q, s\<lparr>rand_i := i, rand_c := c, rand_Q := (rand_Q s)(i := q)\<rparr>))"

definition write_random :: "u32 \<Rightarrow> fsys \<Rightarrow> u32 \<times> fsys" where
  "write_random sz s = (sz, s)"

primrec read_random_loop :: "nat \<Rightarrow> ptr \<Rightarrow> fsys \<Rightarrow> fsys" where
  "read_random_loop 0 buf s = s"
| "read_random_loop (Suc n) buf s =
     (let (r, s) = rand s in read_random_loop n (buf + 1) (s\<lparr>fmem := (fmem s)(buf := ucast r)\<rparr>))"

definition read_random :: "u32 \<Rightarrow> ptr \<Rightarrow> fsys \<Rightarrow> u32 \<times> fsys" where
  "read_random sz buf s = (sz, read_random_loop (unat sz) buf s)"

text \<open>Creating a device: the node is filled in and registered; unassigned fields keep old contents.\<close>

definition make_device :: "ptr \<Rightarrow> string \<Rightarrow> fs_op \<Rightarrow> fs_op \<Rightarrow> fsys \<Rightarrow> fsys" where
  "make_device nd name rd wt s =
     s\<lparr>fnodes := (fnodes s)(nd := (fnodes s nd)\<lparr>fs_name := name, fs_flags := 0x03, fs_inode := 0,
         fs_atime := get_seconds (fclock s), fs_ctime := get_seconds (fclock s), fs_open := None, fs_close := None,
         fs_read := Some rd, fs_write := Some wt, fs_ioctl := None\<rparr>)\<rparr>"

definition com_device_create :: "ptr \<Rightarrow> ptr \<Rightarrow> fsys \<Rightarrow> fsys option" where
  "com_device_create nd cell s = devfs_register cell nd (make_device nd ''com0'' Read_com Write_com s)"

definition null_device_create :: "ptr \<Rightarrow> ptr \<Rightarrow> fsys \<Rightarrow> fsys option" where
  "null_device_create nd cell s = devfs_register cell nd (make_device nd ''null'' Read_null Write_null s)"

definition port_device_create :: "ptr \<Rightarrow> ptr \<Rightarrow> fsys \<Rightarrow> fsys option" where
  "port_device_create nd cell s = devfs_register cell nd (make_device nd ''port'' Read_port Write_port s)"

definition random_device_create :: "ptr \<Rightarrow> ptr \<Rightarrow> fsys \<Rightarrow> fsys option" where
  "random_device_create nd cell s =
     (let s = make_device nd ''rand'' Read_random Write_random s;
          s = s\<lparr>fnodes := (fnodes s)(nd := (fnodes s nd)\<lparr>fs_length := 1024\<rparr>)\<rparr>
      in devfs_register cell nd (init_rand (get_seconds (fclock s)) s))"

text \<open>\<open>devfs_init\<close>: the addresses are those of the node, its list cell, the new list, and for each
  device its node and list cell.\<close>

definition devfs_init :: "ptr \<Rightarrow> ptr \<Rightarrow> ptr \<Rightarrow> (ptr \<times> ptr) \<times> (ptr \<times> ptr) \<times> (ptr \<times> ptr) \<times> (ptr \<times> ptr) \<Rightarrow> fsys \<Rightarrow> fsys option" where
  "devfs_init nd cell lst devs s =
     (let ((cn, cc), (nn, nc), (pn, pc), (rn, rc)) = devs;
          s = s\<lparr>fnodes := (fnodes s)(nd := (fnodes s nd)\<lparr>fs_name := ''dev'', fs_flags := 0x02 OR 0x08, fs_inode := 0,
                fs_atime := get_seconds (fclock s), fs_ctime := get_seconds (fclock s), fs_open := None, fs_close := None,
                fs_read := None, fs_write := None, fs_readdir := Some Devfs_readdir, fs_finddir := Some Devfs_finddir,
                fs_ioctl := None\<rparr>)\<rparr>
      in Option.bind (fs_register cell nd s) (\<lambda>s.
         let s = s\<lparr>devlist := lst, flists := list_create lst (flists s)\<rparr>
         in Option.bind (com_device_create cn cc s) (\<lambda>s.
            Option.bind (null_device_create nn nc s) (\<lambda>s.
            Option.bind (port_device_create pn pc s) (random_device_create rn rc)))))"

section \<open>The ramdisk\<close>

text \<open>Eleven octal digits, the last one first; a \<open>char\<close> is signed.\<close>

definition tar_getsize :: "mem \<Rightarrow> ptr \<Rightarrow> u32" where
  "tar_getsize m a = fst (fold (\<lambda>j (sz, count). (sz + (scast (m (a + of_nat (j - 1))) - 48) * count, count * 8))
     (rev [1..<12]) (0, 1))"

abbreviation tar_size_field :: "ptr \<Rightarrow> ptr" where "tar_size_field hdr \<equiv> hdr + 124"
abbreviation tar_type_field :: "ptr \<Rightarrow> ptr" where "tar_type_field hdr \<equiv> hdr + 156"

definition next_header :: "mem \<Rightarrow> ptr \<Rightarrow> ptr" where
  "next_header m a =
     (let sz = tar_getsize m (tar_size_field a)
      in a + (sz div 512 + 1) * 512 + (if sz mod 512 \<noteq> 0 then 512 else 0))"

partial_function (option) tar_parse_loop :: "mem \<Rightarrow> ptr \<Rightarrow> ptr \<Rightarrow> u32 \<Rightarrow> (u32 \<Rightarrow> ptr) \<Rightarrow> (kerr + u32 \<times> (u32 \<Rightarrow> ptr)) option" where
  "tar_parse_loop m a en n hs =
     (if m a = 0 then Some (Inr (n, hs))
      else if 64 \<le> n then Some (Inl Buffer_overflow)
      else if next_header m a > en then Some (Inr (n, hs(n := a)))
      else tar_parse_loop m (next_header m a) en (n + 1) (hs(n := a)))"

definition tar_parse :: "ptr \<Rightarrow> ptr \<Rightarrow> fsys \<Rightarrow> (kerr + fsys) option" where
  "tar_parse a en s =
     map_option (map_sum id (\<lambda>(n, hs). s\<lparr>tarfs_files := n, headers := hs\<rparr>)) (tar_parse_loop (fmem s) a en 0 (headers s))"

definition tarfs_read :: "ptr \<Rightarrow> u32 \<Rightarrow> u32 \<Rightarrow> ptr \<Rightarrow> fsys \<Rightarrow> u32 \<times> fsys" where
  "tarfs_read node off sz buf s =
     (let file_sz = fs_length (fnodes s node)
      in if off > file_sz then (0, s)
         else let sz = (if off + sz > file_sz then file_sz - off else sz)
              in (sz, s\<lparr>fmem := snd (memcpy (fmem s) buf (headers s (fs_inode (fnodes s node)) + 512) sz)\<rparr>))"

definition tarfs_readdir :: "ptr \<Rightarrow> ptr \<Rightarrow> u32 \<Rightarrow> fsys \<Rightarrow> (ptr \<times> fsys) option" where
  "tarfs_readdir d node index s =
     Option.bind (list_get_node_by_index (fs_inode (fnodes s node)) index (flists s)) (\<lambda>entry.
       if entry = NULL then Some (NULL, s)
       else let i_node = n_value (flists s) entry
            in if d = NULL then Some (NULL, s)
               else Some (d, s\<lparr>dirents := (dirents s)(d := \<lparr>d_name = fs_name (fnodes s i_node),
                 d_flags = fs_flags (fnodes s i_node), d_inode = fs_inode (fnodes s i_node), d_offset = index\<rparr>)\<rparr>))"

definition tarfs_finddir :: "ptr \<Rightarrow> string option \<Rightarrow> fsys \<Rightarrow> (ptr \<times> fsys) option" where
  "tarfs_finddir node name s =
     (case name of None \<Rightarrow> Some (NULL, s)
      | Some n \<Rightarrow> map_option (\<lambda>p. (p, s)) (find_name (fs_inode (fnodes s node)) n s))"

text \<open>The C string at an address, or \<open>None\<close> when the first \<open>n\<close> bytes hold no zero.\<close>

primrec str_at :: "mem \<Rightarrow> nat \<Rightarrow> ptr \<Rightarrow> string option" where
  "str_at m 0 a = None"
| "str_at m (Suc n) a =
     (if m a = 0 then Some [] else map_option ((#) (char_of (unat (m a)))) (str_at m n (a + 1)))"

text \<open>
  One entry of the ramdisk: a regular file gets a new node, any other type leaves the node of the
  previous entry (or null) in place, and that node is inserted. A name that does not fit the 128
  bytes of a node's name overflows it.
\<close>

definition tarfs_entry :: "ptr \<Rightarrow> ptr \<Rightarrow> u32 \<Rightarrow> ptr \<Rightarrow> fsys \<Rightarrow> kerr + ptr \<times> fsys" where
  "tarfs_entry nd cell i node s =
     (let hdr = headers s i;
          insert = (\<lambda>node s. (node, s\<lparr>flists := list_insert_front cell (fs_inode (fnodes s (tarfs_root s))) node (flists s)\<rparr>))
      in if fmem s (tar_type_field hdr) = 48 then
           case str_at (fmem s) 128 hdr of
             None \<Rightarrow> Inl Buffer_overflow
           | Some nm \<Rightarrow> Inr (insert nd
              (s\<lparr>fnodes := (fnodes s)(nd := \<lparr>fs_name = nm, fs_flags = 0x01, fs_inode = i,
                fs_length = tar_getsize (fmem s) (tar_size_field hdr), fs_atime = get_seconds (fclock s),
                fs_ctime = get_seconds (fclock s), fs_open = None, fs_close = None, fs_read = Some Tarfs_read,
                fs_write = None, fs_readdir = None, fs_finddir = None, fs_ioctl = None\<rparr>)\<rparr>))
         else Inr (insert node s))"

text \<open>The loop from index \<open>i\<close> over \<open>n\<close> more entries; \<open>addrs i\<close> is the address of the node and of the
  list cell that the heap returned for entry \<open>i\<close>.\<close>

primrec tarfs_entries :: "(u32 \<Rightarrow> ptr \<times> ptr) \<Rightarrow> nat \<Rightarrow> u32 \<Rightarrow> ptr \<Rightarrow> fsys \<Rightarrow> kerr + fsys" where
  "tarfs_entries addrs 0 i node s = Inr s"
| "tarfs_entries addrs (Suc n) i node s =
     (case tarfs_entry (fst (addrs i)) (snd (addrs i)) i node s of
        Inl e \<Rightarrow> Inl e
      | Inr (node', s') \<Rightarrow> tarfs_entries addrs n (i + 1) node' s')"

definition tarfs_init :: "ptr \<Rightarrow> ptr \<Rightarrow> ptr \<Rightarrow> (u32 \<Rightarrow> ptr \<times> ptr) \<Rightarrow> ptr \<Rightarrow> ptr \<Rightarrow> fsys \<Rightarrow> (kerr + fsys) option" where
  "tarfs_init nd lst cell addrs start en s =
     Option.bind (tar_parse start en s) (\<lambda>r. case r of Inl e \<Rightarrow> Some (Inl e)
       | Inr s \<Rightarrow>
       (let s = s\<lparr>tarfs_root := nd, flists := list_create lst (flists s),
                 fnodes := (fnodes s)(nd := (fnodes s nd)\<lparr>fs_name := ''initrd'', fs_flags := 0x02, fs_inode := lst,
                   fs_atime := get_seconds (fclock s), fs_ctime := get_seconds (fclock s), fs_open := None,
                   fs_close := None, fs_read := None, fs_write := None, fs_readdir := Some Tarfs_readdir,
                   fs_finddir := Some Tarfs_finddir, fs_ioctl := None\<rparr>)\<rparr>
        in case tarfs_entries addrs (unat (tarfs_files s) - 1) 1 NULL s of
             Inl e \<Rightarrow> Some (Inl e)
           | Inr s \<Rightarrow> map_option Inr (fs_register cell nd s)))"

section \<open>Dispatch\<close>

definition run_read :: "hardware \<Rightarrow> fs_op \<Rightarrow> ptr \<Rightarrow> u32 \<Rightarrow> u32 \<Rightarrow> ptr \<Rightarrow> fsys \<Rightarrow> (u32 \<times> fsys) option" where
  "run_read hw f node off sz buf s =
     (case f of Tarfs_read \<Rightarrow> Some (tarfs_read node off sz buf s) | Read_com \<Rightarrow> Some (read_com sz buf s)
      | Read_null \<Rightarrow> Some (read_null sz s) | Read_port \<Rightarrow> Some (read_port hw off sz buf s)
      | Read_random \<Rightarrow> Some (read_random sz buf s) | _ \<Rightarrow> None)"

definition run_write :: "hardware \<Rightarrow> fs_op \<Rightarrow> u32 \<Rightarrow> u32 \<Rightarrow> ptr \<Rightarrow> fsys \<Rightarrow> (u32 \<times> fsys) option" where
  "run_write hw f off sz buf s =
     (case f of Write_com \<Rightarrow> write_com hw sz buf s | Write_null \<Rightarrow> Some (write_null sz s)
      | Write_port \<Rightarrow> Some (write_port off sz buf s) | Write_random \<Rightarrow> Some (write_random sz s) | _ \<Rightarrow> None)"

definition open_fs :: "(fs_op \<Rightarrow> ptr \<Rightarrow> u32 \<Rightarrow> fsys \<Rightarrow> fsys) \<Rightarrow> ptr \<Rightarrow> u32 \<Rightarrow> fsys \<Rightarrow> fsys" where
  "open_fs call node flags s =
     (if node = NULL then s else case fs_open (fnodes s node) of None \<Rightarrow> s | Some f \<Rightarrow> call f node flags s)"

definition close_fs :: "(fs_op \<Rightarrow> ptr \<Rightarrow> fsys \<Rightarrow> fsys) \<Rightarrow> ptr \<Rightarrow> fsys \<Rightarrow> fsys" where
  "close_fs call node s =
     (if node = NULL \<or> node = fs_root s then s
      else let s = (case fs_close (fnodes s node) of None \<Rightarrow> s | Some f \<Rightarrow> call f node s)
           in s\<lparr>flists := list_kfree node (flists s)\<rparr>)"

definition read_fs :: "hardware \<Rightarrow> ptr \<Rightarrow> u32 \<Rightarrow> u32 \<Rightarrow> ptr \<Rightarrow> fsys \<Rightarrow> (u32 \<times> fsys) option" where
  "read_fs hw node off sz buf s =
     (if node = NULL then Some (0, s)
      else case fs_read (fnodes s node) of None \<Rightarrow> Some (0, s) | Some f \<Rightarrow> run_read hw f node off sz buf s)"

definition write_fs :: "hardware \<Rightarrow> ptr \<Rightarrow> u32 \<Rightarrow> u32 \<Rightarrow> ptr \<Rightarrow> fsys \<Rightarrow> (u32 \<times> fsys) option" where
  "write_fs hw node off sz buf s =
     (if node = NULL then Some (0, s)
      else case fs_write (fnodes s node) of None \<Rightarrow> Some (0, s) | Some f \<Rightarrow> run_write hw f off sz buf s)"

definition readdir_fs :: "ptr \<Rightarrow> ptr \<Rightarrow> u32 \<Rightarrow> fsys \<Rightarrow> (ptr \<times> fsys) option" where
  "readdir_fs d node index s =
     (if node = NULL \<or> fs_flags (fnodes s node) AND 0x02 = 0 then Some (NULL, s)
      else case fs_readdir (fnodes s node) of None \<Rightarrow> Some (NULL, s)
        | Some Rootfs_readdir \<Rightarrow> rootfs_readdir d index s | Some Devfs_readdir \<Rightarrow> devfs_readdir index s
        | Some Tarfs_readdir \<Rightarrow> tarfs_readdir d node index s | Some _ \<Rightarrow> None)"

definition finddir_fs :: "ptr \<Rightarrow> string \<Rightarrow> fsys \<Rightarrow> (ptr \<times> fsys) option" where
  "finddir_fs node name s =
     (if node = NULL \<or> fs_flags (fnodes s node) AND 0x02 = 0 then Some (NULL, s)
      else case fs_finddir (fnodes s node) of None \<Rightarrow> Some (NULL, s)
        | Some Rootfs_finddir \<Rightarrow> rootfs_finddir name s | Some Devfs_finddir \<Rightarrow> devfs_finddir name s
        | Some Tarfs_finddir \<Rightarrow> tarfs_finddir node (Some name) s | Some _ \<Rightarrow> None)"

definition ioctl_fs :: "(fs_op \<Rightarrow> ptr \<Rightarrow> u32 \<Rightarrow> ptr \<Rightarrow> fsys \<Rightarrow> u32 \<times> fsys) \<Rightarrow> ptr \<Rightarrow> u32 \<Rightarrow> ptr \<Rightarrow> fsys \<Rightarrow> u32 \<times> fsys" where
  "ioctl_fs call node request argp s =
     (if node = NULL then (0, s)
      else case fs_ioctl (fnodes s node) of None \<Rightarrow> (0, s) | Some f \<Rightarrow> call f node request argp s)"

definition clone_fs :: "ptr \<Rightarrow> ptr \<Rightarrow> fsys \<Rightarrow> ptr \<times> fsys" where
  "clone_fs n node s = (if node = NULL then (NULL, s) else (n, s\<lparr>fnodes := (fnodes s)(n := fnodes s node)\<rparr>))"

definition vfs_init :: "ptr \<Rightarrow> ptr \<Rightarrow> fsys \<Rightarrow> fsys" where
  "vfs_init nd lst s = (let (r, s) = rootfs_init nd lst s in s\<lparr>fs_root := r\<rparr>)"

definition get_fs_root :: "fsys \<Rightarrow> ptr" where
  "get_fs_root s = fs_root s"

section \<open>The archive\<close>

text \<open>\<open>tar_archive m a en hs\<close>: the headers of the archive at \<open>a\<close> are at the addresses \<open>hs\<close>, none of them
  beyond \<open>en\<close> save perhaps the first, and a block with an empty name follows the last.\<close>

fun tar_archive :: "mem \<Rightarrow> ptr \<Rightarrow> ptr \<Rightarrow> ptr list \<Rightarrow> bool" where
  "tar_archive m a en [] = (m a = 0)"
| "tar_archive m a en (h # hs) = (h = a \<and> m a \<noteq> 0 \<and> next_header m a \<le> en \<and> tar_archive m (next_header m a) en hs)"

lemma tar_parse_loop_archive:
  "tar_archive m a en hs \<Longrightarrow> k + length hs \<le> 64 \<Longrightarrow>
     \<exists>f'. tar_parse_loop m a en (of_nat k) f = Some (Inr (of_nat (k + length hs), f'))
       \<and> (\<forall>i < length hs. f' (of_nat (k + i)) = hs ! i) \<and> (\<forall>i < k. f' (of_nat i) = f (of_nat i))"
proof (induction hs arbitrary: a k f)
  case Nil
  then show ?case by (subst tar_parse_loop.simps) auto
next
  case (Cons h hs)
  have k: "\<not> (64 :: u32) \<le> of_nat k" using Cons.prems(2) by (simp add: word_le_nat_alt unat_of_nat32)
  have ne: "(of_nat i :: u32) \<noteq> of_nat k" if "i < k" for i
    using that Cons.prems(2) by (subst of_nat32_inject) auto
  have arch: "tar_archive m (next_header m a) en hs" "Suc k + length hs \<le> 64" using Cons.prems by auto
  obtain f' where f': "tar_parse_loop m (next_header m a) en (of_nat (Suc k)) (f(of_nat k := a))
      = Some (Inr (of_nat (Suc k + length hs), f'))"
    "\<forall>i < length hs. f' (of_nat (Suc k + i)) = hs ! i" "\<forall>i < Suc k. f' (of_nat i) = (f(of_nat k := a)) (of_nat i)"
    using Cons.IH [OF arch, of "f(of_nat k := a)"] by blast
  have "tar_parse_loop m a en (of_nat k) f = Some (Inr (of_nat (k + length (h # hs)), f'))"
    using f'(1) Cons.prems k by (subst tar_parse_loop.simps) (auto simp: add.commute [of _ 1] not_less)
  moreover have "f' (of_nat (k + i)) = (h # hs) ! i" if "i < length (h # hs)" for i
    using that f'(2,3) Cons.prems(1) by (cases i) auto
  moreover have "f' (of_nat i) = f (of_nat i)" if "i < k" for i
    using that f'(3) ne by auto
  ultimately show ?case by blast
qed

text \<open>On a well-formed archive of at most 64 members, parsing returns, counts every member and
  records the address of each header in order.\<close>

theorem tar_parse_members:
  assumes "tar_archive (fmem s) a en hs" and "length hs \<le> 64"
  shows "\<exists>s'. tar_parse a en s = Some (Inr s') \<and> unat (tarfs_files s') = length hs
    \<and> (\<forall>i < length hs. headers s' (of_nat i) = hs ! i) \<and> fmem s' = fmem s"
  using tar_parse_loop_archive [OF assms(1), of 0 "headers s"] assms(2)
  by (auto simp: tar_parse_def unat_of_nat32)

text \<open>The octal value of eleven digits.\<close>

definition octal :: "nat list \<Rightarrow> nat" where
  "octal ds = foldl (\<lambda>n d. n * 8 + d) 0 ds"

lemma tar_getsize_octal:
  assumes "length ds = 11" and "\<forall>i < 11. m (a + of_nat i) = 48 + of_nat (ds ! i) \<and> ds ! i < 8"
  shows "tar_getsize m a = of_nat (octal ds)"
proof -
  obtain d0 d1 d2 d3 d4 d5 d6 d7 d8 d9 d10 where ds: "ds = [d0, d1, d2, d3, d4, d5, d6, d7, d8, d9, d10]"
    using assms(1) by (auto simp: numeral_eq_Suc length_Suc_conv)
  have c: "scast (48 + of_nat d :: u8) - 48 = (of_nat d :: u32)" if "d < 8" for d
  proof -
    have "d = 0 \<or> d = 1 \<or> d = 2 \<or> d = 3 \<or> d = 4 \<or> d = 5 \<or> d = 6 \<or> d = 7" using that by arith
    then show ?thesis by (elim disjE) simp_all
  qed
  have all: "m (a + of_nat i) = 48 + of_nat (ds ! i)" "ds ! i < 8" if "i < 11" for i using assms(2) that by auto
  have r: "rev [1..<12] = [11, 10, 9, 8, 7, 6, 5, 4, 3, 2, 1 :: nat]" by (simp add: upt_rec)
  note v = all [of 0] all [of 1] all [of 2] all [of 3] all [of 4] all [of 5] all [of 6] all [of 7] all [of 8]
    all [of 9] all [of 10]
  show ?thesis
    unfolding tar_getsize_def r using v by (simp add: ds c) (simp add: octal_def algebra_simps)
qed

section \<open>Properties\<close>

lemma tarfs_read_bytes:
  fixes s node
  defines "len \<equiv> fs_length (fnodes s node)" and "data \<equiv> headers s (fs_inode (fnodes s node)) + 512"
  assumes "off \<le> len" and "unat off + unat sz < 2 ^ 32" and "n = min (unat sz) (unat len - unat off)"
    and "n \<le> unat (buf - data)"
  shows "\<exists>s'. tarfs_read node off sz buf s = (of_nat n, s')
    \<and> (\<forall>k < n. fmem s' (buf + of_nat k) = fmem s (data + of_nat k))
    \<and> (\<forall>x. n \<le> unat (x - buf) \<longrightarrow> fmem s' x = fmem s x)"
proof -
  let ?m = "rep_movsb n buf data (fmem s)"
  have n32: "n < 2 ^ 32" using assms(5) unsigned_less [of sz, where 'a = nat] by simp
  have add: "unat (off + sz) = unat off + unat sz" using assms(4) by (rule unat_plus_small)
  have c: "(if off + sz > len then len - off else sz) = of_nat n"
    using assms(3) unfolding assms(5) word_less_nat_alt add by (auto simp: word_le_nat_alt min_def unat_sub of_nat_diff)
  have "unat (of_nat n :: u32) = n" using n32 by (rule unat_of_nat32)
  then have "tarfs_read node off sz buf s = (of_nat n, s\<lparr>fmem := ?m\<rparr>)"
    using assms(3) unfolding tarfs_read_def len_def [symmetric] data_def [symmetric] Let_def c by (simp add: memcpy_def not_less [symmetric])
  moreover have "?m (buf + of_nat k) = fmem s (data + of_nat k)" if "k < n" for k
    using rep_movsb_bytes [OF assms(6), of "fmem s" "buf + of_nat k"] that n32 by (simp add: unat_of_nat32)
  moreover have "?m x = fmem s x" if "n \<le> unat (x - buf)" for x
    using rep_movsb_bytes [OF assms(6), of "fmem s" x] that by simp
  ultimately show ?thesis by (intro exI [of _ "s\<lparr>fmem := ?m\<rparr>"]) auto
qed

text \<open>A read at \<open>off\<close> inside a ramdisk file returns the number of bytes between \<open>off\<close> and the
  end of the file, capped at the size asked for, and changes no byte outside the buffer. The bytes it
  puts there are those at the beginning of the file: the offset does not enter the source address.\<close>

theorem tarfs_read_copies:
  fixes s node
  defines "len \<equiv> fs_length (fnodes s node)" and "data \<equiv> headers s (fs_inode (fnodes s node)) + 512"
  assumes "off \<le> len" and "unat off + unat sz < 2 ^ 32" and "n = min (unat sz) (unat len - unat off)"
    and "n \<le> unat (buf - data)"
  shows "\<exists>s'. tarfs_read node off sz buf s = (of_nat n, s')
    \<and> (\<forall>k < n. fmem s' (buf + of_nat k) = fmem s (data + of_nat k))
    \<and> (\<forall>x. n \<le> unat (x - buf) \<longrightarrow> fmem s' x = fmem s x)"
  using assms(3-6) tarfs_read_bytes unfolding len_def data_def by blast

definition demo_ramdisk :: fsys where
  "demo_ramdisk = demo_fs\<lparr>fnodes := (\<lambda>_. zero_node\<lparr>fs_inode := 1, fs_length := 3\<rparr>), headers := (\<lambda>_. 0x1000),
     fmem := (\<lambda>_. 0)(0x1200 := 104, 0x1201 := 105, 0x1202 := 33)\<rparr>"

theorem tarfs_read_copies_witness:
  "\<exists>s'. tarfs_read 0x500 1 8 0x8000 demo_ramdisk = (2, s') \<and> fmem s' 0x8000 = 104 \<and> fmem s' 0x8001 = 105"
proof -
  have d: "fs_length (fnodes demo_ramdisk 0x500) = 3" "headers demo_ramdisk x = 0x1000" 
    "fmem demo_ramdisk 0x1200 = 104" "fmem demo_ramdisk 0x1201 = 105" for x by (simp_all add: demo_ramdisk_def)
  have "\<exists>s'. tarfs_read 0x500 1 8 0x8000 demo_ramdisk = (of_nat 2, s')
      \<and> (\<forall>k < 2. fmem s' (0x8000 + of_nat k) = fmem demo_ramdisk (0x1000 + 512 + of_nat k))
      \<and> (\<forall>x. 2 \<le> unat (x - 0x8000) \<longrightarrow> fmem s' x = fmem demo_ramdisk x)"
    by (rule tarfs_read_copies [of 1 demo_ramdisk "0x500" 8 2 "0x8000", unfolded d]) simp_all
  then obtain s' where s': "tarfs_read 0x500 1 8 0x8000 demo_ramdisk = (of_nat 2, s')"
    "\<And>k. k < 2 \<Longrightarrow> fmem s' (0x8000 + of_nat k) = fmem demo_ramdisk (0x1000 + 512 + of_nat k)" by blast
  show ?thesis using s'(1) s'(2) [of 0] s'(2) [of 1] by (simp add: d)
qed

definition demo_archive :: mem where
  "demo_archive = (\<lambda>x. if 0x107c \<le> x \<and> x < 0x1087 \<or> 0x127c \<le> x \<and> x < 0x1287 then 48 else 0)
     (0x1000 := 97, 0x1200 := 98, 0x1286 := 49)"

theorem tar_parse_members_witness:
  "\<exists>s'. tar_parse 0x1000 0x1600 (demo_fs\<lparr>fmem := demo_archive\<rparr>) = Some (Inr s') \<and> unat (tarfs_files s') = 2
    \<and> headers s' 1 = 0x1200"
proof -
  have g: "tar_getsize demo_archive 0x107c = 0" "tar_getsize demo_archive 0x127c = 1"
    by code_simp+
  then have "tar_archive (fmem (demo_fs\<lparr>fmem := demo_archive\<rparr>)) 0x1000 0x1600 [0x1000, 0x1200]"
    by (simp add: next_header_def) (simp add: demo_archive_def)
  from tar_parse_members [OF this] show ?thesis by (auto elim!: allE [of _ 1])
qed

text \<open>The device list with its cells \<open>cs\<close> and entries \<open>es\<close>.\<close>

definition dev_state :: "fsys \<Rightarrow> ptr list \<Rightarrow> (string \<times> ptr) list \<Rightarrow> bool" where
  "dev_state s cs es \<longleftrightarrow> devfs_lock s = 0 \<and> dlist (flists s) (devlist s) cs \<and> es = entries s cs \<and> NULL \<notin> snd ` set es"

lemma dev_state_reg: "dev_state s cs es \<Longrightarrow> dev_reg s es"
  by (auto simp: dev_state_def dev_reg_def reg_list_def)

lemma entries_node_update:
  assumes "nd \<notin> snd ` set (entries s cs)" and "fnodes s' = (fnodes s)(nd := x)" and "flists s' = flists s"
  shows "entries s' cs = entries s cs"
proof -
  have "n_value (flists s) c \<noteq> nd" if "c \<in> set cs" for c using assms(1) that by (auto simp: entries_def image_image)
  then show ?thesis using assms(2,3) by (simp add: entries_def)
qed

lemma device_registered:
  assumes "dev_state s cs es" and "fnodes s' = (fnodes s)(nd := x)" and "flists s' = flists s" and "devlist s' = devlist s"
    and "devfs_lock s' = devfs_lock s" and "nd \<notin> snd ` set es" and "nd \<noteq> NULL" and "fs_name x \<notin> fst ` set es"
    and "cell \<noteq> NULL" and "cell \<notin> set cs" and "length cs + 1 < 2 ^ 32"
  shows "\<exists>s''. devfs_register cell nd s' = Some s'' \<and> dev_state s'' (cell # cs) ((fs_name x, nd) # es)
    \<and> fnodes s'' = fnodes s'"
proof -
  have d: "dlist (flists s') (devlist s') cs" "devfs_lock s' = 0" and n: "NULL \<notin> snd ` set es"
    using assms(1,3-5) by (auto simp: dev_state_def)
  have es: "es = entries s' cs" using assms(1,6) entries_node_update [OF _ assms(2,3)] by (auto simp: dev_state_def)
  have rl: "reg_list (devlist s') s' es" using d n es by (auto simp: reg_list_def)
  have nm: "fs_name (fnodes s' nd) = fs_name x" by (simp add: assms(2))
  have "map_of es (fs_name x) = None" using assms(8) by (simp add: map_of_eq_None_iff)
  then have f: "find_name (devlist s') (fs_name (fnodes s' nd)) s' = Some NULL"
    using find_name_map_of [OF rl] nm by simp
  let ?s = "s'\<lparr>flists := list_insert_front cell (devlist s') nd (flists s'), devfs_lock := 0\<rparr>"
  note i = list_insert_front_ok [OF d(1) assms(9-11), of nd]
  have "devfs_register cell nd s' = Some ?s"
    using f by (simp add: devfs_register_def d(2) spin_lock_free spin_unlock_def)
  moreover have "entries ?s (cell # cs) = (fs_name x, nd) # es"
    using assms(10) unfolding es by (auto simp: entries_def i(2) nm)
  then have "dev_state ?s (cell # cs) ((fs_name x, nd) # es)" using i(1) n assms(7) by (simp add: dev_state_def)
  ultimately show ?thesis by (intro exI [of _ ?s]) simp
qed

lemma init_rand_keeps [simp]:
  "fnodes (init_rand x s) = fnodes s" "flists (init_rand x s) = flists s" "devlist (init_rand x s) = devlist s"
  "devfs_lock (init_rand x s) = devfs_lock s"
  by (simp_all add: init_rand_def del: upt_rec_numeral)

end
