(* ===== verification/Tasks.thy ===== *)
theory Tasks
  imports Dlists Paging Desc_tbls Kstring
begin

text \<open>
  Tasks and the scheduler, kernel/sys/task.c, with the stack switch of kernel/sys/context_switch.asm.
  Task structures are found by their address, the list of tasks is a list of theory \<open>Dlists\<close>, and the
  kernel stacks are bytes of \<open>kmem\<close>. Addresses that the heap returned are arguments. \<open>cpu\<close> holds the
  registers that a switch saves, with \<open>r_esp\<close> the stack pointer at the entry of \<open>context_switch\<close> and
  \<open>r_eip\<close> the address it returns to. A state after \<open>schedule\<close> is the one in which the picked task
  runs on. \<open>None\<close> is a loop without end.
\<close>

section \<open>State\<close>

datatype task_state = TASK_READY | TASK_SLEEPING | TASK_ZOMBIE

record task_t =
  kstack :: ptr
  kstack_mem :: ptr
  page_dir :: ptr
  ifr :: ptr
  fpu_state :: ptr
  fpu_used :: u8
  self :: ptr
  tid :: u32
  state :: task_state
  exit_code :: u32
  usage :: u32

record cpu =
  r_ebx :: u32
  r_esi :: u32
  r_edi :: u32
  r_ebp :: u32
  r_eip :: u32
  r_eflags :: u32
  r_esp :: u32

record sched =
  task :: "ptr \<Rightarrow> task_t"
  current_task :: ptr
  task_list :: ptr
  tlists :: lstore
  next_tid :: u32
  prev_ticks :: u32
  curr_ticks :: u32
  timer_ticks :: u32
  tvm :: kstate
  tcpu :: cpu_tables
  regs :: cpu

definition zero_task :: task_t where
  "zero_task = \<lparr>kstack = NULL, kstack_mem = NULL, page_dir = NULL, ifr = NULL, fpu_state = NULL, fpu_used = 0,
     self = NULL, tid = 0, state = TASK_READY, exit_code = 0, usage = 0\<rparr>"

definition upd_task :: "ptr \<Rightarrow> (task_t \<Rightarrow> task_t) \<Rightarrow> sched \<Rightarrow> sched" where
  "upd_task t f s = s\<lparr>task := (task s)(t := f (task s t))\<rparr>"

definition upd_mem :: "(mem \<Rightarrow> mem) \<Rightarrow> sched \<Rightarrow> sched" where
  "upd_mem f s = s\<lparr>tvm := (tvm s)\<lparr>kmem := f (kmem (tvm s))\<rparr>\<rparr>"

text \<open>Consecutive words.\<close>

primrec store_words :: "mem \<Rightarrow> ptr \<Rightarrow> u32 list \<Rightarrow> mem" where
  "store_words m a [] = m"
| "store_words m a (w # ws) = store_words (store32 m a w) (a + 4) ws"

primrec load_words :: "mem \<Rightarrow> ptr \<Rightarrow> nat \<Rightarrow> u32 list" where
  "load_words m a 0 = []"
| "load_words m a (Suc n) = load32 m a # load_words m (a + 4) n"

section \<open>The switch\<close>

text \<open>
  The flags, the return address and four registers are pushed, the stack pointer goes to the first
  field of the current task, and the same six words are popped from the stack of \<open>next\<close>. The last
  three are popped by \<open>iret\<close>, for which the code segment (selector 8) and the return address are pushed again
  over the two words below the flags.
\<close>

definition save_context :: "sched \<Rightarrow> sched" where
  "save_context s =
     (let c = regs s; sp = r_esp c - 20
      in upd_task (current_task s) (\<lambda>t. t\<lparr>kstack := sp\<rparr>)
           (upd_mem (\<lambda>m. store_words m sp [r_ebx c, r_esi c, r_edi c, r_ebp c, r_eip c, r_eflags c]) s))"

definition load_context :: "ptr \<Rightarrow> sched \<Rightarrow> sched" where
  "load_context next s =
     (let sp = kstack (task s next); w = (\<lambda>i. load32 (kmem (tvm s)) (sp + i))
      in (upd_mem (\<lambda>m. store32 (store32 m (sp + 16) 8) (sp + 12) (w 16)) s)\<lparr>current_task := next,
           regs := \<lparr>r_ebx = w 0, r_esi = w 4, r_edi = w 8, r_ebp = w 12, r_eip = w 16, r_eflags = w 20,
                    r_esp = sp + 24\<rparr>\<rparr>)"

definition context_switch :: "ptr \<Rightarrow> sched \<Rightarrow> sched" where
  "context_switch next s = load_context next (save_context s)"

section \<open>Tasks\<close>

definition get_ticks :: "sched \<Rightarrow> u32" where
  "get_ticks s = timer_ticks s"

definition task_destroy :: "ptr \<Rightarrow> sched \<Rightarrow> sched" where
  "task_destroy t s =
     (let ls = snd (list_remove_node (task_list s) (self (task s t)) (tlists s));
          ls = list_kfree (kstack_mem (task s t)) ls;
          ls = list_kfree (page_dir (task s t)) ls
      in s\<lparr>tlists := list_kfree t ls\<rparr>)"

text \<open>The loop at \<open>_pick_next\<close>. Reading the list node again after the destruction of its task freed
  it is \<open>Use_after_free\<close>.\<close>

partial_function (option) pick_next :: "ptr \<Rightarrow> sched \<Rightarrow> (kerr + ptr \<times> sched) option" where
  "pick_next next_node s =
     (let next = (if next_node = NULL then list_peek_front (task_list s) (tlists s) else n_value (tlists s) next_node)
      in if state (task s next) = TASK_ZOMBIE then
           let s' = task_destroy next s
           in if next_node \<noteq> NULL \<and> next_node \<in> set (drop (length (freed (tlists s))) (freed (tlists s')))
              then Some (Inl Use_after_free)
              else pick_next next_node s'
         else Some (Inr (next, s)))"

definition account_time :: "sched \<Rightarrow> sched" where
  "account_time s =
     (let now = get_ticks s
      in upd_task (current_task s) (\<lambda>t. t\<lparr>usage := usage t + (now - prev_ticks s)\<rparr>)
           (s\<lparr>curr_ticks := now, prev_ticks := now\<rparr>))"

text \<open>In the first branch control does not come back: nothing refers to the context it saves.\<close>

definition schedule :: "sched \<Rightarrow> (kerr + sched) option" where
  "schedule s =
     (if task_list s = NULL then Some (Inr s)
      else if current_task s = NULL then
        Some (Inr (context_switch (list_peek_front (task_list s) (tlists s)) s))
      else map_option (map_sum id (\<lambda>(next, s).
        let s = account_time s;
            s = s\<lparr>tcpu := tss_set_stack 0x10 (kstack (task s next)) (tcpu s)\<rparr>;
            s = s\<lparr>tvm := switch_page_directory (page_dir (task s next)) (tvm s)\<rparr>
        in context_switch next s))
        (pick_next (n_next (tlists s) (self (task s (current_task s)))) s))"

text \<open>
  \<open>t\<close>, \<open>pd\<close>, \<open>stk\<close> and \<open>cell\<close> are what \<open>kcalloc\<close>, \<open>kmalloc_a\<close>, \<open>kmalloc\<close> and the list returned. A
  \<open>regs_t\<close> has 76 bytes, with \<open>eax\<close> at offset 44. The context is written over the start of the
  copied frame. The result is null, or \<open>t\<close> and the state in which \<open>schedule\<close> left the machine.
\<close>

definition build_stack :: "ptr \<Rightarrow> ptr \<Rightarrow> u32 \<Rightarrow> sched \<Rightarrow> sched" where
  "build_stack t stk func s =
     (let ks = stk + 0x1000 - 24;
          frame = ifr (task s (current_task s));
          (ks, s) = (if frame \<noteq> NULL
                     then (ks - 76, upd_mem (\<lambda>m. store32 (snd (memcpy m (ks - 76) frame 76)) (ks - 76 + 44) 0) s)
                     else (ks, s));
          s = upd_mem (\<lambda>m. store32 (store32 (store32 m (ks + 12) ks) (ks + 16) func) (ks + 20) 0x202) s
      in upd_task t (\<lambda>x. x\<lparr>kstack := ks\<rparr>) s)"

definition task_create :: "kmalloc_t \<Rightarrow> ptr \<Rightarrow> ptr \<Rightarrow> ptr \<Rightarrow> ptr \<Rightarrow> u32 \<Rightarrow> sched \<Rightarrow> (kerr + ptr \<times> sched) option" where
  "task_create km t pd stk cell func s =
     (let s = upd_task t (\<lambda>_. zero_task\<lparr>tid := next_tid s, page_dir := pd\<rparr>) (s\<lparr>next_tid := next_tid s + 1\<rparr>)
      in Option.bind (copy_page_directory km pd (current_page_dir (tvm s)) (tvm s)) (\<lambda>v.
         let s = upd_task t (\<lambda>x. x\<lparr>kstack_mem := stk\<rparr>) (s\<lparr>tvm := v\<rparr>)
         in if stk = NULL then Some (Inr (NULL, s\<lparr>tlists := list_kfree stk (tlists s)\<rparr>))
            else let s = build_stack t stk func s;
                     s = s\<lparr>tlists := list_insert_front cell (task_list s) t (tlists s)\<rparr>;
                     s = upd_task t (\<lambda>x. x\<lparr>self := cell\<rparr>) s
                 in map_option (map_sum id (\<lambda>s. (t, s))) (schedule s)))"

definition task_exit :: "u32 \<Rightarrow> sched \<Rightarrow> (kerr + sched) option" where
  "task_exit code s = schedule (upd_task (current_task s) (\<lambda>t. t\<lparr>exit_code := code, state := TASK_ZOMBIE\<rparr>) s)"

definition multitasking_init :: "kmalloc_t \<Rightarrow> ptr \<Rightarrow> ptr \<Rightarrow> ptr \<Rightarrow> ptr \<Rightarrow> ptr \<Rightarrow> u32 \<Rightarrow> sched \<Rightarrow> (kerr + ptr \<times> sched) option" where
  "multitasking_init km lst t pd stk cell func s =
     task_create km t pd stk cell func (s\<lparr>task_list := lst, tlists := list_create lst (tlists s)\<rparr>)"

section \<open>Stack frames\<close>

lemma load_store_words_other:
  "4 * length ws \<le> unat (b - a) \<Longrightarrow> 4 \<le> unat (a - b) \<Longrightarrow> load32 (store_words m a ws) b = load32 m b"
proof (induction ws arbitrary: a m)
  case (Cons w ws)
  have ap: "apart 4 a b" using Cons.prems by (simp add: apart_def word_le_nat_alt)
  show ?case
  proof (cases "ws = []")
    case True
    with ap show ?thesis by (simp add: load_store_apart)
  next
    case False
    have "length ws \<noteq> 0" using False by simp
    then have l: "8 \<le> 4 * length (w # ws)" by (cases ws) auto
    have d: "unat (b - (a + 4)) = unat (b - a) - 4"
      using Cons.prems(1) unat_sub [of 4 "b - a"] by (simp add: word_le_nat_alt diff_diff_eq)
    have u: "unat (a - b) = 2 ^ 32 - unat (b - a)"
      using unat_uminus32 [of "b - a"] Cons.prems l by (cases "b - a = 0") auto
    have "unat (a - b + 4) = unat (a - b) + unat (4 :: u32)" using u Cons.prems(1) l by (intro unat_plus_small) simp
    then have "4 \<le> unat (a - b + 4)" using Cons.prems(2) by linarith
    then have "4 \<le> unat (a + 4 - b)" by (simp add: add_diff_eq add.commute diff_add_eq)
    moreover have "4 * length ws \<le> unat (b - (a + 4))" using d Cons.prems(1) by simp
    ultimately show ?thesis using Cons.IH [of "a + 4" "store32 m a w"] ap by (simp add: load_store_apart)
  qed
qed simp

lemma load_store_words:
  "4 * length ws \<le> 2 ^ 32 \<Longrightarrow> load_words (store_words m a ws) a (length ws) = ws"
proof (induction ws arbitrary: a m)
  case (Cons w ws)
  have "load32 (store_words (store32 m a w) (a + 4) ws) a = w"
  proof (cases "ws = []")
    case False
    have "unat (- 4 :: u32) = 2 ^ 32 - 4" by simp
    then show ?thesis using Cons.prems by (subst load_store_words_other) simp_all
  qed simp
  with Cons show ?case by simp
qed simp

text \<open>The frame that a switch pops, as words.\<close>

lemma load_words_6:
  "load_words m a 6 = [load32 m a, load32 m (a + 4), load32 m (a + 8), load32 m (a + 12), load32 m (a + 16), load32 m (a + 20)]"
  by (simp add: eval_nat_numeral add.assoc)

lemma load_words_cong: "(\<And>i. i < 4 * n \<Longrightarrow> m' (a + of_nat i) = m (a + of_nat i)) \<Longrightarrow> load_words m' a n = load_words m a n"
proof (induction n arbitrary: a)
  case (Suc n)
  have "load_words m' (a + 4) n = load_words m (a + 4) n"
    using Suc.prems [of "_ + 4"] by (intro Suc.IH) (simp add: ac_simps)
  moreover have "load32 m' a = load32 m a"
    using Suc.prems [of 0] Suc.prems [of 1] Suc.prems [of 2] Suc.prems [of 3] by (simp add: load32_def)
  ultimately show ?case by simp
qed simp

lemma load_words_apart:
  assumes "4 * length ws \<le> unat (b - a)" and "4 * n \<le> unat (a - b)"
  shows "load_words (store_words m a ws) b n = load_words m b n"
  using assms
proof (induction n arbitrary: b)
  case (Suc n)
  have l: "load32 (store_words m a ws) b = load32 m b" using Suc.prems by (intro load_store_words_other) simp_all
  show ?case
  proof (cases "n = 0")
    case False
    have "unat (a - (b + 4)) = unat (a - b) - 4"
      using Suc.prems(2) unat_sub [of 4 "a - b"] by (simp add: word_le_nat_alt diff_diff_eq)
    then have a: "4 * n \<le> unat (a - (b + 4))" using Suc.prems(2) by simp
    have u: "unat (b - a) = 2 ^ 32 - unat (a - b)"
      using unat_uminus32 [of "a - b"] Suc.prems False by (cases "a - b = 0") auto
    have "unat (b - a + 4) = unat (b - a) + unat (4 :: u32)" using u Suc.prems(2) False by (intro unat_plus_small) simp
    then have "4 * length ws \<le> unat (b - a + 4)" using Suc.prems(1) by linarith
    then have "4 * length ws \<le> unat (b + 4 - a)" by (simp add: diff_add_eq)
    with a Suc.IH l show ?thesis by simp
  qed (use l in simp)
qed simp

section \<open>The task queue\<close>

lemma dseg_next_nth:
  "dseg s pv p ns q \<Longrightarrow> i < length ns \<Longrightarrow> n_next s (ns ! i) = (if i + 1 < length ns then ns ! (i + 1) else q)"
proof (induction ns arbitrary: pv p i)
  case (Cons x ns)
  show ?case
  proof (cases i)
    case 0
    with Cons.prems show ?thesis by (cases ns) auto
  next
    case (Suc j)
    with Cons.IH [of x "n_next s x" j] Cons.prems show ?thesis by auto
  qed
qed simp

text \<open>\<open>task_queue s ns\<close>: the task list has the nodes \<open>ns\<close>, each holds a task, and the task knows its node.\<close>

definition task_queue :: "sched \<Rightarrow> ptr list \<Rightarrow> bool" where
  "task_queue s ns \<longleftrightarrow> task_list s \<noteq> NULL \<and> dlist (tlists s) (task_list s) ns \<and> NULL \<notin> n_value (tlists s) ` set ns
     \<and> (\<forall>x \<in> set ns. self (task s (n_value (tlists s) x)) = x)"

definition nth_task :: "sched \<Rightarrow> ptr list \<Rightarrow> nat \<Rightarrow> ptr" where
  "nth_task s ns i = n_value (tlists s) (ns ! i)"

lemma task_queue_nth:
  assumes "task_queue s ns" and "i < length ns"
  shows "nth_task s ns i \<noteq> NULL" and "self (task s (nth_task s ns i)) = ns ! i"
    and "n_next (tlists s) (ns ! i) = (if i + 1 < length ns then ns ! (i + 1) else NULL)"
    and "ns ! i \<noteq> NULL"
proof -
  have d: "dlist (tlists s) (task_list s) ns" using assms(1) by (simp add: task_queue_def)
  then show "n_next (tlists s) (ns ! i) = (if i + 1 < length ns then ns ! (i + 1) else NULL)"
    unfolding dlist_def using dseg_next_nth assms(2) by blast
  show "ns ! i \<noteq> NULL" using dlist_nonnull [OF d] assms(2) by simp
  show "nth_task s ns i \<noteq> NULL" "self (task s (nth_task s ns i)) = ns ! i"
    using assms by (auto simp: task_queue_def nth_task_def image_iff)
qed

text \<open>The task that the scheduler looks at first is the one after the current, around the list.\<close>

lemma next_candidate:
  assumes "task_queue s ns" and "i < length ns" and "nn = n_next (tlists s) (ns ! i)"
  shows "(if nn = NULL then list_peek_front (task_list s) (tlists s) else n_value (tlists s) nn)
    = nth_task s ns ((i + 1) mod length ns)"
proof (cases "i + 1 < length ns")
  case True
  then show ?thesis using task_queue_nth(3,4) [OF assms(1)] assms by (simp add: nth_task_def)
next
  case False
  then have "i + 1 = length ns" using assms(2) by simp
  moreover have "l_head (tlists s) (task_list s) = ns ! 0" "ns ! 0 \<noteq> NULL"
    using dlist_head [of "tlists s" "task_list s" ns] assms task_queue_nth(4) [OF assms(1), of 0]
    by (cases ns; auto simp: task_queue_def)+
  ultimately show ?thesis
    using task_queue_nth(3) [OF assms(1,2)] assms(3) by (simp add: nth_task_def list_peek_front_def)
qed

text \<open>What a switch leaves alone.\<close>

lemma context_switch_keeps [simp]:
  "tlists (context_switch n s) = tlists s" "task_list (context_switch n s) = task_list s"
  "current_task (context_switch n s) = n" "tcpu (context_switch n s) = tcpu s"
  "current_page_dir (tvm (context_switch n s)) = current_page_dir (tvm s)" "cr3 (tvm (context_switch n s)) = cr3 (tvm s)"
  "task (context_switch n s) = (task s)(current_task s := (task s (current_task s))\<lparr>kstack := r_esp (regs s) - 20\<rparr>)"
  by (simp_all add: context_switch_def load_context_def save_context_def upd_task_def upd_mem_def Let_def)

lemma account_time_keeps [simp]:
  "tlists (account_time s) = tlists s" "task_list (account_time s) = task_list s"
  "current_task (account_time s) = current_task s" "tcpu (account_time s) = tcpu s" "tvm (account_time s) = tvm s"
  "regs (account_time s) = regs s"
  "task (account_time s) = (task s)(current_task s := (task s (current_task s))
     \<lparr>usage := usage (task s (current_task s)) + (timer_ticks s - prev_ticks s)\<rparr>)"
  "prev_ticks (account_time s) = timer_ticks s"
  by (simp_all add: account_time_def upd_task_def get_ticks_def Let_def)

text \<open>What \<open>schedule\<close> does once a task is picked.\<close>

definition switch_to :: "ptr \<Rightarrow> sched \<Rightarrow> sched" where
  "switch_to next s =
     (let s = account_time s;
          s = s\<lparr>tcpu := tss_set_stack 0x10 (kstack (task s next)) (tcpu s)\<rparr>;
          s = s\<lparr>tvm := switch_page_directory (page_dir (task s next)) (tvm s)\<rparr>
      in context_switch next s)"

lemma schedule_pick:
  "task_list s \<noteq> NULL \<Longrightarrow> current_task s \<noteq> NULL \<Longrightarrow>
     schedule s = map_option (map_sum id (\<lambda>(n, s). switch_to n s)) (pick_next (n_next (tlists s) (self (task s (current_task s)))) s)"
  by (simp add: schedule_def switch_to_def [abs_def])

lemma switch_to_keeps [simp]:
  "tlists (switch_to n s) = tlists s" "task_list (switch_to n s) = task_list s" "current_task (switch_to n s) = n"
  "current_page_dir (tvm (switch_to n s)) = page_dir (task s n)"
  "esp0 (tss (tcpu (switch_to n s))) = kstack (task s n)"
  "self (task (switch_to n s) t) = self (task s t)" "state (task (switch_to n s) t) = state (task s t)"
  "page_dir (task (switch_to n s) t) = page_dir (task s t)" "exit_code (task (switch_to n s) t) = exit_code (task s t)"
  "usage (task (switch_to n s) t) = usage (task s t) + (if t = current_task s then timer_ticks s - prev_ticks s else 0)"
  by (simp_all add: switch_to_def Let_def switch_page_directory_def tss_set_stack_def)

lemma schedule_ready:
  assumes q: "task_queue s ns" and i: "i < length ns" and c: "current_task s = nth_task s ns i"
    and r: "state (task s (nth_task s ns ((i + 1) mod length ns))) \<noteq> TASK_ZOMBIE"
  shows "schedule s = Some (Inr (switch_to (nth_task s ns ((i + 1) mod length ns)) s))"
proof -
  note n = task_queue_nth [OF q i]
  have "pick_next (n_next (tlists s) (ns ! i)) s = Some (Inr (nth_task s ns ((i + 1) mod length ns), s))"
    using next_candidate [OF q i refl] r by (subst pick_next.simps) (simp add: Let_def)
  then show ?thesis using schedule_pick [of s] q c n(1,2) by (simp add: task_queue_def)
qed

text \<open>The search for the next task changes nothing but the lists.\<close>

lemma pick_next_tlists:
  assumes "pick_next n s = Some (Inr (t, s'))"
  shows "\<exists>l. s' = s\<lparr>tlists := l\<rparr>"
proof -
  let ?P = "\<lambda>n s r. \<forall>t s'. r = Inr (t, s') \<longrightarrow> (\<exists>l. s' = s\<lparr>tlists := l\<rparr>)"
  have "?P n s r" if "pick_next n s = Some r" for r
  proof (rule pick_next.raw_induct [where P = ?P, OF _ that])
    fix f n s r
    assume IH: "\<And>n s r. f n s = Some r \<Longrightarrow> ?P n s r"
      and e: "(let next = (if n = NULL then list_peek_front (task_list s) (tlists s) else n_value (tlists s) n)
        in if state (task s next) = TASK_ZOMBIE then
             let s' = task_destroy next s
             in if n \<noteq> NULL \<and> n \<in> set (drop (length (freed (tlists s))) (freed (tlists s'))) then Some (Inl Use_after_free)
                else f n s'
           else Some (Inr (next, s))) = Some r"
    have d: "\<exists>l. task_destroy t s = s\<lparr>tlists := l\<rparr>" for t by (auto simp: task_destroy_def Let_def)
    show "?P n s r"
    proof (intro allI impI)
      fix t s' assume r: "r = Inr (t, s')"
      from e r consider "s' = s" | x where "f n (task_destroy x s) = Some r" by (auto simp: Let_def split: if_splits)
      then show "\<exists>l. s' = s\<lparr>tlists := l\<rparr>"
      proof cases
        case 1
        then show ?thesis by (intro exI [of _ "tlists s"]) simp
      next
        case 2
        with IH r obtain l where "s' = (task_destroy x s)\<lparr>tlists := l\<rparr>" by blast
        then show ?thesis using d [of x] by auto
      qed
    qed
  qed
  with assms show ?thesis by blast
qed

text \<open>The words that a switch saves, and those of a frame apart from them.\<close>

lemma save_context_words:
  "load_words (kmem (tvm (save_context s))) (r_esp (regs s) - 20) 6
   = [r_ebx (regs s), r_esi (regs s), r_edi (regs s), r_ebp (regs s), r_eip (regs s), r_eflags (regs s)]"
proof -
  define ws where "ws = [r_ebx (regs s), r_esi (regs s), r_edi (regs s), r_ebp (regs s), r_eip (regs s), r_eflags (regs s)]"
  have "kmem (tvm (save_context s)) = store_words (kmem (tvm s)) (r_esp (regs s) - 20) ws"
    by (simp add: save_context_def upd_task_def upd_mem_def Let_def ws_def)
  moreover have "length ws = 6" by (simp add: ws_def)
  ultimately show ?thesis
    using load_store_words [of ws "kmem (tvm s)" "r_esp (regs s) - 20"] by (simp add: ws_def [symmetric])
qed

lemma save_context_frame:
  assumes "apart 24 sp (r_esp (regs s) - 20)"
  shows "load_words (kmem (tvm (save_context s))) sp 6 = load_words (kmem (tvm s)) sp 6"
  using assms by (simp add: save_context_def upd_task_def upd_mem_def Let_def apart_def word_le_nat_alt load_words_apart del: store_words.simps)

section \<open>Properties\<close>


text \<open>Two tasks, at 7 and 8; the first runs.\<close>

definition demo_sched :: sched where
  "demo_sched = \<lparr>task = (\<lambda>t. zero_task\<lparr>self := if t = 7 then 0x300 else 0x200, page_dir := t * 0x1000, kstack := t * 0x100\<rparr>),
     current_task = 7, task_list = 0x10, tlists = demo_lists, next_tid = 2, prev_ticks = 5, curr_ticks = 5,
     timer_ticks = 9, tvm = demo_boot_state, tcpu = demo_tables,
     regs = \<lparr>r_ebx = 1, r_esi = 2, r_edi = 3, r_ebp = 4, r_eip = 5, r_eflags = 0x202, r_esp = 0x9000\<rparr>\<rparr>"

lemma demo_sched_simps [simp]:
  "current_task demo_sched = 7" "task_list demo_sched = 0x10" "tlists demo_sched = demo_lists"
  "timer_ticks demo_sched = 9" "prev_ticks demo_sched = 5" "nth_task demo_sched [0x300, 0x200] 0 = 7"
  "nth_task demo_sched [0x300, 0x200] 1 = 8" "nth_task demo_sched [0x300, 0x200] (Suc 0) = 8"
  "state (task demo_sched t) = TASK_READY" "page_dir (task demo_sched t) = t * 0x1000" "usage (task demo_sched t) = 0"
  "self (task demo_sched t) = (if t = 7 then 0x300 else 0x200)"
  by (simp_all add: demo_sched_def nth_task_def zero_task_def demo_lists_ok)

lemma demo_sched_queue: "task_queue demo_sched [0x300, 0x200]"
  using demo_lists_ok by (simp add: task_queue_def)


text \<open>Repeated scheduling.\<close>

primrec schedule_times :: "nat \<Rightarrow> sched \<Rightarrow> (kerr + sched) option" where
  "schedule_times 0 s = Some (Inr s)"
| "schedule_times (Suc n) s =
     Option.bind (schedule s) (\<lambda>r. case r of Inl e \<Rightarrow> Some (Inl e) | Inr s' \<Rightarrow> schedule_times n s')"

lemma schedule_times_round:
  assumes "task_queue s ns" and "i < length ns" and "current_task s = nth_task s ns i"
    and "\<forall>x \<in> set ns. state (task s (n_value (tlists s) x)) \<noteq> TASK_ZOMBIE"
  shows "\<exists>s'. schedule_times k s = Some (Inr s') \<and> current_task s' = nth_task s ns ((i + k) mod length ns)"
  using assms
proof (induction k arbitrary: s i)
  case (Suc k)
  let ?j = "(i + 1) mod length ns"
  let ?s = "switch_to (nth_task s ns ?j) s"
  have j: "?j < length ns" using Suc.prems(2) by (intro mod_less_divisor) auto
  have r: "schedule s = Some (Inr ?s)"
    using schedule_ready [OF Suc.prems(1-3)] Suc.prems(4) j by (simp add: nth_task_def)
  have "\<exists>s'. schedule_times k ?s = Some (Inr s') \<and> current_task s' = nth_task ?s ns ((?j + k) mod length ns)"
    using Suc.prems(1,4) j by (intro Suc.IH) (simp_all add: task_queue_def nth_task_def)
  then show ?case using r by (simp add: nth_task_def mod_add_left_eq) 
qed simp

text \<open>C10: no task starves. When no task is a zombie, each task of the queue is the current one after
  fewer switches than the queue has tasks.\<close>

theorem schedule_fair:
  assumes "task_queue s ns" and "current_task s \<in> n_value (tlists s) ` set ns"
    and "\<forall>x \<in> set ns. state (task s (n_value (tlists s) x)) \<noteq> TASK_ZOMBIE" and "t \<in> n_value (tlists s) ` set ns"
  shows "\<exists>k < length ns. \<exists>s'. schedule_times k s = Some (Inr s') \<and> current_task s' = t"
proof -
  obtain i j where i: "i < length ns" "current_task s = nth_task s ns i" and j: "j < length ns" "t = nth_task s ns j"
    using assms(2,4) by (auto simp: nth_task_def in_set_conv_nth)
  define k where "k = (j + length ns - i) mod length ns"
  have "(i + k) mod length ns = (i + (j + length ns - i)) mod length ns" unfolding k_def by (rule mod_add_right_eq)
  then have "(i + k) mod length ns = j" using i j by simp
  moreover have "k < length ns" using i unfolding k_def by (intro mod_less_divisor) auto
  ultimately show ?thesis using schedule_times_round [OF assms(1) i assms(3), of k] j by auto
qed

theorem schedule_fair_witness:
  "\<exists>k < 2. \<exists>s'. schedule_times k demo_sched = Some (Inr s') \<and> current_task s' = 8"
  using schedule_fair [OF demo_sched_queue, of 8] by (simp add: demo_lists_ok numeral_2_eq_2)

text \<open>C39: when the task after the current one is a zombie and the current one is not the last of the
  queue, \<open>schedule\<close> destroys the zombie and then reads the list node it has just freed.\<close>

theorem schedule_reads_freed_node:
  assumes "task_queue s ns" and "i + 1 < length ns" and "current_task s = nth_task s ns i"
    and "state (task s (nth_task s ns (i + 1))) = TASK_ZOMBIE"
  shows "schedule s = Some (Inl Use_after_free)"
proof -
  let ?n = "ns ! (i + 1)"
  have i: "i < length ns" using assms(2) by simp
  note n = task_queue_nth [OF assms(1) i] and m = task_queue_nth [OF assms(1,2)]
  have d: "dlist (tlists s) (task_list s) ns" using assms(1) by (simp add: task_queue_def)
  obtain ls where "list_remove_node (task_list s) ?n (tlists s) = (n_value (tlists s) ?n, ls)" "freed ls = freed (tlists s) @ [?n]"
    using list_remove_node_ok [OF d nth_mem [OF assms(2)]] assms(2) by auto
  then have "?n \<in> set (drop (length (freed (tlists s))) (freed (tlists (task_destroy (nth_task s ns (i + 1)) s))))"
    using m(2) by (simp add: task_destroy_def list_kfree_def)
  then have "pick_next ?n s = Some (Inl Use_after_free)"
    using assms(4) m(4) by (subst pick_next.simps) (simp add: nth_task_def Let_def)
  then show ?thesis using schedule_pick [of s] assms(1-3) n by (simp add: task_queue_def)
qed

theorem schedule_reads_freed_node_witness:
  "schedule (upd_task 8 (\<lambda>t. t\<lparr>state := TASK_ZOMBIE\<rparr>) demo_sched) = Some (Inl Use_after_free)"
proof -
  have "task_queue (upd_task 8 (\<lambda>t. t\<lparr>state := TASK_ZOMBIE\<rparr>) demo_sched) [0x300, 0x200]"
    using demo_lists_ok by (simp add: task_queue_def upd_task_def)
  from schedule_reads_freed_node [OF this, of 0] show ?thesis
    by (simp add: upd_task_def nth_task_def demo_lists_ok)
qed

text \<open>A task that was switched away resumes exactly where it was. If the task is not the one
  running when it is picked again and the six words that were saved are intact and apart from the frame that
  this switch saves, then all its registers are back, and the stack pointer is past the return address.\<close>

theorem context_switch_resumes:
  fixes s s2 :: sched
  defines "sp \<equiv> r_esp (regs s) - 20" and "sp2 \<equiv> r_esp (regs s2) - 20"
  assumes "t = current_task s" and "s1 = context_switch other s" and "current_task s2 \<noteq> t"
    and "kstack (task s2 t) = kstack (task s1 t)"
    and "load_words (kmem (tvm s2)) sp 6 = load_words (kmem (tvm (save_context s))) sp 6"
    and "24 \<le> unat (sp - sp2)" and "24 \<le> unat (sp2 - sp)"
  shows "regs (context_switch t s2) = (regs s)\<lparr>r_esp := r_esp (regs s) + 4\<rparr> \<and> current_task (context_switch t s2) = t"
proof -
  have k: "kstack (task s2 t) = sp" using assms(3,4,6) by (simp add: sp_def)
  have "apart 24 sp sp2" using assms(8,9) by (simp add: apart_def word_le_nat_alt)
  then have w: "load_words (kmem (tvm (save_context s2))) sp 6
      = [r_ebx (regs s), r_esi (regs s), r_edi (regs s), r_ebp (regs s), r_eip (regs s), r_eflags (regs s)]"
    using save_context_frame [of sp s2] save_context_words [of s] assms(7) by (simp add: sp_def sp2_def)
  have "kstack (task (save_context s2) t) = sp"
    using k assms(5) by (simp add: save_context_def upd_task_def upd_mem_def Let_def)
  then have "regs (context_switch t s2) = (regs s)\<lparr>r_esp := sp + 24\<rparr>"
    using w by (simp add: context_switch_def load_context_def load_words_6)
  then show ?thesis by (simp add: sp_def)
qed

theorem context_switch_resumes_witness:
  "\<exists>s2. current_task s2 = 8 \<and> regs (context_switch 7 s2) = (regs demo_sched)\<lparr>r_esp := 0x9004\<rparr>"
proof -
  let ?s2 = "(context_switch 8 demo_sched)\<lparr>regs := (regs demo_sched)\<lparr>r_esp := 0x5000, r_eip := 77\<rparr>\<rparr>"
  have e: "r_esp (regs demo_sched) = 0x9000" by (simp add: demo_sched_def)
  have "kstack (task (save_context demo_sched) 8) = 0x800"
    by (simp add: save_context_def upd_task_def upd_mem_def Let_def) (simp add: demo_sched_def)
  then have "load_words (kmem (tvm (context_switch 8 demo_sched))) 0x8fec 6 = load_words (kmem (tvm (save_context demo_sched))) 0x8fec 6"
    unfolding load_words_6 by (simp add: context_switch_def load_context_def upd_mem_def Let_def load_store_apart apart_def)
  with e show ?thesis
    using context_switch_resumes [of 7 demo_sched "context_switch 8 demo_sched" 8 ?s2]
    by (intro exI [of _ ?s2]) simp
qed

text \<open>The first switch to a new task enters its function with interrupts enabled, whether the
  creating task was in an interrupt or not.\<close>

theorem new_task_enters_function:
  "r_eip (regs (load_context t (build_stack t stk func s))) = func
   \<and> r_eflags (regs (load_context t (build_stack t stk func s))) = 0x202
   \<and> r_ebp (regs (load_context t (build_stack t stk func s))) = kstack (task (build_stack t stk func s) t)
   \<and> current_task (load_context t (build_stack t stk func s)) = t"
  by (cases "ifr (task s (current_task s)) = NULL")
    (simp_all add: build_stack_def load_context_def upd_task_def upd_mem_def Let_def load_store_apart apart_def)

section \<open>The first task\<close>

text \<open>With no current task, \<open>schedule\<close> switches to the front of the list.\<close>

lemma schedule_first:
  assumes "task_list s \<noteq> NULL" and "current_task s = NULL"
  shows "schedule s = Some (Inr (context_switch (list_peek_front (task_list s) (tlists s)) s))"
  using assms by (simp add: schedule_def)

text \<open>The frame that \<open>build_stack\<close> leaves survives the save of a frame that is apart from it.\<close>

lemma new_frame_entered:
  fixes s :: sched
  defines "sp \<equiv> r_esp (regs s) - 20"
  assumes "current_task s \<noteq> t" and "kstack (task s t) = ks" and "24 \<le> unat (ks - sp)" and "24 \<le> unat (sp - ks)"
  shows "r_eip (regs (context_switch t s)) = load32 (kmem (tvm s)) (ks + 16)"
    and "r_eflags (regs (context_switch t s)) = load32 (kmem (tvm s)) (ks + 20)"
    and "current_task (context_switch t s) = t"
proof -
  let ?ws = "[r_ebx (regs s), r_esi (regs s), r_edi (regs s), r_ebp (regs s), r_eip (regs s), r_eflags (regs s)]"
  have m: "load_words (store_words (kmem (tvm s)) sp ?ws) ks 6 = load_words (kmem (tvm s)) ks 6"
    by (rule load_words_apart) (use assms(4,5) in simp_all)
  have k: "kmem (tvm (save_context s)) = store_words (kmem (tvm s)) sp ?ws" "kstack (task (save_context s) t) = ks"
    using assms(2,3) by (simp_all add: save_context_def sp_def upd_task_def upd_mem_def Let_def)
  show "r_eip (regs (context_switch t s)) = load32 (kmem (tvm s)) (ks + 16)"
    "r_eflags (regs (context_switch t s)) = load32 (kmem (tvm s)) (ks + 20)" "current_task (context_switch t s) = t"
    using m k unfolding load_words_6 by (simp_all add: context_switch_def load_context_def Let_def)
qed

text \<open>The scheduler starts. With the kernel's page directory in use, no task yet and a new stack that is
  apart from the boot stack, \<open>multitasking_init\<close> returns into the given function with interrupts enabled; the task
  is the only one of the queue, has the next identifier, and its own page directory translates every address
  as the kernel's does.\<close>

lemma multitasking_init_starts:
  assumes "current_task s = NULL" and "ifr (task s NULL) = NULL"
    and "lst \<noteq> NULL" and "t \<noteq> NULL" and "stk \<noteq> NULL" and "cell \<noteq> NULL"
    and "current_page_dir (tvm s) = kernel_page_dir (tvm s)" and "pd \<noteq> kernel_page_dir (tvm s)"
    and "24 \<le> unat (stk + 0x1000 - 24 - (r_esp (regs s) - 20))" and "24 \<le> unat (r_esp (regs s) - 20 - (stk + 0x1000 - 24))"
  shows "\<exists>s'. multitasking_init km lst t pd stk cell func s = Some (Inr (t, s')) \<and> current_task s' = t
    \<and> r_eip (regs s') = func \<and> r_eflags (regs s') = 0x202 \<and> tid (task s' t) = next_tid s \<and> next_tid s' = next_tid s + 1
    \<and> task_queue s' [cell] \<and> nth_task s' [cell] 0 = t
    \<and> (\<forall>va. virt2phys (tvm s') (page_dir (task s' t)) va = virt2phys (tvm s) (kernel_page_dir (tvm s)) va)
    \<and> tcpu s' = tcpu s \<and> interrupt_handlers (tvm s') = interrupt_handlers (tvm s)"
proof -
  obtain v where v: "copy_page_directory km pd (kernel_page_dir (tvm s)) (tvm s) = Some v" "v = (tvm s)\<lparr>pdirs := pdirs v\<rparr>"
      "\<And>va. virt2phys v pd va = virt2phys (tvm s) (kernel_page_dir (tvm s)) va"
    using copy_kernel_directory [OF assms(8)] by blast
  let ?ks = "stk + 0x1000 - 24"
  let ?nt = "zero_task\<lparr>tid := next_tid s, page_dir := pd, kstack_mem := stk, kstack := ?ks, self := cell\<rparr>"
  let ?k = "store32 (store32 (store32 (kmem v) (?ks + 12) ?ks) (?ks + 16) func) (?ks + 20) 0x202"
  let ?ls = "list_insert_front cell lst t (list_create lst (tlists s))"
  let ?s = "s\<lparr>task_list := lst, next_tid := next_tid s + 1, tvm := v\<lparr>kmem := ?k\<rparr>, tlists := ?ls, task := (task s)(t := ?nt)\<rparr>"
  have d: "dlist ?ls lst [cell]" "n_value ?ls cell = t"
    using list_insert_front_ok [OF list_create_ok [of lst "tlists s"] assms(6), where v = t] by simp_all
  then have pk: "list_peek_front lst ?ls = t" using dlist_head [OF d(1)] assms(6) by (simp add: list_peek_front_def)
  have c: "multitasking_init km lst t pd stk cell func s = map_option (map_sum id (\<lambda>s. (t, s))) (schedule ?s)"
    using assms(1-5,7) v(1)
    by (simp add: multitasking_init_def task_create_def build_stack_def upd_task_def upd_mem_def Let_def)
  have sch: "schedule ?s = Some (Inr (context_switch t ?s))"
    using schedule_first [of ?s] assms(1,3) pk by simp
  note e = new_frame_entered [of ?s t ?ks]
  have f: "load32 ?k (?ks + 16) = func" "load32 ?k (?ks + 20) = 0x202"
    by (simp_all add: load_store_apart apart_def)
  have r: "r_eip (regs (context_switch t ?s)) = func" "r_eflags (regs (context_switch t ?s)) = 0x202"
      "current_task (context_switch t ?s) = t"
    using e assms(1,4,9,10) f by simp_all
  have keep: "tid (task (context_switch t ?s) t) = next_tid s" "next_tid (context_switch t ?s) = next_tid s + 1"
      "page_dir (task (context_switch t ?s) t) = pd" "self (task (context_switch t ?s) t) = cell"
      "tlists (context_switch t ?s) = ?ls" "task_list (context_switch t ?s) = lst"
      "\<And>va. virt2phys (tvm (context_switch t ?s)) pd va = virt2phys v pd va" "tcpu (context_switch t ?s) = tcpu s"
      "interrupt_handlers (tvm (context_switch t ?s)) = interrupt_handlers v"
    by (simp_all add: context_switch_def load_context_def save_context_def upd_task_def upd_mem_def virt2phys_def Let_def)
  have "task_queue (context_switch t ?s) [cell]" "nth_task (context_switch t ?s) [cell] 0 = t"
    using d assms(3,4) keep by (simp_all add: task_queue_def nth_task_def)
  moreover have "interrupt_handlers v = interrupt_handlers (tvm s)" by (subst v(2)) simp
  ultimately show ?thesis using c sch r keep v(3) by (intro exI [of _ "context_switch t ?s"]) simp
qed

lemma multitasking_init_starts_witness:
  "\<exists>s'. multitasking_init (\<lambda>_ _. None) 0x10 0x7000 0xa000 0xc000 0x200 0xc0101234 (demo_sched\<lparr>current_task := NULL\<rparr>)
       = Some (Inr (0x7000, s')) \<and> r_eip (regs s') = 0xc0101234"
proof -
  let ?s = "demo_sched\<lparr>current_task := NULL\<rparr>"
  have h: "current_task ?s = NULL" "ifr (task ?s NULL) = NULL" "current_page_dir (tvm ?s) = kernel_page_dir (tvm ?s)"
      "0xa000 \<noteq> kernel_page_dir (tvm ?s)" "r_esp (regs demo_sched) = 0x9000"
    by (simp_all add: demo_sched_def zero_task_def demo_boot_state_def)
  from multitasking_init_starts [OF h(1,2) _ _ _ _ h(3,4), of "0x10" "0x7000" "0xc000" "0x200" "\<lambda>_ _. None" "0xc0101234"]
  show ?thesis by (auto simp: h(5))
qed

end
