(* ===== verification/Interrupts.thy ===== *)
theory Interrupts
  imports Tasks Keyboard Serial Rtc Kdisplay
begin

unbundle bit_operations_syntax

text \<open>
  What happens when an interrupt is taken: the dispatch of kernel/cpu/isr.c, the timer interrupt of
  kernel/drivers/timer.c, the trap of kernel/cpu/fpu.c, and the system calls of kernel/sys/syscall.c
  and kernel/sys/syscalls/sys_task.c. The saved registers \<open>regs_t\<close> are nineteen words of \<open>kmem\<close> at
  the address the stub passes. A handler either returns, or \<open>schedule\<close> has switched tasks under it and
  the rest of the handler runs when its task is resumed, or it never returns.
\<close>

section \<open>State\<close>

type_synonym fpu_image = "u8 list"

record machine =
  ms :: sched
  m_shift :: u8
  m_time :: time_t
  m_serial :: serial
  m_io :: io
  m_con :: "con_action list"
  fpu :: fpu_image
  fpu_areas :: "ptr \<Rightarrow> fpu_image"
  last_fpu_task :: ptr

text \<open>\<open>Suspended (Some (f, v))\<close>: on resumption \<open>v\<close> goes to the \<open>eax\<close> of the frame at \<open>f\<close>.\<close>

datatype resume = Returned | Suspended "(ptr \<times> u32) option" | Exited

type_synonym outcome = "(kerr + resume \<times> machine) option"

abbreviation regs_ebx :: "ptr \<Rightarrow> ptr" where "regs_ebx r \<equiv> r + 32"
abbreviation regs_eax :: "ptr \<Rightarrow> ptr" where "regs_eax r \<equiv> r + 44"
abbreviation regs_int_no :: "ptr \<Rightarrow> ptr" where "regs_int_no r \<equiv> r + 48"
abbreviation regs_eip :: "ptr \<Rightarrow> ptr" where "regs_eip r \<equiv> r + 56"

definition frame_word :: "machine \<Rightarrow> ptr \<Rightarrow> u32" where
  "frame_word m a = load32 (kmem (tvm (ms m))) a"

definition set_eax :: "ptr \<Rightarrow> u32 \<Rightarrow> machine \<Rightarrow> machine" where
  "set_eax f v m = m\<lparr>ms := upd_mem (\<lambda>k. store32 k (regs_eax f) v) (ms m)\<rparr>"

definition printed :: "(kerr + int \<times> con_action list) \<Rightarrow> machine \<Rightarrow> machine" where
  "printed p m = (case p of Inl _ \<Rightarrow> m | Inr (_, out) \<Rightarrow> m\<lparr>m_con := m_con m @ out\<rparr>)"

definition this_task :: "machine \<Rightarrow> task_t" where
  "this_task m = task (ms m) (current_task (ms m))"

definition switched :: "(ptr \<times> u32) option \<Rightarrow> machine \<Rightarrow> (kerr + sched) option \<Rightarrow> outcome" where
  "switched k m r = map_option (map_sum id (\<lambda>s. (Suspended k, m\<lparr>ms := s\<rparr>))) r"

section \<open>System calls\<close>

datatype syscall = Sys_gettid | Sys_yield | Sys_exit | Sys_rpl3test

text \<open>The table has five slots; slot 0 is empty.\<close>

definition syscall_table :: "u32 \<Rightarrow> syscall option" where
  "syscall_table n = (if n = 1 then Some Sys_gettid else if n = 2 then Some Sys_yield
     else if n = 3 then Some Sys_exit else if n = 4 then Some Sys_rpl3test else None)"

definition sys_gettid :: "machine \<Rightarrow> u32" where
  "sys_gettid m = tid (this_task m)"

definition sys_rpl3test :: "machine \<Rightarrow> u32 \<times> machine" where
  "sys_rpl3test m = (0, printed (kprintf (Some (''hello from usermode (rpl=3)'' @ [CHR 0x0A])) []) m)"

definition sys_yield :: "ptr \<Rightarrow> machine \<Rightarrow> outcome" where
  "sys_yield f m = switched (Some (f, 0)) m (schedule (ms m))"

definition sys_exit :: "u32 \<Rightarrow> machine \<Rightarrow> outcome" where
  "sys_exit code m = map_option (map_sum id (\<lambda>s. (Exited, m\<lparr>ms := s\<rparr>))) (task_exit code (ms m))"

definition bad_syscall :: "ptr \<Rightarrow> machine \<Rightarrow> outcome" where
  "bad_syscall f m =
     (let m = printed (klog (Some LOG_ERR) (Some (''Invalid syscall number: %d'' @ [CHR 0x0A])) [VInt (frame_word m (regs_eax f))]) m
      in Some (Inr (Returned, set_eax f (- 1) m)))"

definition syscall_dispatcher :: "machine \<Rightarrow> outcome" where
  "syscall_dispatcher m =
     (let f = ifr (this_task m); n = frame_word m (regs_eax f)
      in if n \<le> 0 \<or> n > 4 then bad_syscall f m
         else case syscall_table n of
           None \<Rightarrow> bad_syscall f m
         | Some Sys_gettid \<Rightarrow> Some (Inr (Returned, set_eax f (sys_gettid m) m))
         | Some Sys_rpl3test \<Rightarrow> (let (v, m) = sys_rpl3test m in Some (Inr (Returned, set_eax f v m)))
         | Some Sys_yield \<Rightarrow> sys_yield f m
         | Some Sys_exit \<Rightarrow> sys_exit (frame_word m (regs_ebx f)) m)"

text \<open>What is left of a system call when its task is resumed.\<close>

definition syscall_resume :: "(ptr \<times> u32) option \<Rightarrow> machine \<Rightarrow> machine" where
  "syscall_resume k m = (case k of None \<Rightarrow> m | Some (f, v) \<Rightarrow> set_eax f v m)"

section \<open>Handlers\<close>

definition timer_irq_handler :: "machine \<Rightarrow> outcome" where
  "timer_irq_handler m =
     (let m = m\<lparr>ms := (ms m)\<lparr>timer_ticks := timer_ticks (ms m) + 1\<rparr>\<rparr>
      in switched None m (schedule (ms m)))"

text \<open>\<open>fninit\<close> is the register image after the instruction of that name.\<close>

definition fpu_exception_handler :: "fpu_image \<Rightarrow> machine \<Rightarrow> machine" where
  "fpu_exception_handler fninit m =
     (let m = m\<lparr>ms := (ms m)\<lparr>tvm := (tvm (ms m))\<lparr>cr0 := cr0 (tvm (ms m)) AND NOT 8\<rparr>\<rparr>\<rparr>;
          area = fpu_state (this_task m);
          m = (if last_fpu_task m \<noteq> NULL then m\<lparr>fpu_areas := (fpu_areas m)(area := fpu m)\<rparr> else m);
          m = (if fpu_used (this_task m) = 0 then
                 m\<lparr>fpu := fninit, fpu_areas := (fpu_areas m)(area := fninit),
                   ms := upd_task (current_task (ms m)) (\<lambda>t. t\<lparr>fpu_used := 1\<rparr>) (ms m)\<rparr>
               else m\<lparr>fpu := fpu_areas m area\<rparr>)
      in m\<lparr>last_fpu_task := current_task (ms m)\<rparr>)"

definition fpu_init :: "bool \<Rightarrow> fpu_image \<Rightarrow> machine \<Rightarrow> machine" where
  "fpu_init edx_fpu fninit m =
     (let m = printed (klog (Some LOG_OK) (Some (''Enabling floating-point unit'' @ [CHR 0x0A])) []) m
      in if \<not> edx_fpu then printed (klog (Some LOG_ERR) (Some (''Builtin FPU not present'' @ [CHR 0x0A])) []) m
         else m\<lparr>fpu := fninit, ms := (ms m)\<lparr>tvm := (tvm (ms m))\<lparr>
                  interrupt_handlers := int_install_handler 7 Fpu_exception_handler (interrupt_handlers (tvm (ms m))),
                  cr0 := cr0 (tvm (ms m)) OR 0x018, cr4 := cr4 (tvm (ms m)) OR 0x200\<rparr>\<rparr>\<rparr>)"

definition syscalls_init :: "machine \<Rightarrow> machine" where
  "syscalls_init m =
     (let m = printed (klog (Some LOG_OK) (Some (''Initializing syscall handler'' @ [CHR 0x0A])) []) m
      in m\<lparr>ms := (ms m)\<lparr>tvm := (tvm (ms m))\<lparr>interrupt_handlers :=
            int_install_handler 0x7f Syscall_dispatcher (interrupt_handlers (tvm (ms m)))\<rparr>\<rparr>\<rparr>)"

definition run_handler :: "hardware \<Rightarrow> fpu_image \<Rightarrow> isr_function \<Rightarrow> machine \<Rightarrow> outcome" where
  "run_handler hw fninit f m =
     (case f of
        Page_fault \<Rightarrow> Some (Inl Panic)
      | Timer_irq_handler \<Rightarrow> timer_irq_handler m
      | Rtc_irq_handler \<Rightarrow>
          (let (dt, h) = rtc_irq_handler hw (m_time m) (m_io m) in Some (Inr (Returned, m\<lparr>m_time := dt, m_io := h\<rparr>)))
      | Keyboard_irq_handler \<Rightarrow>
          (let (sh, c, h) = keyboard_irq_handler hw (m_shift m) (m_io m); m = m\<lparr>m_shift := sh, m_io := h\<rparr>
           in Some (Inr (Returned, case c of None \<Rightarrow> m | Some c \<Rightarrow> printed (kprintf (Some ''%c'') [VInt (ucast c)]) m)))
      | Serial_irq_handler \<Rightarrow>
          map_option (\<lambda>(q, h). Inr (Returned, m\<lparr>m_serial := q, m_io := h\<rparr>)) (serial_irq_handler hw (m_serial m) (m_io m))
      | Fpu_exception_handler \<Rightarrow> Some (Inr (Returned, fpu_exception_handler fninit m))
      | Syscall_dispatcher \<Rightarrow> syscall_dispatcher m)"

section \<open>Dispatch\<close>

text \<open>The stubs pass vectors below 256 only; a larger one would read past the table.\<close>

definition installed :: "machine \<Rightarrow> u32 \<Rightarrow> isr_function option" where
  "installed m n = interrupt_handlers (tvm (ms m)) (ucast n)"

definition set_ifr :: "ptr \<Rightarrow> machine \<Rightarrow> machine" where
  "set_ifr r m = m\<lparr>ms := upd_task (current_task (ms m)) (\<lambda>t. t\<lparr>ifr := r\<rparr>) (ms m)\<rparr>"

definition isr_handler :: "hardware \<Rightarrow> fpu_image \<Rightarrow> ptr \<Rightarrow> machine \<Rightarrow> outcome" where
  "isr_handler hw fninit r m =
     (let m = set_ifr r m; n = frame_word m (regs_int_no r)
      in if 256 \<le> n then Some (Inl Buffer_overflow)
         else case installed m n of
           Some h \<Rightarrow> run_handler hw fninit h m
         | None \<Rightarrow> Some (Inr (Returned, printed (klog (Some LOG_WARN) (Some (''Unhandled interrupt: %d at 0x%x'' @ [CHR 0x0A]))
             [VInt n, VInt (frame_word m (regs_eip r))]) m)))"

definition end_of_interrupt :: "u32 \<Rightarrow> io \<Rightarrow> io" where
  "end_of_interrupt n h = outb 0x20 0x20 (if 40 \<le> n then outb 0xa0 0x20 h else h)"

definition irq_handler :: "hardware \<Rightarrow> fpu_image \<Rightarrow> ptr \<Rightarrow> machine \<Rightarrow> outcome" where
  "irq_handler hw fninit r m =
     (let m = set_ifr r m; n = frame_word m (regs_int_no r); m = m\<lparr>m_io := end_of_interrupt n (m_io m)\<rparr>
      in if 256 \<le> n then Some (Inl Buffer_overflow)
         else case installed m n of Some h \<Rightarrow> run_handler hw fninit h m | None \<Rightarrow> Some (Inr (Returned, m)))"

text \<open>
  \<open>sleep\<close>, given what successive reads of the tick counter return. The counter has 32 bits, the
  deadline 64. The result is the number of reads that were still too early.
\<close>

partial_function (option) sleep_loop :: "u64 \<Rightarrow> (nat \<Rightarrow> u32) \<Rightarrow> nat \<Rightarrow> nat option" where
  "sleep_loop eticks read k = (if eticks > ucast (read k) then sleep_loop eticks read (k + 1) else Some k)"

definition sleep :: "u64 \<Rightarrow> u32 \<Rightarrow> (nat \<Rightarrow> u32) \<Rightarrow> nat option" where
  "sleep ticks now read = sleep_loop (ticks + ucast now) read 0"

section \<open>Frames\<close>

lemma set_eax_word:
  "frame_word (set_eax f v m) (regs_eax f) = v"
  "apart 4 (regs_eax f) a \<Longrightarrow> frame_word (set_eax f v m) a = frame_word m a"
  by (simp_all add: frame_word_def set_eax_def upd_mem_def load_store_apart)

lemma set_eax_keeps [simp]:
  "task (ms (set_eax f v m)) = task (ms m)" "current_task (ms (set_eax f v m)) = current_task (ms m)"
  "tlists (ms (set_eax f v m)) = tlists (ms m)" "m_io (set_eax f v m) = m_io m"
  "timer_ticks (ms (set_eax f v m)) = timer_ticks (ms m)"
  by (simp_all add: set_eax_def upd_mem_def)

lemma printed_keeps [simp]: "ms (printed p m) = ms m" "m_io (printed p m) = m_io m" "frame_word (printed p m) a = frame_word m a"
  by (auto simp: printed_def frame_word_def split: sum.splits)

lemma set_ifr_keeps [simp]:
  "frame_word (set_ifr r m) a = frame_word m a" "installed (set_ifr r m) n = installed m n"
  "ifr (this_task (set_ifr r m)) = r" "m_io (set_ifr r m) = m_io m"
  "tlists (ms (set_ifr r m)) = tlists (ms m)" "task_list (ms (set_ifr r m)) = task_list (ms m)"
  "current_task (ms (set_ifr r m)) = current_task (ms m)" "timer_ticks (ms (set_ifr r m)) = timer_ticks (ms m)"
  "tid (this_task (set_ifr r m)) = tid (this_task m)" "tvm (ms (set_ifr r m)) = tvm (ms m)"
  "self (task (ms (set_ifr r m)) t) = self (task (ms m) t)" "state (task (ms (set_ifr r m)) t) = state (task (ms m) t)"
  "page_dir (task (ms (set_ifr r m)) t) = page_dir (task (ms m) t)"
  by (simp_all add: set_ifr_def frame_word_def installed_def upd_task_def this_task_def)

lemma regs_apart:
  "j \<in> {0, 4, 8, 12, 16, 20, 24, 28, 32, 36, 40, 48, 52, 56, 60, 64, 68, 72} \<Longrightarrow> apart 4 (regs_eax f) (f + j)" for j :: u32
  by (auto simp: apart_def)

section \<open>Properties\<close>

text \<open>A system call that does not switch tasks. It is taken through vector 127, returns to the caller
  with the thread identifier for number 1, zero for number 4 and -1 for every number outside 1 to 4, and
  changes no other saved register, no task and no list.\<close>

lemma syscall_returns_result:
  assumes "frame_word m (regs_int_no r) = 127" and "installed m 127 = Some Syscall_dispatcher"
    and "n = frame_word m (regs_eax r)" and "n \<noteq> 2" and "n \<noteq> 3"
  shows "\<exists>m'. isr_handler hw fi r m = Some (Inr (Returned, m'))
    \<and> frame_word m' (regs_eax r) = (if n = 1 then tid (this_task m) else if n = 4 then 0 else - 1)
    \<and> (\<forall>j \<in> {0, 4, 8, 12, 16, 20, 24, 28, 32, 36, 40, 48, 52, 56, 60, 64, 68, 72}. frame_word m' (r + j) = frame_word m (r + j))
    \<and> current_task (ms m') = current_task (ms m) \<and> tlists (ms m') = tlists (ms m)"
proof -
  let ?m = "set_ifr r m"
  have d: "isr_handler hw fi r m = syscall_dispatcher ?m"
    using assms(1,2) by (simp add: isr_handler_def run_handler_def)
  have four: "n > 4 \<or> n \<le> 0 \<or> n = 1 \<or> n = 2 \<or> n = 3 \<or> n = 4"
    by unat_arith
  let ?v = "if n = 1 then tid (this_task m) else if n = 4 then 0 else - 1"
  have "\<exists>m1. syscall_dispatcher ?m = Some (Inr (Returned, set_eax r ?v m1)) \<and> (\<forall>a. frame_word m1 a = frame_word m a)
      \<and> ms m1 = ms ?m"
    using four assms(3-5) unfolding syscall_dispatcher_def
    by (auto simp: bad_syscall_def syscall_table_def sys_gettid_def sys_rpl3test_def Let_def)
  then obtain m1 where m1: "isr_handler hw fi r m = Some (Inr (Returned, set_eax r ?v m1))"
      "\<And>a. frame_word m1 a = frame_word m a" "ms m1 = ms ?m"
    using d by auto
  have "frame_word (set_eax r ?v m1) (r + j) = frame_word m (r + j)"
    if "j \<in> {0, 4, 8, 12, 16, 20, 24, 28, 32, 36, 40, 48, 52, 56, 60, 64, 68, 72}" for j
    using set_eax_word(2) [OF regs_apart [OF that]] m1(2) by simp
  then show ?thesis using m1(1,3) by (intro exI [of _ "set_eax r ?v m1"]) (simp add: set_eax_word(1))
qed

definition demo_machine :: machine where
  "demo_machine = \<lparr>ms = demo_sched\<lparr>tvm := demo_boot_state\<lparr>kmem := (\<lambda>_. 0)(0x4030 := 127, 0x402c := 9, 0x5030 := 32),
       interrupt_handlers := [127 \<mapsto> Syscall_dispatcher, 32 \<mapsto> Timer_irq_handler]\<rparr>\<rparr>,
     m_shift = 0, m_time = \<lparr>year = 0, mnth = 0, day = 0, hour = 0, minute = 0, sec = 0\<rparr>, m_serial = serial_start, m_io = [], m_con = [], fpu = [1], fpu_areas = \<lambda>_. [],
     last_fpu_task = 0\<rparr>"

lemma syscall_returns_result_witness:
  "\<exists>m'. isr_handler (\<lambda>_ _. 0) [] 0x4000 demo_machine = Some (Inr (Returned, m')) \<and> frame_word m' 0x402c = - 1"
proof -
  have "frame_word demo_machine (regs_int_no 0x4000) = 127" "installed demo_machine 127 = Some Syscall_dispatcher"
    "frame_word demo_machine (regs_eax 0x4000) = 9"
    by (simp_all add: frame_word_def installed_def demo_machine_def load32_def)
  with syscall_returns_result [of demo_machine "0x4000" 9 "\<lambda>_ _. 0" "[]"] show ?thesis by auto
qed

text \<open>C12: the timer interrupt preempts. With the timer handler at vector 32 and the next task around
  the queue ready, the interrupt is acknowledged at the first controller only, counts one tick, and the
  next task runs, charged to nobody but the interrupted task.\<close>

theorem timer_interrupt_preempts:
  assumes "frame_word m (regs_int_no r) = 32" and "installed m 32 = Some Timer_irq_handler"
    and "task_queue (ms m) ns" and "i < length ns" and "current_task (ms m) = nth_task (ms m) ns i"
    and "nt = nth_task (ms m) ns ((i + 1) mod length ns)" and "state (task (ms m) nt) \<noteq> TASK_ZOMBIE"
  shows "\<exists>m'. irq_handler hw fi r m = Some (Inr (Suspended None, m')) \<and> current_task (ms m') = nt
    \<and> m_io m' = m_io m @ [Wr8 0x20 0x20] \<and> task_queue (ms m') ns
    \<and> usage (task (ms m') (current_task (ms m)))
       = usage (task (ms m) (current_task (ms m))) + (timer_ticks (ms m) + 1 - prev_ticks (ms m))"
proof -
  let ?m = "set_ifr r m"
  let ?s = "(ms ?m)\<lparr>timer_ticks := timer_ticks (ms m) + 1\<rparr>"
  have q: "task_queue ?s ns" "current_task ?s = nth_task ?s ns i" "nt = nth_task ?s ns ((i + 1) mod length ns)"
      "state (task ?s nt) \<noteq> TASK_ZOMBIE"
    using assms(3-7) by (simp_all add: task_queue_def nth_task_def)
  define s' where "s' = switch_to nt ?s"
  have sched: "schedule ?s = Some (Inr s')"
    using schedule_ready [OF q(1) assms(4) q(2)] q(3,4) by (simp add: s'_def)
  have s': "current_task s' = nt" "task_queue s' ns"
      "usage (task s' (current_task ?s)) = usage (task ?s (current_task ?s)) + (timer_ticks ?s - prev_ticks ?s)"
    using q(1) by (simp_all add: s'_def task_queue_def)
  have "irq_handler hw fi r m = Some (Inr (Suspended None, ?m\<lparr>m_io := m_io m @ [Wr8 0x20 0x20], ms := s'\<rparr>))"
    using assms(1,2) sched
    by (simp add: irq_handler_def run_handler_def timer_irq_handler_def switched_def installed_def end_of_interrupt_def outb_def)
  moreover have "usage (task ?s (current_task ?s)) = usage (task (ms m) (current_task (ms m)))"
      "prev_ticks ?s = prev_ticks (ms m)" "timer_ticks ?s = timer_ticks (ms m) + 1" "current_task ?s = current_task (ms m)"
    by (simp_all add: set_ifr_def upd_task_def)
  ultimately show ?thesis using s' by auto
qed

theorem timer_interrupt_preempts_witness:
  "\<exists>m'. irq_handler (\<lambda>_ _. 0) [] 0x5000 demo_machine = Some (Inr (Suspended None, m')) \<and> current_task (ms m') = 8
     \<and> m_io m' = [Wr8 0x20 0x20]"
proof -
  have f: "frame_word demo_machine (regs_int_no 0x5000) = 32" "installed demo_machine 32 = Some Timer_irq_handler"
    by (simp_all add: frame_word_def installed_def demo_machine_def load32_def)
  have "task_queue (ms demo_machine) [0x300, 0x200]"
    using demo_sched_queue by (simp add: task_queue_def demo_machine_def)
  from timer_interrupt_preempts [OF f this, of 0 8 "\<lambda>_ _. 0" "[]"] show ?thesis
    by (auto simp: demo_machine_def nth_task_def demo_lists_ok)
qed

lemma sleep_loop_Some: "sleep_loop e rd k = Some j \<Longrightarrow> e \<le> ucast (rd j)"
  by (rule sleep_loop.raw_induct [where P = "\<lambda>e rd k j. e \<le> ucast (rd j)", rotated])
    (auto split: if_splits)

lemma sleep_loop_first:
  assumes "e \<le> ucast (rd j)" and "k \<le> j" and "\<forall>i. k \<le> i \<and> i < j \<longrightarrow> ucast (rd i) < e"
  shows "sleep_loop e rd k = Some j"
  using assms(2,3)
proof (induction "j - k" arbitrary: k)
  case 0
  then show ?case using assms(1) by (subst sleep_loop.simps) auto
next
  case (Suc n)
  then have "sleep_loop e rd (k + 1) = Some j" by (intro Suc.hyps) auto
  with Suc show ?case by (subst sleep_loop.simps) auto
qed

text \<open>\<open>sleep\<close> returns at the first reading of the tick counter that has reached the deadline, and does
  not return if no reading does. Since the counter has 32 bits, a deadline from 2^32 on is never reached.\<close>

theorem sleep_until_deadline:
  "sleep ticks now rd = (if \<exists>k. ticks + ucast now \<le> ucast (rd k) then Some (LEAST k. ticks + ucast now \<le> ucast (rd k)) else None)
   \<and> (2 ^ 32 \<le> ticks + ucast now \<longrightarrow> sleep ticks now rd = None)"
proof -
  let ?e = "ticks + ucast now"
  have first: "sleep ticks now rd = Some (LEAST k. ?e \<le> ucast (rd k))" if "?e \<le> ucast (rd k)" for k
  proof -
    have "?e \<le> ucast (rd (LEAST k. ?e \<le> ucast (rd k)))" using that by (rule LeastI)
    then show ?thesis unfolding sleep_def
      by (rule sleep_loop_first) (auto dest: not_less_Least)
  qed
  have none: "sleep ticks now rd = None" if "\<nexists>k. ?e \<le> ucast (rd k)"
    using that sleep_loop_Some unfolding sleep_def by (metis not_None_eq)
  have "\<not> ?e \<le> ucast (rd k)" if "2 ^ 32 \<le> ?e" for k
  proof -
    have u: "unat (rd k) < 2 ^ 32" using unsigned_less [of "rd k", where 'a = nat] by simp
    have "take_bit 64 (unat (rd k)) < 2 ^ 32" by (rule le_less_trans [OF take_bit_nat_less_eq_self u])
    then have "unat (ucast (rd k) :: u64) < 2 ^ 32" by (simp add: unsigned_ucast_eq)
    moreover have "2 ^ 32 \<le> unat ?e" using that by (simp add: word_le_nat_alt)
    ultimately show ?thesis by (simp add: word_le_nat_alt)
  qed
  then show ?thesis using first none by metis
qed

theorem sleep_until_deadline_witness:
  "sleep 3 7 (\<lambda>k. of_nat k) = Some 10 \<and> sleep 0xffffffff 7 (\<lambda>k. of_nat k) = None"
proof -
  let ?r = "\<lambda>k. ucast (of_nat k :: u32) :: u64"
  have le: "10 \<le> ?r k \<Longrightarrow> 10 \<le> k" for k
    by (simp add: word_le_nat_alt unsigned_ucast_eq unsigned_of_nat) (erule order_trans, rule take_bit_nat_less_eq_self)
  have ten: "(10 :: u64) \<le> ?r 10" by simp
  have "(LEAST k. (10 :: u64) \<le> ?r k) = 10" using ten le by (rule Least_equality)
  moreover have "\<exists>k. (10 :: u64) \<le> ?r k" using ten by blast
  moreover have "3 + ucast (7 :: u32) = (10 :: u64)" "2 ^ 32 \<le> 0xffffffff + (ucast (7 :: u32) :: u64)" by simp_all
  ultimately show ?thesis
    using sleep_until_deadline [of 3 7 "\<lambda>k. of_nat k"] sleep_until_deadline [of "0xffffffff" 7 "\<lambda>k. of_nat k"] by metis
qed

text \<open>Once some task has used the floating-point unit, the trap of a task that used it before leaves
  the registers as they are: it saves them over the task's own image and loads that image back. So a task
  resumes with the registers of whichever task ran last.\<close>

theorem fpu_trap_keeps_registers:
  assumes "last_fpu_task m \<noteq> NULL" and "fpu_used (this_task m) \<noteq> 0"
  shows "fpu (fpu_exception_handler fi m) = fpu m \<and> fpu_areas (fpu_exception_handler fi m) (fpu_state (this_task m)) = fpu m
    \<and> last_fpu_task (fpu_exception_handler fi m) = current_task (ms m)"
  using assms by (simp add: fpu_exception_handler_def this_task_def Let_def)

theorem fpu_trap_keeps_registers_witness:
  "fpu (fpu_exception_handler [] (demo_machine\<lparr>last_fpu_task := 8, ms := upd_task 7 (\<lambda>t. t\<lparr>fpu_used := 1\<rparr>) (ms demo_machine)\<rparr>)) = [1]"
  using fpu_trap_keeps_registers [of "demo_machine\<lparr>last_fpu_task := 8, ms := upd_task 7 (\<lambda>t. t\<lparr>fpu_used := 1\<rparr>) (ms demo_machine)\<rparr>" "[]"]
  by (simp add: this_task_def upd_task_def) (simp add: demo_machine_def)

text \<open>Exiting through the system call makes the caller a zombie with the code it passed in \<open>ebx\<close>, and
  control never comes back to it: the next task of the queue runs.\<close>

theorem sys_exit_leaves:
  assumes "task_queue (ms m) ns" and "i < length ns" and "2 \<le> length ns" and "distinct (map (nth_task (ms m) ns) [0..<length ns])"
    and "current_task (ms m) = nth_task (ms m) ns i" and "ifr (this_task m) = f" and "frame_word m (regs_eax f) = 3"
    and "nt = nth_task (ms m) ns ((i + 1) mod length ns)" and "state (task (ms m) nt) \<noteq> TASK_ZOMBIE"
  shows "\<exists>m'. syscall_dispatcher m = Some (Inr (Exited, m')) \<and> current_task (ms m') = nt
    \<and> state (task (ms m') (current_task (ms m))) = TASK_ZOMBIE
    \<and> exit_code (task (ms m') (current_task (ms m))) = frame_word m (regs_ebx f) \<and> task_queue (ms m') ns"
proof -
  let ?c = "current_task (ms m)" and ?k = "(i + 1) mod length ns"
  let ?s = "upd_task ?c (\<lambda>t. t\<lparr>exit_code := frame_word m (regs_ebx f), state := TASK_ZOMBIE\<rparr>) (ms m)"
  have k: "?k < length ns" using assms(2) by (intro mod_less_divisor) auto
  have "?k \<noteq> i" using assms(2,3) by (cases "i + 1 < length ns") (auto simp: not_less le_Suc_eq)
  then have ne: "nt \<noteq> ?c"
    using assms(2,4,5,8) k unfolding distinct_map inj_on_def by (metis atLeast0LessThan lessThan_iff set_upt)
  have q: "task_queue ?s ns" "current_task ?s = nth_task ?s ns i" "nt = nth_task ?s ns ?k" "state (task ?s nt) \<noteq> TASK_ZOMBIE"
    using assms(1,5,8,9) ne by (auto simp: task_queue_def nth_task_def upd_task_def)
  have s: "schedule ?s = Some (Inr (switch_to nt ?s))" using schedule_ready [OF q(1) assms(2) q(2)] q(3,4) by simp
  let ?m = "m\<lparr>ms := switch_to nt ?s\<rparr>"
  have "syscall_dispatcher m = Some (Inr (Exited, ?m))"
    using assms(6,7) s by (simp add: syscall_dispatcher_def syscall_table_def sys_exit_def task_exit_def)
  moreover have "task_queue (switch_to nt ?s) ns" using q(1) by (simp add: task_queue_def)
  ultimately show ?thesis by (intro exI [of _ ?m]) (simp add: upd_task_def)
qed

theorem sys_exit_leaves_witness:
  "\<exists>m' m. current_task (ms m) = 7 \<and> syscall_dispatcher m = Some (Inr (Exited, m')) \<and> current_task (ms m') = 8
    \<and> exit_code (task (ms m') 7) = 42"
proof -
  let ?m = "demo_machine\<lparr>ms := upd_mem (\<lambda>k. k(0x402c := 3, 0x4020 := 42)) (upd_task 7 (\<lambda>t. t\<lparr>ifr := 0x4000\<rparr>) (ms demo_machine))\<rparr>"
  have t: "task_queue (ms ?m) [0x300, 0x200]"
    using demo_lists_ok by (simp add: task_queue_def demo_machine_def upd_task_def upd_mem_def)
  have n: "nth_task (ms ?m) [0x300, 0x200] 0 = 7" "nth_task (ms ?m) [0x300, 0x200] 1 = 8" "current_task (ms ?m) = 7"
    "ifr (this_task ?m) = 0x4000" "frame_word ?m (regs_eax 0x4000) = 3" "frame_word ?m (regs_ebx 0x4000) = 42"
    "state (task (ms ?m) 8) \<noteq> TASK_ZOMBIE"
    by (simp_all add: nth_task_def demo_machine_def upd_task_def upd_mem_def demo_lists_ok this_task_def frame_word_def load32_def)
  have "\<exists>m'. syscall_dispatcher ?m = Some (Inr (Exited, m')) \<and> current_task (ms m') = 8
    \<and> state (task (ms m') (current_task (ms ?m))) = TASK_ZOMBIE
    \<and> exit_code (task (ms m') (current_task (ms ?m))) = frame_word ?m (regs_ebx 0x4000) \<and> task_queue (ms m') [0x300, 0x200]"
    by (rule sys_exit_leaves [OF t, of 0]) (use n in \<open>simp_all add: upt_rec\<close>)
  then show ?thesis using n by metis
qed

end
