(* ===== verification/Elf.thy ===== *)
theory Elf
  imports Fs_ops Kheap
begin

unbundle bit_operations_syntax

text \<open>
  The program loader, kernel/sys/elf.c. The structures of elf.h are packed, so a field is read from
  memory at its offset. Memory is \<open>kmem\<close>, by virtual address of the current page directory; the
  file system's routines work on the same bytes. The number of program headers is read again before each
  header, so a segment that overwrites the image can change it; the loop ends all the same, since the
  number has 16 bits. The console lines of the loader are kept in \<open>lout\<close>.
\<close>

section \<open>Headers\<close>

definition load16 :: "mem \<Rightarrow> ptr \<Rightarrow> u16" where
  "load16 m a = ucast (m a) OR push_bit 8 (ucast (m (a + 1)))"

definition e_ident :: "mem \<Rightarrow> ptr \<Rightarrow> u32 \<Rightarrow> u8" where "e_ident m h i = m (h + i)"
definition e_type :: "mem \<Rightarrow> ptr \<Rightarrow> u16" where "e_type m h = load16 m (h + 16)"
definition e_machine :: "mem \<Rightarrow> ptr \<Rightarrow> u16" where "e_machine m h = load16 m (h + 18)"
definition e_phoff :: "mem \<Rightarrow> ptr \<Rightarrow> u32" where "e_phoff m h = load32 m (h + 28)"
definition e_shoff :: "mem \<Rightarrow> ptr \<Rightarrow> u32" where "e_shoff m h = load32 m (h + 32)"
definition e_phentsize :: "mem \<Rightarrow> ptr \<Rightarrow> u16" where "e_phentsize m h = load16 m (h + 42)"
definition e_phnum :: "mem \<Rightarrow> ptr \<Rightarrow> u16" where "e_phnum m h = load16 m (h + 44)"
definition e_shentsize :: "mem \<Rightarrow> ptr \<Rightarrow> u16" where "e_shentsize m h = load16 m (h + 46)"

definition p_type :: "mem \<Rightarrow> ptr \<Rightarrow> u32" where "p_type m p = load32 m p"
definition p_offset :: "mem \<Rightarrow> ptr \<Rightarrow> u32" where "p_offset m p = load32 m (p + 4)"
definition p_vaddr :: "mem \<Rightarrow> ptr \<Rightarrow> u32" where "p_vaddr m p = load32 m (p + 8)"
definition p_filesz :: "mem \<Rightarrow> ptr \<Rightarrow> u32" where "p_filesz m p = load32 m (p + 16)"
definition p_memsz :: "mem \<Rightarrow> ptr \<Rightarrow> u32" where "p_memsz m p = load32 m (p + 20)"

abbreviation PT_LOAD :: u32 where "PT_LOAD \<equiv> 1"

datatype elf_ident = EI_MAG0 | EI_MAG1 | EI_MAG2 | EI_MAG3 | EI_CLASS | EI_DATA | EI_VERSION | EI_OSABI | EI_ABIVERSION | EI_PAD

primrec ident_num :: "elf_ident \<Rightarrow> u32" where
  "ident_num EI_MAG0 = 0"
| "ident_num EI_MAG1 = 1"
| "ident_num EI_MAG2 = 2"
| "ident_num EI_MAG3 = 3"
| "ident_num EI_CLASS = 4"
| "ident_num EI_DATA = 5"
| "ident_num EI_VERSION = 6"
| "ident_num EI_OSABI = 7"
| "ident_num EI_ABIVERSION = 8"
| "ident_num EI_PAD = 9"

datatype elf_type = ET_NONE | ET_REL | ET_EXEC

primrec type_num :: "elf_type \<Rightarrow> u16" where
  "type_num ET_NONE = 0"
| "type_num ET_REL = 1"
| "type_num ET_EXEC = 2"

definition elf_check_header :: "mem \<Rightarrow> ptr \<Rightarrow> u8" where
  "elf_check_header m h =
     (if e_ident m h 0 \<noteq> 0x7f \<or> e_ident m h 1 \<noteq> 69 \<or> e_ident m h 2 \<noteq> 76 \<or> e_ident m h 3 \<noteq> 70 then 0
      else if e_ident m h (ident_num EI_CLASS) \<noteq> 1 then 0
      else if e_ident m h (ident_num EI_DATA) \<noteq> 1 then 0
      else if e_ident m h (ident_num EI_VERSION) \<noteq> 1 then 0
      else if e_machine m h \<noteq> 3 then 0
      else if e_type m h \<noteq> type_num ET_REL \<and> e_type m h \<noteq> type_num ET_EXEC then 0
      else - 1)"

definition elf_get_section_header :: "mem \<Rightarrow> ptr \<Rightarrow> u32 \<Rightarrow> ptr" where
  "elf_get_section_header m h num = h + e_shoff m h + num * ucast (e_shentsize m h)"

definition elf_get_program_header :: "mem \<Rightarrow> ptr \<Rightarrow> u32 \<Rightarrow> ptr" where
  "elf_get_program_header m h num = h + e_phoff m h + num * ucast (e_phentsize m h)"

section \<open>Loading\<close>

record loader =
  lfs :: fsys
  lvm :: kstate
  lout :: "con_action list"

definition segment_refused :: "mem \<Rightarrow> ptr \<Rightarrow> bool" where
  "segment_refused m p \<longleftrightarrow> p_memsz m p < p_filesz m p \<or> KERN_BASE \<le> p_vaddr m p + p_memsz m p"

text \<open>The copy of one segment and the clearing of its tail.\<close>

definition copy_segment :: "u32 \<Rightarrow> ptr \<Rightarrow> mem \<Rightarrow> mem" where
  "copy_segment offset p m =
     (let m' = snd (memcpy m (p_vaddr m p) (offset + p_offset m p) (p_filesz m p))
      in if p_memsz m' p - p_filesz m' p > 0
         then snd (memset m' (p_vaddr m' p + p_filesz m' p) 0 (p_memsz m' p - p_filesz m' p)) else m')"

definition load_segment :: "kmalloc_t \<Rightarrow> u32 \<Rightarrow> u32 \<Rightarrow> ptr \<Rightarrow> loader \<Rightarrow> loader option" where
  "load_segment km offset i p s =
     (let m = kmem (lvm s);
          out = (case kprintf (Some (''ELF PHeader #%d, Type: LOAD, Off:0x%x, Vaddr:0x%x, Size:0x%d'' @ [CHR 0x0A]))
                   [VInt i, VInt (p_offset m p), VInt (p_vaddr m p), VInt (p_memsz m p)] of Inl _ \<Rightarrow> [] | Inr (_, as) \<Rightarrow> as)
      in Option.bind (allocate_region km (current_page_dir (lvm s)) (p_vaddr m p) (p_vaddr m p + p_filesz m p)
           False False True (lvm s)) (\<lambda>v.
         Some (s\<lparr>lvm := v\<lparr>kmem := copy_segment offset p (kmem v)\<rparr>, lout := lout s @ out\<rparr>)))"

function elf_relocate_loop :: "kmalloc_t \<Rightarrow> ptr \<Rightarrow> u32 \<Rightarrow> nat \<Rightarrow> loader \<Rightarrow> (int \<times> loader) option" where
  "elf_relocate_loop km h offset i s =
     (let m = kmem (lvm s)
      in if i < unat (e_phnum m h) then
           let p = elf_get_program_header m h (of_nat i)
           in if p_type m p \<noteq> PT_LOAD then elf_relocate_loop km h offset (Suc i) s
              else if segment_refused m p then Some (- 1, s)
              else Option.bind (load_segment km offset (of_nat i) p s) (\<lambda>s. elf_relocate_loop km h offset (Suc i) s)
         else Some (0, s))"
  by pat_completeness (elim Pair_inject, hypsubst, rule refl)
termination
proof (relation "measure (\<lambda>(km, h, offset, i, s). 65536 - i)")
  have "unat w < 65536" for w :: u16 using unsigned_less [of w, where 'a = nat] by simp
  then have less: "65536 - Suc i < 65536 - i" if "i < unat w" for w :: u16 and i using that by (meson diff_less_mono2 lessI less_trans)
  show "((km, h, offset, Suc i, s), km, h, offset, i, s) \<in> measure (\<lambda>(km, h, offset, i, s). 65536 - i)"
    if "i < unat (e_phnum m h)" for km h offset i and s :: loader and m
    using less [OF that] by simp
  show "((km, h, offset, Suc i, s'), km, h, offset, i, s) \<in> measure (\<lambda>(km, h, offset, i, s). 65536 - i)"
    if "i < unat (e_phnum m h)" for km h offset i and s s' :: loader and m
    using less [OF that] by simp
qed simp

definition elf_relocate :: "kmalloc_t \<Rightarrow> ptr \<Rightarrow> u32 \<Rightarrow> loader \<Rightarrow> (int \<times> loader) option" where
  "elf_relocate km h offset s = elf_relocate_loop km h offset 0 s"

text \<open>
  \<open>buf\<close> is what \<open>kmalloc\<close> returned. A header that is not accepted sets the result and the image is
  relocated all the same.
\<close>

definition elf_log :: "string \<Rightarrow> loader \<Rightarrow> loader" where
  "elf_log t s = s\<lparr>lout := lout s @ (case klog (Some LOG_ERR) (Some (t @ [CHR 0x0A])) [] of Inl _ \<Rightarrow> [] | Inr (_, as) \<Rightarrow> as)\<rparr>"

definition read_image :: "hardware \<Rightarrow> ptr \<Rightarrow> ptr \<Rightarrow> loader \<Rightarrow> loader option" where
  "read_image hw node buf s =
     Option.bind (read_fs hw node 0 (fs_length (fnodes (lfs s) node)) buf ((lfs s)\<lparr>fmem := kmem (lvm s)\<rparr>)) (\<lambda>(_, f).
       Some (s\<lparr>lfs := f, lvm := (lvm s)\<lparr>kmem := fmem f\<rparr>\<rparr>))"

definition elf_load ::
  "kmalloc_t \<Rightarrow> hardware \<Rightarrow> (fs_op \<Rightarrow> ptr \<Rightarrow> u32 \<Rightarrow> fsys \<Rightarrow> fsys) \<Rightarrow> (fs_op \<Rightarrow> ptr \<Rightarrow> fsys \<Rightarrow> fsys) \<Rightarrow> ptr \<Rightarrow> ptr \<Rightarrow> loader \<Rightarrow> (int \<times> loader) option" where
  "elf_load km hw opn cls node buf s =
     (if node = NULL then Some (- 1, s)
      else Option.bind (read_image hw node buf (s\<lparr>lfs := open_fs opn node 0 (lfs s)\<rparr>)) (\<lambda>s.
        let bad = elf_check_header (kmem (lvm s)) buf = 0;
            s = (if bad then elf_log ''ELF binary is not for this machine'' s else s)
        in Option.bind (elf_relocate km buf buf s) (\<lambda>(r, s).
             let s = (if r \<noteq> 0 then elf_log ''Failed to relocate ELF binary'' s else s);
                 s = s\<lparr>lfs := close_fs cls node (lfs s), lvm := kfree buf (lvm s)\<rparr>
             in Some (if bad \<or> r \<noteq> 0 then - 1 else 0, s))))"

section \<open>Properties\<close>

lemma header_kept:
  assumes "\<And>j. j < 24 \<Longrightarrow> m' (p + j) = m (p + j)"
  shows "p_vaddr m' p = p_vaddr m p" "p_filesz m' p = p_filesz m p" "p_memsz m' p = p_memsz m p"
  using assms [of 8] assms [of 9] assms [of 10] assms [of 11] assms [of 16] assms [of 17] assms [of 18] assms [of 19]
    assms [of 20] assms [of 21] assms [of 22] assms [of 23]
  by (simp_all add: p_vaddr_def p_filesz_def p_memsz_def load32_def add.assoc)

text \<open>Loading one segment. When the segment's memory does not start inside its file image and does
  not cover its program header, every byte of its file part is the byte of the image, every byte up to
  the memory size is zero, and no other byte changes.\<close>

theorem elf_segment_loaded:
  fixes p m off
  defines "va \<equiv> p_vaddr m p" and "fsz \<equiv> p_filesz m p" and "msz \<equiv> p_memsz m p" and "src \<equiv> off + p_offset m p"
  assumes "fsz \<le> msz" and "unat fsz \<le> unat (va - src)" and "\<forall>j < 24. msz \<le> p + j - va"
  shows "copy_segment off p m x =
    (if unat (x - va) < unat fsz then m (src + (x - va)) else if unat (x - va) < unat msz then 0 else m x)"
proof -
  define m' where "m' = rep_movsb (unat fsz) va src m"
  have b: "m' y = (if unat (y - va) < unat fsz then m (src + (y - va)) else m y)" for y
    unfolding m'_def using assms(6) by (rule rep_movsb_bytes)
  have "m' (p + j) = m (p + j)" if "j < 24" for j
    using b [of "p + j"] assms(5,7) that by (auto simp: word_le_nat_alt)
  note k = header_kept [of m' p m, OF this]
  have c: "copy_segment off p m x = (if msz - fsz > 0 then memset_loop (unat (msz - fsz)) (va + fsz) 0 m' x else m' x)"
    using k by (simp add: copy_segment_def memcpy_def memset_def Let_def va_def fsz_def msz_def src_def m'_def)
  have d: "unat (msz - fsz) = unat msz - unat fsz" using assms(5) by (simp add: unat_sub)
  have ms: "memset_loop (unat (msz - fsz)) (va + fsz) 0 m' x = (if unat (x - (va + fsz)) < unat (msz - fsz) then 0 else m' x)"
    using unsigned_less [of "msz - fsz", where 'a = nat] by (intro memset_loop_bytes) simp
  show ?thesis
  proof (cases "unat (x - va) < unat fsz")
    case True
    have "x - (va + fsz) = x - va - fsz" "fsz \<noteq> x - va" using True by auto
    then have "unat (x - (va + fsz)) = unat (x - va) + 2 ^ 32 - unat fsz"
      using True unat_uminus32 [of "fsz - (x - va)"] by (simp add: unat_sub word_le_nat_alt diff_diff_eq add.commute)
    then have "\<not> unat (x - (va + fsz)) < unat (msz - fsz)"
      using d unsigned_less [of msz, where 'a = nat] by simp
    with True c ms b show ?thesis by simp
  next
    case False
    then have "unat (x - va - fsz) = unat (x - va) - unat fsz" by (intro unat_sub) (simp add: word_le_nat_alt)
    then have "unat (x - (va + fsz)) < unat (msz - fsz) \<longleftrightarrow> unat (x - va) < unat msz"
      using False d by (simp add: diff_diff_eq) linarith
    moreover have "msz - fsz > 0 \<longleftrightarrow> unat fsz < unat msz" using d by (simp add: word_less_nat_alt)
    ultimately show ?thesis using False c ms b by auto
  qed
qed

definition demo_elf :: mem where
  "demo_elf = (\<lambda>_. 0)(0x100c := 0x10, 0x1008 := 0, 0x1004 := 0x40, 0x1010 := 2, 0x1014 := 5, 0x2040 := 7, 0x2041 := 9)"

theorem elf_segment_loaded_witness:
  "copy_segment 0x2000 0x1000 (store32 (store32 demo_elf 0x1008 0x8000) 0x100c 0) 0x8001 = 9
   \<and> copy_segment 0x2000 0x1000 (store32 (store32 demo_elf 0x1008 0x8000) 0x100c 0) 0x8003 = 0"
proof -
  let ?m = "store32 (store32 demo_elf 0x1008 0x8000) 0x100c 0"
  have h: "p_vaddr ?m 0x1000 = 0x8000" "p_filesz ?m 0x1000 = 2" "p_memsz ?m 0x1000 = 5" "p_offset ?m 0x1000 = 0x40"
    by (simp_all add: p_vaddr_def p_filesz_def p_memsz_def p_offset_def demo_elf_def load_store_apart apart_def load32_def store32_def)
  have "\<forall>j < 24. (5 :: u32) \<le> 0x1000 + j - 0x8000"
  proof (intro allI impI)
    fix j :: u32 assume "j < 24"
    then show "5 \<le> 0x1000 + j - 0x8000" by unat_arith auto
  qed
  note l = elf_segment_loaded [of ?m "0x1000" "0x2000", unfolded h, OF _ _ this]
  show ?thesis
    using l [of "0x8001"] l [of "0x8003"] by (simp add: store32_def demo_elf_def)
qed

text \<open>What the check of a segment against the kernel's range admits. A segment whose end does not
  wrap is accepted exactly when it lies below the kernel and holds its file part; one whose end wraps past
  the top is accepted when the wrapped end is below the kernel, so it can start inside the kernel.\<close>

theorem elf_segment_bounds:
  "\<not> segment_refused m p \<longleftrightarrow> unat (p_filesz m p) \<le> unat (p_memsz m p)
     \<and> (unat (p_vaddr m p) + unat (p_memsz m p)) mod 2 ^ 32 < unat KERN_BASE"
  by (auto simp: segment_refused_def word_le_nat_alt not_le not_less unat_word_ariths)

text \<open>When a loadable segment is refused, nothing after it is loaded and the result is -1; in
  particular an image whose first program header is such a segment leaves memory and mappings as they were.\<close>

lemma elf_relocate_refuses:
  assumes "elf_get_program_header (kmem (lvm s)) h 0 = p" and "0 < unat (e_phnum (kmem (lvm s)) h)"
    and "p_type (kmem (lvm s)) p = PT_LOAD" and "segment_refused (kmem (lvm s)) p"
  shows "elf_relocate km h off s = Some (- 1, s)"
  using assms unfolding elf_relocate_def by (subst elf_relocate_loop.simps) (simp add: Let_def)

end
