(* ===== verification/Pci.thy ===== *)
theory Pci
  imports Kio Kdisplay
begin

unbundle bit_operations_syntax

text \<open>
  The PCI bus, kernel/drivers/pci.c: configuration space through ports 0xCF8 and 0xCFC, the scan of
  all functions, and the tables of devices and drivers. The device table has room for the pointers that
  fit the 512 bytes requested for it, the driver table for those that fit 640 bytes; a store past the end
  is \<open>Buffer_overflow\<close>. Structures are found by their address; \<open>addrs n\<close> is the address that the heap
  returned for the n-th device.
\<close>

section \<open>Configuration space\<close>

definition pci_address :: "u16 \<Rightarrow> u16 \<Rightarrow> u16 \<Rightarrow> u16 \<Rightarrow> u64" where
  "pci_address bus slot func offset =
     push_bit 16 (ucast bus) OR push_bit 11 (ucast slot) OR push_bit 8 (ucast func) OR ucast (offset AND 0xfc) OR 0x80000000"

definition pci_read_word :: "hardware \<Rightarrow> u16 \<Rightarrow> u16 \<Rightarrow> u16 \<Rightarrow> u16 \<Rightarrow> io \<Rightarrow> u16 \<times> io" where
  "pci_read_word hw bus slot func offset h =
     (let h = outl 0xCF8 (ucast (pci_address bus slot func offset)) h;
          (v, h) = inl hw 0xCFC h
      in (ucast (drop_bit (unat ((offset AND 2) * 8)) v AND 0xffff), h))"

text \<open>The operator after the bus is a logical or: the address is 1 or 0.\<close>

definition pci_write_word :: "u32 \<Rightarrow> u32 \<Rightarrow> u32 \<Rightarrow> u16 \<Rightarrow> u32 \<Rightarrow> io \<Rightarrow> io" where
  "pci_write_word bus slot func offset data h =
     (let rest = push_bit 11 slot OR push_bit 8 func OR ucast (offset AND 0xFC) OR 0x80000000;
          address = (if push_bit 16 bus \<noteq> 0 \<or> rest \<noteq> 0 then 1 else 0)
      in outl 0xCFC data (outl 0xCF8 address h))"

definition getVendorID :: "hardware \<Rightarrow> u16 \<Rightarrow> u16 \<Rightarrow> u16 \<Rightarrow> io \<Rightarrow> u16 \<times> io" where
  "getVendorID hw bus device function h = pci_read_word hw bus device function 0 h"

definition getDeviceID :: "hardware \<Rightarrow> u16 \<Rightarrow> u16 \<Rightarrow> u16 \<Rightarrow> io \<Rightarrow> u16 \<times> io" where
  "getDeviceID hw bus device function h = pci_read_word hw bus device function 2 h"

definition pciCheckVendor :: "hardware \<Rightarrow> u16 \<Rightarrow> u16 \<Rightarrow> io \<Rightarrow> u16 \<times> io" where
  "pciCheckVendor hw bus slot h =
     (let (vendor, h) = pci_read_word hw bus slot 0 0 h in (if vendor \<noteq> 0xFFFF then 0 else vendor, h))"

section \<open>Tables\<close>

record pci_device =
  pd_vendor :: u32
  pd_device :: u32
  pd_func :: u32
  pd_driver :: ptr

record pci =
  pci_devices :: "u32 \<Rightarrow> ptr"
  devs :: u32
  pci_drivers :: "u32 \<Rightarrow> ptr"
  drivs :: u32
  pdev_at :: "ptr \<Rightarrow> pci_device"
  driver_name :: "ptr \<Rightarrow> string"
  pio :: io
  pout :: "con_action list"

definition pprint :: "string \<Rightarrow> va list \<Rightarrow> pci \<Rightarrow> pci" where
  "pprint f as s = (case kprintf (Some f) as of Inl _ \<Rightarrow> s | Inr (_, out) \<Rightarrow> s\<lparr>pout := pout s @ out\<rparr>)"

definition add_pci_device :: "ptr \<Rightarrow> pci \<Rightarrow> kerr + pci" where
  "add_pci_device pdev s =
     (if 128 \<le> devs s then Inl Buffer_overflow
      else Inr (s\<lparr>pci_devices := (pci_devices s)(devs s := pdev), devs := devs s + 1\<rparr>))"

definition pci_probe_function :: "hardware \<Rightarrow> (u32 \<Rightarrow> ptr) \<Rightarrow> u16 \<times> u16 \<times> u16 \<Rightarrow> pci \<Rightarrow> kerr + pci" where
  "pci_probe_function hw addrs bsf s =
     (let (bus, slot, func) = bsf;
          (vendor, h) = getVendorID hw bus slot func (pio s)
      in if vendor = 0xffff then Inr (s\<lparr>pio := h\<rparr>)
         else let (device, h) = getDeviceID hw bus slot func h;
                  s = pprint (''vendor: 0x%x device: 0x%x'' @ [CHR 0x0A]) [VInt (ucast vendor), VInt (ucast device)] (s\<lparr>pio := h\<rparr>);
                  pdev = addrs (devs s);
                  s = s\<lparr>pdev_at := (pdev_at s)(pdev := \<lparr>pd_vendor = ucast vendor, pd_device = ucast device,
                        pd_func = ucast func, pd_driver = 0\<rparr>)\<rparr>
              in add_pci_device pdev s)"

primrec pci_probe_list :: "hardware \<Rightarrow> (u32 \<Rightarrow> ptr) \<Rightarrow> (u16 \<times> u16 \<times> u16) list \<Rightarrow> pci \<Rightarrow> kerr + pci" where
  "pci_probe_list hw addrs [] s = Inr s"
| "pci_probe_list hw addrs (f # fs) s =
     (case pci_probe_function hw addrs f s of Inl e \<Rightarrow> Inl e | Inr s' \<Rightarrow> pci_probe_list hw addrs fs s')"

definition pci_functions :: "(u16 \<times> u16 \<times> u16) list" where
  "pci_functions = map (\<lambda>(b, d, f). (of_nat b, of_nat d, of_nat f)) (List.product [0..<256] (List.product [0..<32] [0..<8]))"

definition pci_probe :: "hardware \<Rightarrow> (u32 \<Rightarrow> ptr) \<Rightarrow> pci \<Rightarrow> kerr + pci" where
  "pci_probe hw addrs s = pci_probe_list hw addrs pci_functions s"

definition pci_init :: "hardware \<Rightarrow> (u32 \<Rightarrow> ptr) \<Rightarrow> pci \<Rightarrow> kerr + pci" where
  "pci_init hw addrs s =
     (let s = s\<lparr>devs := 0, drivs := 0\<rparr>;
          s = (case klog (Some LOG_OK) (Some (''PCI device support loaded'' @ [CHR 0x0A])) [] of
                 Inl _ \<Rightarrow> s | Inr (_, out) \<Rightarrow> s\<lparr>pout := pout s @ out\<rparr>)
      in pci_probe hw addrs s)"

definition pci_register_driver :: "ptr \<Rightarrow> pci \<Rightarrow> kerr + pci" where
  "pci_register_driver driv s =
     (if 160 \<le> drivs s then Inl Buffer_overflow
      else Inr (s\<lparr>pci_drivers := (pci_drivers s)(drivs s := driv), drivs := drivs s + 1\<rparr>))"

definition proc_line :: "pci_device \<Rightarrow> pci \<Rightarrow> pci" where
  "proc_line d s =
     (if pd_driver d \<noteq> 0
      then pprint (''[%x:%x:%x] => %s'' @ [CHR 0x0A]) [VInt (pd_vendor d), VInt (pd_device d), VInt (pd_func d), VStr (driver_name s (pd_driver d))] s
      else pprint (''[%x:%x:%x]'' @ [CHR 0x0A]) [VInt (pd_vendor d), VInt (pd_device d), VInt (pd_func d)] s)"

definition pci_proc_list :: "pci \<Rightarrow> pci" where
  "pci_proc_list s = fold (\<lambda>i s. proc_line (pdev_at s (pci_devices s (of_nat i))) s) [0..<unat (devs s)] s"

section \<open>What the scan finds\<close>

text \<open>Hardware in which a read of the data port returns the word last selected at the address port.\<close>

definition config_space :: "hardware \<Rightarrow> (u32 \<Rightarrow> u32) \<Rightarrow> bool" where
  "config_space hw cfg \<longleftrightarrow> (\<forall>h a. hw (h @ [Wr32 0xCF8 a]) 0xCFC = cfg a)"

definition id_word :: "(u32 \<Rightarrow> u32) \<Rightarrow> u16 \<times> u16 \<times> u16 \<Rightarrow> u32" where
  "id_word cfg bsf = (case bsf of (b, d, f) \<Rightarrow> cfg (ucast (pci_address b d f 0)))"

definition device_of :: "(u32 \<Rightarrow> u32) \<Rightarrow> u16 \<times> u16 \<times> u16 \<Rightarrow> pci_device" where
  "device_of cfg bsf = \<lparr>pd_vendor = id_word cfg bsf AND 0xffff, pd_device = drop_bit 16 (id_word cfg bsf),
     pd_func = ucast (snd (snd bsf)), pd_driver = 0\<rparr>"

definition present :: "(u32 \<Rightarrow> u32) \<Rightarrow> u16 \<times> u16 \<times> u16 \<Rightarrow> bool" where
  "present cfg bsf \<longleftrightarrow> id_word cfg bsf AND 0xffff \<noteq> 0xffff"

lemma read_ids:
  assumes "config_space hw cfg"
  shows "getVendorID hw b d f h = (ucast (id_word cfg (b, d, f) AND 0xffff),
           h @ [Wr32 0xCF8 (ucast (pci_address b d f 0)), Rd32 0xCFC (id_word cfg (b, d, f))])"
    and "getDeviceID hw b d f h = (ucast (drop_bit 16 (id_word cfg (b, d, f))),
           h @ [Wr32 0xCF8 (ucast (pci_address b d f 0)), Rd32 0xCFC (id_word cfg (b, d, f))])"
proof -
  have w: "drop_bit 16 x AND 0xffff = drop_bit 16 x" for x :: u32
  proof (rule bit_word_eqI)
    fix n
    have e: "(0xffff :: u32) = mask 16" by (simp add: mask_eq_exp_minus_1)
    show "bit (drop_bit 16 x AND 0xffff) n = bit (drop_bit 16 x) n"
      unfolding e by (auto simp: bit_simps dest: bit_imp_le_length)
  qed
  have a: "pci_address b d f 2 = pci_address b d f 0" by (simp add: pci_address_def)
  show "getVendorID hw b d f h = (ucast (id_word cfg (b, d, f) AND 0xffff),
           h @ [Wr32 0xCF8 (ucast (pci_address b d f 0)), Rd32 0xCFC (id_word cfg (b, d, f))])"
    using assms by (simp add: getVendorID_def pci_read_word_def outl_def inl_def id_word_def config_space_def Let_def)
  show "getDeviceID hw b d f h = (ucast (drop_bit 16 (id_word cfg (b, d, f))),
           h @ [Wr32 0xCF8 (ucast (pci_address b d f 0)), Rd32 0xCFC (id_word cfg (b, d, f))])"
    using assms by (simp add: getDeviceID_def pci_read_word_def outl_def inl_def id_word_def config_space_def a w Let_def)
qed

text \<open>\<open>found addrs s ds\<close>: the table of \<open>s\<close> lists the devices \<open>ds\<close> in order.\<close>

definition found :: "(u32 \<Rightarrow> ptr) \<Rightarrow> pci \<Rightarrow> pci_device list \<Rightarrow> bool" where
  "found addrs s ds \<longleftrightarrow> devs s = of_nat (length ds) \<and> length ds \<le> 128
     \<and> (\<forall>i < length ds. pci_devices s (of_nat i) = addrs (of_nat i) \<and> pdev_at s (addrs (of_nat i)) = ds ! i)"

lemma pprint_keeps [simp]:
  "devs (pprint f as s) = devs s" "pci_devices (pprint f as s) = pci_devices s" "pdev_at (pprint f as s) = pdev_at s"
  "pio (pprint f as s) = pio s"
  by (auto simp: pprint_def split: sum.splits)

lemma ids_ucast:
  "ucast (ucast (x AND 0xffff) :: u16) = x AND 0xffff" "ucast (ucast (drop_bit 16 x) :: u16) = drop_bit 16 x" for x :: u32
proof -
  have e: "(0xffff :: u32) = mask 16" by (simp add: mask_eq_exp_minus_1)
  show "ucast (ucast (x AND 0xffff) :: u16) = x AND 0xffff"
    unfolding e by (intro bit_word_eqI) (auto simp: bit_simps)
  show "ucast (ucast (drop_bit 16 x) :: u16) = drop_bit 16 x"
    by (intro bit_word_eqI) (auto simp: bit_simps dest: bit_imp_le_length)
qed

lemma vendor_absent: "ucast (x AND 0xffff) = (0xffff :: u16) \<longleftrightarrow> x AND 0xffff = 0xffff" for x :: u32
proof
  assume "ucast (x AND 0xffff) = (0xffff :: u16)"
  then have "ucast (ucast (x AND 0xffff) :: u16) = (ucast (0xffff :: u16) :: u32)" by (rule arg_cong)
  then show "x AND 0xffff = 0xffff" unfolding ids_ucast by simp
qed simp

lemma probe_function_found:
  assumes hw: "config_space hw cfg" and f: "found addrs s ds" and room: "present cfg bsf \<longrightarrow> length ds < 128"
    and inj: "inj_on (\<lambda>i. addrs (of_nat i)) {..<128 :: nat}"
  shows "\<exists>s'. pci_probe_function hw addrs bsf s = Inr s' \<and> found addrs s' (ds @ (if present cfg bsf then [device_of cfg bsf] else []))"
proof -
  obtain b d k where bsf: "bsf = (b, d, k)" by (cases bsf)
  show ?thesis
  proof (cases "present cfg bsf")
    case False
    then show ?thesis
      using f read_ids(1) [OF hw] by (auto simp: pci_probe_function_def bsf present_def found_def vendor_absent)
  next
    case True
    then have len: "length ds < 128" and v: "id_word cfg (b, d, k) AND 0xffff \<noteq> 0xffff"
      using room by (auto simp: present_def bsf)
    have dn: "devs s = of_nat (length ds)" using f by (simp add: found_def)
    have lt: "\<not> 128 \<le> devs s" using len by (simp add: dn word_le_nat_alt unat_of_nat32)
    have ne: "addrs (of_nat i) \<noteq> addrs (of_nat (length ds))" "(of_nat i :: u32) \<noteq> of_nat (length ds)" if "i < length ds" for i
      using inj_onD [OF inj, of i "length ds"] that len by auto
    have dev: "\<lparr>pd_vendor = ucast (ucast (id_word cfg (b, d, k) AND 0xffff) :: u16),
        pd_device = ucast (ucast (drop_bit 16 (id_word cfg (b, d, k))) :: u16), pd_func = ucast k, pd_driver = 0\<rparr> = device_of cfg bsf"
      by (simp only: ids_ucast device_of_def bsf snd_conv)
    obtain s' where s': "pci_probe_function hw addrs bsf s = Inr s'" "devs s' = devs s + 1"
        "pci_devices s' = (pci_devices s)(devs s := addrs (devs s))" "pdev_at s' = (pdev_at s)(addrs (devs s) := device_of cfg bsf)"
      using read_ids [OF hw] v lt dev by (simp add: pci_probe_function_def add_pci_device_def bsf vendor_absent Let_def)
    have "found addrs s' (ds @ [device_of cfg bsf])"
      unfolding found_def using f len ne by (auto simp: found_def s' dn nth_append less_Suc_eq)
    then show ?thesis using s'(1) True by simp
  qed
qed

lemma probe_list_found:
  assumes "config_space hw cfg" and "inj_on (\<lambda>i. addrs (of_nat i)) {..<128 :: nat}" and "found addrs s ds"
    and "length ds + length (filter (present cfg) fs) \<le> 128"
  shows "\<exists>s'. pci_probe_list hw addrs fs s = Inr s' \<and> found addrs s' (ds @ map (device_of cfg) (filter (present cfg) fs))"
  using assms(3,4)
proof (induction fs arbitrary: s ds)
  case (Cons x fs)
  have "present cfg x \<longrightarrow> length ds < 128" using Cons.prems(2) by auto
  then obtain s1 where s1: "pci_probe_function hw addrs x s = Inr s1"
      "found addrs s1 (ds @ (if present cfg x then [device_of cfg x] else []))"
    using probe_function_found [OF assms(1) Cons.prems(1) _ assms(2)] by blast
  from Cons.IH [OF s1(2)] Cons.prems(2) s1(1) show ?case by (cases "present cfg x") auto
qed simp

section \<open>Properties\<close>

text \<open>C33: the scan is complete. On hardware with a configuration space, with at most 128 functions present
  and distinct addresses from the heap, initialisation returns and the device table lists exactly the
  functions whose vendor word is not 0xffff, in bus, slot and function order, with their identifiers.\<close>

theorem pci_init_lists_devices:
  assumes "config_space hw cfg" and "inj_on (\<lambda>i. addrs (of_nat i)) {..<128 :: nat}"
    and "length (filter (present cfg) pci_functions) \<le> 128"
  shows "\<exists>s'. pci_init hw addrs s = Inr s' \<and> found addrs s' (map (device_of cfg) (filter (present cfg) pci_functions))"
proof -
  define s0 where "s0 = (case klog (Some LOG_OK) (Some (''PCI device support loaded'' @ [CHR 0x0A])) [] of
      Inl _ \<Rightarrow> s\<lparr>devs := 0, drivs := 0\<rparr> | Inr (_, out) \<Rightarrow> s\<lparr>devs := 0, drivs := 0, pout := pout s @ out\<rparr>)"
  have "found addrs s0 []" by (auto simp: s0_def found_def split: sum.splits)
  from probe_list_found [OF assms(1,2) this] assms(3) show ?thesis
    by (simp add: pci_init_def pci_probe_def s0_def Let_def cong: sum.case_cong)
qed

text \<open>A configuration write never reaches the register asked for: whatever the bus, slot, function
  and offset, the address that is selected is 1.\<close>

theorem pci_write_word_selects_one:
  "pci_write_word bus slot func offset data h = h @ [Wr32 0xCF8 1, Wr32 0xCFC data]"
proof -
  have "bit (push_bit 11 slot OR push_bit 8 func OR ucast (offset AND 0xFC) OR 0x80000000 :: u32) 31"
    by (simp add: bit_simps)
  then have "push_bit 11 slot OR push_bit 8 func OR ucast (offset AND 0xFC) OR 0x80000000 \<noteq> (0 :: u32)" 
    by (rule contrapos_pn) (erule ssubst, simp)
  then show ?thesis by (simp add: pci_write_word_def outl_def)
qed

text \<open>A machine with an empty bus except for function 0 of slot 0 of bus 0.\<close>

definition demo_config :: "u32 \<Rightarrow> u32" where
  "demo_config a = (if a = 0x80000000 then 0x12378086 else 0xffffffff)"

definition demo_pci_hw :: hardware where
  "demo_pci_hw h port = (case rev h of Wr32 p a # _ \<Rightarrow> demo_config a | _ \<Rightarrow> 0)"

lemma small_word_bit: "unat w < 2 ^ k \<Longrightarrow> bit w n \<Longrightarrow> n < k" for w :: u16
  by (metis bit_take_bit_iff take_bit_nat_eq_self unsigned_take_bit_eq unsigned_word_eqI)

lemma pci_address_zero:
  assumes "ucast (pci_address b d f 0) = (0x80000000 :: u32)" and "unat b < 2 ^ 8" and "unat d < 2 ^ 5" and "unat f < 2 ^ 3"
  shows "b = 0 \<and> d = 0 \<and> f = 0"
proof -
  have "(0x80000000 :: u32) = push_bit 31 1" by simp
  then have k: "\<not> bit (pci_address b d f 0) n" if "n < 31" for n
    using that arg_cong [OF assms(1), of "\<lambda>x. bit x n"] by (simp only: bit_push_bit_iff bit_ucast_iff) simp
  have "\<not> bit b n" for n
    using k [of "16 + n"] small_word_bit [OF assms(2), of n] by (auto simp: pci_address_def bit_simps)
  moreover have "\<not> bit d n" for n
    using k [of "11 + n"] small_word_bit [OF assms(3), of n] by (auto simp: pci_address_def bit_simps)
  moreover have "\<not> bit f n" for n
    using k [of "8 + n"] small_word_bit [OF assms(4), of n] by (auto simp: pci_address_def bit_simps)
  ultimately show ?thesis by (auto intro!: bit_word_eqI)
qed

lemma unat_of_nat16: "i < 256 \<Longrightarrow> unat (of_nat i :: u16) = i"
  by (simp add: unat_of_nat take_bit_eq_mod)

lemma of_nat16_eq: "i < 256 \<Longrightarrow> j < 256 \<Longrightarrow> (of_nat i :: u16) = of_nat j \<longleftrightarrow> i = j"
  by (metis unat_of_nat16)

lemma pci_functions_distinct: "distinct pci_functions"
proof -
  let ?ns = "List.product [0..<256] (List.product [0..<32] [0..<8]) :: (nat \<times> nat \<times> nat) list"
  have "distinct ?ns" by (intro distinct_product distinct_upt)
  moreover have "inj_on (\<lambda>(b, d, f). (of_nat b :: u16, of_nat d :: u16, of_nat f :: u16)) (set ?ns)"
    by (rule inj_onI) (auto simp: of_nat16_eq)
  ultimately show ?thesis by (simp add: pci_functions_def distinct_map)
qed

lemma pci_functions_bounds:
  "(b, d, f) \<in> set pci_functions \<Longrightarrow> unat b < 2 ^ 8 \<and> unat d < 2 ^ 5 \<and> unat f < 2 ^ 3"
  by (auto simp: pci_functions_def unat_of_nat16)

lemma demo_present:
  assumes "x \<in> set pci_functions" and "present demo_config x"
  shows "x = (0, 0, 0)"
proof -
  obtain b d f where x: "x = (b, d, f)" by (cases x)
  have "ucast (pci_address b d f 0) = (0x80000000 :: u32)"
    using assms(2) by (auto simp: present_def id_word_def x demo_config_def split: if_splits)
  then show ?thesis using pci_address_zero pci_functions_bounds [OF assms(1) [unfolded x]] x by blast
qed

lemma filter_distinct_eq: "distinct xs \<Longrightarrow> z \<in> set xs \<Longrightarrow> filter (\<lambda>x. x = z) xs = [z]"
  by (induction xs) (auto simp: filter_empty_conv)

lemma demo_filter: "filter (present demo_config) pci_functions = [(0, 0, 0)]"
proof -
  have z: "(0, 0, 0) \<in> set pci_functions" 
    unfolding pci_functions_def set_map by (rule image_eqI [of _ _ "(0, 0, 0)"]) simp_all
  have p: "present demo_config (0, 0, 0)" by (simp add: present_def id_word_def demo_config_def pci_address_def)
  have "filter (present demo_config) pci_functions = filter (\<lambda>x. x = (0, 0, 0)) pci_functions"
    using demo_present p by (intro filter_cong) auto
  then show ?thesis using z pci_functions_distinct by (simp add: filter_distinct_eq)
qed

theorem pci_init_lists_devices_witness:
  "\<exists>s' s. pci_init demo_pci_hw (\<lambda>i. i) s = Inr s' \<and> devs s' = 1
     \<and> pdev_at s' (pci_devices s' 0) = \<lparr>pd_vendor = 0x8086, pd_device = 0x1237, pd_func = 0, pd_driver = 0\<rparr>"
proof -
  have "config_space demo_pci_hw demo_config" by (simp add: config_space_def demo_pci_hw_def)
  moreover have "inj_on (\<lambda>i. (of_nat i :: u32)) {..<128 :: nat}" by (auto intro!: inj_onI simp: of_nat32_inject)
  moreover have "length (filter (present demo_config) pci_functions) \<le> 128" by (simp add: demo_filter)
  ultimately obtain s' s where s': "pci_init demo_pci_hw (\<lambda>i. i) s = Inr s'" "found (\<lambda>i. i) s' [device_of demo_config (0, 0, 0)]"
    using pci_init_lists_devices [of demo_pci_hw demo_config "\<lambda>i. i"] unfolding demo_filter by simp blast
  have "device_of demo_config (0, 0, 0) = \<lparr>pd_vendor = 0x8086, pd_device = 0x1237, pd_func = 0, pd_driver = 0\<rparr>"
    by (simp add: device_of_def id_word_def demo_config_def pci_address_def)
  with s'(2) have "devs s' = 1 \<and> pdev_at s' (pci_devices s' 0) = \<lparr>pd_vendor = 0x8086, pd_device = 0x1237, pd_func = 0, pd_driver = 0\<rparr>"
    by (simp add: found_def)
  with s'(1) show ?thesis by blast
qed

end
