(* ===== verification/Acpi.thy ===== *)
theory Acpi
  imports Kio Kstring
begin

unbundle bit_operations_syntax

text \<open>
  The ACPI tables and power control, kernel/drivers/acpi/tables.c and power.c. Tables are bytes of
  memory read at the offsets of acpi.h. Sums on pointers to structures are scaled by the size of the
  structure: 36 bytes for \<open>acpi_header_t\<close> and \<open>rsdt_t\<close>, 92 for \<open>fadt_t\<close>. The string that is searched for
  lies at an address \<open>str\<close>, whatever follows it in memory; the waits of \<open>sleep\<close> only pass time; console
  lines are not part of this state.
\<close>

section \<open>Tables\<close>

record acpi =
  SMI_CMD :: u32
  ACPI_ENABLE :: u8
  ACPI_DISABLE :: u8
  PM1a_CNT :: u32
  PM1b_CNT :: u32
  SLP_TYPa :: u16
  SLP_TYPb :: u16
  SLP_EN :: u16
  SCI_EN :: u16
  PM1_CNT_LEN :: u8

primrec sum_bytes :: "mem \<Rightarrow> ptr \<Rightarrow> nat \<Rightarrow> u8" where
  "sum_bytes m a 0 = 0"
| "sum_bytes m a (Suc n) = m a + sum_bytes m (a + 1) n"

abbreviation table_length :: "mem \<Rightarrow> ptr \<Rightarrow> u32" where "table_length m t \<equiv> load32 m (t + 4)"

definition checksum :: "mem \<Rightarrow> ptr \<Rightarrow> u8" where
  "checksum m header = sum_bytes m header (unat (table_length m header))"

text \<open>
  The search. The counter is decremented by the test that ends the loop too, so it is the largest word
  when nothing was found and 0 when the last position matched.
\<close>

primrec find_s5 :: "mem \<Rightarrow> ptr \<Rightarrow> nat \<Rightarrow> ptr \<Rightarrow> ptr \<times> u32" where
  "find_s5 m str 0 a = (a, - 1)"
| "find_s5 m str (Suc n) a = (if memcmp m a str 4 = 0 then (a, of_nat n) else find_s5 m str n (a + 1))"

definition acpi_parse_fadt :: "mem \<Rightarrow> ptr \<Rightarrow> ptr \<Rightarrow> acpi \<Rightarrow> acpi" where
  "acpi_parse_fadt m str fadt s =
     (let dsdt = load32 m (fadt + 40)
      in if checksum m dsdt \<noteq> 0 then s
         else let (S5_addr, dsdt_length) = find_s5 m str (unat (table_length m dsdt - 36)) (dsdt + 36)
              in if dsdt_length > 0
                 then s\<lparr>SMI_CMD := load32 m (fadt + 48), ACPI_ENABLE := m (fadt + 52), ACPI_DISABLE := m (fadt + 53),
                        PM1a_CNT := load32 m (fadt + 64), PM1b_CNT := load32 m (fadt + 68), PM1_CNT_LEN := m (fadt + 89),
                        SLP_EN := push_bit 13 1, SCI_EN := 1\<rparr>
                 else s)"

definition acpi_parse_header :: "mem \<Rightarrow> ptr \<Rightarrow> ptr \<Rightarrow> acpi \<Rightarrow> acpi" where
  "acpi_parse_header m str header s =
     (if checksum m header \<noteq> 0 then s
      else if load32 m header = 0x50434146 then acpi_parse_fadt m str (header + 92 * 0xc0000000) s
      else s)"

definition acpi_parse_rsdt :: "mem \<Rightarrow> ptr \<Rightarrow> ptr \<Rightarrow> acpi \<Rightarrow> acpi" where
  "acpi_parse_rsdt m str rsdt s =
     (if checksum m rsdt \<noteq> 0 then s
      else fold (\<lambda>i s. acpi_parse_header m str (load32 m (rsdt + 36 + 4 * of_nat i) + 36 * 0xc0000000) s)
             [0..<unat ((table_length m rsdt - 36) div 4)] s)"

definition acpi_parse_xsdt :: "mem \<Rightarrow> ptr \<Rightarrow> ptr \<Rightarrow> acpi \<Rightarrow> acpi" where
  "acpi_parse_xsdt m str xsdt s =
     (if checksum m xsdt \<noteq> 0 then s
      else fold (\<lambda>i s. acpi_parse_header m str (load32 m (xsdt + 36 + 8 * of_nat i)) s)
             [0..<unat ((table_length m xsdt - 36) div 4)] s)"

section \<open>Power\<close>

text \<open>Up to \<open>n\<close> reads of a control port, until the test holds: whether it held, and the history.\<close>

primrec poll_control :: "hardware \<Rightarrow> u16 \<Rightarrow> (u16 \<Rightarrow> bool) \<Rightarrow> nat \<Rightarrow> io \<Rightarrow> bool \<times> io" where
  "poll_control hw port ok 0 h = (False, h)"
| "poll_control hw port ok (Suc n) h =
     (let (v, h) = inw hw port h in if ok v then (True, h) else poll_control hw port ok n h)"

definition acpi_enable :: "hardware \<Rightarrow> acpi \<Rightarrow> io \<Rightarrow> int \<times> io" where
  "acpi_enable hw s h =
     (let (v, h) = inw hw (ucast (PM1a_CNT s)) h
      in if v AND SCI_EN s = 0 then
           if SMI_CMD s \<noteq> 0 \<and> ACPI_ENABLE s \<noteq> 0 then
             let h = outb (ucast (SMI_CMD s)) (ACPI_ENABLE s) h;
                 (ok, h) = poll_control hw (ucast (PM1a_CNT s)) (\<lambda>v. v AND SCI_EN s = 1) 300 h;
                 (ok, h) = (if PM1b_CNT s \<noteq> 0 then poll_control hw (ucast (PM1b_CNT s)) (\<lambda>v. v AND SCI_EN s \<noteq> 0) 300 h else (ok, h))
             in (if ok then 0 else - 1, h)
           else (- 1, h)
         else (0, h))"

definition acpi_init :: "hardware \<Rightarrow> mem \<Rightarrow> ptr \<Rightarrow> ptr \<Rightarrow> acpi \<Rightarrow> io \<Rightarrow> acpi \<times> io" where
  "acpi_init hw m str rsdp s h =
     (if sum_bytes m rsdp 20 \<noteq> 0 then (s, h)
      else let revision = m (rsdp + 15);
               s = (if revision = 0 \<or> revision = 2 then acpi_parse_rsdt m str (load32 m (rsdp + 16) + 36 * 0xc0000000) s else s)
           in (s, snd (acpi_enable hw s h)))"

partial_function (option) reboot_wait :: "hardware \<Rightarrow> io \<Rightarrow> io option" where
  "reboot_wait hw h = (let (tmp, h) = inb hw 0x64 h in if tmp AND 0x02 \<noteq> 0 then reboot_wait hw h else Some h)"

definition reboot :: "hardware \<Rightarrow> io \<Rightarrow> io option" where
  "reboot hw h = map_option (outb 0x64 0xFE) (reboot_wait hw h)"

definition shutdown :: "acpi \<Rightarrow> io \<Rightarrow> io" where
  "shutdown s h =
     (let h = outw 0x4004 0x3400 (outw 0x604 0x2000 (outw 0xb004 0x2000 h))
      in if SCI_EN s = 0 then h
         else let h = outw (ucast (PM1a_CNT s)) (SLP_TYPa s OR SLP_EN s) h
              in if PM1b_CNT s \<noteq> 0 then outw (ucast (PM1b_CNT s)) (SLP_TYPb s OR SLP_EN s) h else h)"

section \<open>Properties\<close>

lemma checksum_mod: "unat (sum_bytes m a n) = (\<Sum>i < n. unat (m (a + of_nat i))) mod 256"
proof (induction n arbitrary: a)
  case (Suc n)
  have "(\<Sum>i < Suc n. unat (m (a + of_nat i))) = unat (m a) + (\<Sum>i < n. unat (m (a + 1 + of_nat i)))"
    by (subst sum.lessThan_Suc_shift) (simp add: ac_simps)
  then show ?case using Suc.IH [of "a + 1"] by (simp add: unat_word_ariths mod_add_right_eq)
qed simp

lemma scaled_offsets: "36 * 0xc0000000 = (0 :: u32)" "92 * 0xc0000000 = (0 :: u32)"
  by simp_all

lemma find_s5_absent: "(\<forall>i < n. memcmp m (a + of_nat i) str 4 \<noteq> 0) \<Longrightarrow> find_s5 m str n a = (a + of_nat n, - 1)"
proof (induction n arbitrary: a)
  case (Suc n)
  have "memcmp m a str 4 \<noteq> 0" using Suc.prems [rule_format, of 0] by simp
  moreover have "find_s5 m str n (a + 1) = (a + 1 + of_nat n, - 1)"
    using Suc.prems [rule_format, of "Suc _"] by (intro Suc.IH) (auto simp: ac_simps)
  ultimately show ?case by (simp add: ac_simps)
qed simp

text \<open>A table is parsed only if its bytes sum to a multiple of 256, and the offset of the higher
  half that is added to table pointers vanishes by the scaling: the tables are read at the physical
  addresses that the root table holds.\<close>

theorem acpi_parse_rsdt_physical:
  "acpi_parse_rsdt m str rsdt s =
     (if (\<Sum>i < unat (table_length m rsdt). unat (m (rsdt + of_nat i))) mod 256 \<noteq> 0 then s
      else fold (\<lambda>i s. acpi_parse_header m str (load32 m (rsdt + 36 + 4 * of_nat i)) s)
             [0..<unat ((table_length m rsdt - 36) div 4)] s)"
proof -
  have "checksum m rsdt = 0 \<longleftrightarrow> (\<Sum>i < unat (table_length m rsdt). unat (m (rsdt + of_nat i))) mod 256 = 0"
    unfolding checksum_def checksum_mod [symmetric] by (simp add: unat_eq_0)
  then show ?thesis unfolding acpi_parse_rsdt_def scaled_offsets by simp
qed

text \<open>A definition block without the object that the search looks for is treated as if it had it:
  the power registers of the fixed table are taken over and ACPI counts as available.\<close>

theorem acpi_missing_s5_accepted:
  assumes "dsdt = load32 m (fadt + 40)" and "checksum m dsdt = 0"
    and "\<forall>i < unat (table_length m dsdt - 36). memcmp m (dsdt + 36 + of_nat i) str 4 \<noteq> 0"
  shows "acpi_parse_fadt m str fadt s = s\<lparr>SMI_CMD := load32 m (fadt + 48), ACPI_ENABLE := m (fadt + 52),
    ACPI_DISABLE := m (fadt + 53), PM1a_CNT := load32 m (fadt + 64), PM1b_CNT := load32 m (fadt + 68),
    PM1_CNT_LEN := m (fadt + 89), SLP_EN := 0x2000, SCI_EN := 1\<rparr>"
  using find_s5_absent [OF assms(3)] assms(1,2) by (simp add: acpi_parse_fadt_def Let_def word_gt_0)

definition demo_tables_mem :: mem where
  "demo_tables_mem = (\<lambda>_. 0)(0x1004 := 37, 0x1009 := 219, 0x2029 := 0x10, 0x2041 := 6, 0x3000 := 95)"

theorem acpi_missing_s5_accepted_witness:
  "SCI_EN (acpi_parse_fadt demo_tables_mem 0x3000 0x2000
     \<lparr>SMI_CMD = 0, ACPI_ENABLE = 0, ACPI_DISABLE = 0, PM1a_CNT = 0, PM1b_CNT = 0, SLP_TYPa = 0, SLP_TYPb = 0, SLP_EN = 0,
      SCI_EN = 0, PM1_CNT_LEN = 0\<rparr>) = 1"
proof -
  have d: "0x1000 = load32 demo_tables_mem (0x2000 + 40)" by (simp add: demo_tables_mem_def load32_def)
  have l: "table_length demo_tables_mem 0x1000 = 37" by (simp add: demo_tables_mem_def load32_def)
  have c: "checksum demo_tables_mem 0x1000 = 0"
  proof -
    have "sum_bytes demo_tables_mem 0x1000 37 = 0" by code_simp
    moreover have "unat (37 :: u32) = 37" by simp
    ultimately show ?thesis unfolding checksum_def l by metis
  qed
  have "memcmp_loop demo_tables_mem 0x1024 0x3000 4 \<noteq> 0"
    unfolding memcmp_loop_zero by (auto simp: demo_tables_mem_def intro!: exI [of _ 0])
  then have "memcmp demo_tables_mem (0x1000 + 36) 0x3000 4 \<noteq> 0" by (simp add: memcmp_def)
  then have "\<forall>i < unat (table_length demo_tables_mem 0x1000 - 36). memcmp demo_tables_mem (0x1000 + 36 + of_nat i) 0x3000 4 \<noteq> 0"
    unfolding l by simp
  from acpi_missing_s5_accepted [OF d c this] show ?thesis by simp
qed

end
