(* ===== verification/Cpuid.thy ===== *)
theory Cpuid
  imports Kdisplay
begin

unbundle bit_operations_syntax

text \<open>
  Processor identification, kernel/cpu/cpuid.c. The instruction is a parameter: \<open>cpuid leaf\<close> gives the
  registers \<open>eax\<close>, \<open>ebx\<close>, \<open>ecx\<close>, \<open>edx\<close>. The two tables of feature names have 32 slots, of which the last
  ones are null pointers; printing through one is \<open>Null_deref\<close>.
\<close>

type_synonym cpuid_t = "u32 \<Rightarrow> u32 \<times> u32 \<times> u32 \<times> u32"

definition check_ecx_feature :: "cpuid_t \<Rightarrow> u32 \<Rightarrow> u32" where
  "check_ecx_feature cpuid feature = (case cpuid 1 of (eax, ebx, ecx, edx) \<Rightarrow> ecx AND feature)"

definition check_edx_feature :: "cpuid_t \<Rightarrow> u32 \<Rightarrow> u32" where
  "check_edx_feature cpuid feature = (case cpuid 1 of (eax, ebx, ecx, edx) \<Rightarrow> edx AND feature)"

text \<open>The twelve bytes of \<open>ebx\<close>, \<open>edx\<close>, \<open>ecx\<close>, followed by a zero word.\<close>

definition word_chars :: "u32 \<Rightarrow> string" where
  "word_chars w = map (\<lambda>k. char_of (unat (drop_bit k w AND 0xff))) [0, 8, 16, 24]"

definition vendor_string :: "cpuid_t \<Rightarrow> string" where
  "vendor_string cpuid = (case cpuid 0 of (eax, ebx, ecx, edx) \<Rightarrow>
     takeWhile (\<lambda>c. c \<noteq> CHR 0x00) (word_chars ebx @ word_chars edx @ word_chars ecx))"

definition print_cpu_vendor :: "cpuid_t \<Rightarrow> kerr + int \<times> con_action list" where
  "print_cpu_vendor cpuid = kprintf (Some (''CPU vendor: %s'' @ [CHR 0x0A])) [VStr (vendor_string cpuid)]"

definition edx_feature_flags :: "string list" where
  "edx_feature_flags = [''fpu'', ''vme'', ''de'', ''pse'', ''tsc'', ''msr'', ''pae'', ''mce'', ''cx8'', ''apic'', ''sep'', ''mtrr'',
     ''pge'', ''mca'', ''cmov'', ''pat'', ''pse36'', ''psn'', ''clflush'', ''ds'', ''acpi'', ''mmx'', ''fxsr'', ''sse'', ''sse2'', ''ss'',
     ''htt'', ''tm'', ''ia64'', ''pbe'']"

definition ecx_feature_flags :: "string list" where
  "ecx_feature_flags = [''sse3'', ''pclmul'', ''dtes64'', ''monitor'', ''ds_cpl'', ''vmx'', ''smx'', ''est'', ''tm2'', ''ssse3'', ''cid'',
     ''sdbg'', ''fma'', ''cx16'', ''xtpr'', ''pdcm'', ''pcid'', ''dca'', ''sse4_1'', ''sse4_2'', ''x2apic'', ''movbe'', ''popcnt'', ''tsc'',
     ''aes'', ''xsave'', ''osxsave'', ''avx'', ''f16c'', ''rdrand'', ''hypervisor'']"

definition flag_name :: "string list \<Rightarrow> nat \<Rightarrow> string option" where
  "flag_name tbl i = (if i < length tbl then Some (tbl ! i) else None)"

definition cat :: "(kerr + con_action list) \<Rightarrow> (kerr + con_action list) \<Rightarrow> kerr + con_action list" where
  "cat a b = (case a of Inl e \<Rightarrow> Inl e | Inr x \<Rightarrow> map_sum id (\<lambda>y. x @ y) b)"

definition print_flag :: "string list \<Rightarrow> u32 \<Rightarrow> nat \<Rightarrow> kerr + con_action list" where
  "print_flag tbl w i =
     (if bit w i then (case flag_name tbl i of None \<Rightarrow> Inl Null_deref | Some n \<Rightarrow> map_sum id snd (kprintf (Some ''%s '') [VStr n]))
      else Inr [])"

definition print_flags :: "string list \<Rightarrow> u32 \<Rightarrow> kerr + con_action list" where
  "print_flags tbl w = foldr (\<lambda>i. cat (print_flag tbl w i)) [0..<31] (Inr [])"

definition print_cpu_features :: "cpuid_t \<Rightarrow> kerr + con_action list" where
  "print_cpu_features cpuid = (case cpuid 1 of (eax, ebx, ecx, edx) \<Rightarrow>
     cat (map_sum id snd (kprintf (Some ''CPU feature flags: '') []))
       (cat (print_flags edx_feature_flags edx)
         (cat (print_flags ecx_feature_flags ecx) (map_sum id snd (kprintf (Some [CHR 0x0A]) [])))))"

section \<open>The names and the bits\<close>

text \<open>The bits that include/cpu/cpuid.h gives to the names.\<close>

definition edx_feature_bits :: "(string \<times> nat) list" where
  "edx_feature_bits = [(''fpu'', 0), (''vme'', 1), (''de'', 2), (''pse'', 3), (''tsc'', 4), (''msr'', 5), (''pae'', 6), (''mce'', 7),
     (''cx8'', 8), (''apic'', 9), (''sep'', 11), (''mtrr'', 12), (''pge'', 13), (''mca'', 14), (''cmov'', 15), (''pat'', 16),
     (''pse36'', 17), (''psn'', 18), (''clflush'', 19), (''ds'', 21), (''acpi'', 22), (''mmx'', 23), (''fxsr'', 24), (''sse'', 25),
     (''sse2'', 26), (''ss'', 27), (''htt'', 28), (''tm'', 29), (''ia64'', 30), (''pbe'', 31)]"

definition ecx_feature_bits :: "(string \<times> nat) list" where
  "ecx_feature_bits = [(''sse3'', 0), (''pclmul'', 1), (''dtes64'', 2), (''monitor'', 3), (''ds_cpl'', 4), (''vmx'', 5), (''smx'', 6),
     (''est'', 7), (''tm2'', 8), (''ssse3'', 9), (''cid'', 10), (''sdbg'', 11), (''fma'', 12), (''cx16'', 13), (''xtpr'', 14),
     (''pdcm'', 15), (''pcid'', 17), (''dca'', 18), (''sse4_1'', 19), (''sse4_2'', 20), (''x2apic'', 21), (''movbe'', 22), (''popcnt'', 23),
     (''tsc'', 24), (''aes'', 25), (''xsave'', 26), (''osxsave'', 27), (''avx'', 28), (''f16c'', 29), (''rdrand'', 30), (''hypervisor'', 31)]"

text \<open>Which name the processor's feature list shows for a feature bit. The tables have no gap
  where the register has a reserved bit, so from the first reserved bit on (bit 10 of \<open>edx\<close>, bit 16 of
  \<open>ecx\<close>) every feature is shown under the name of another one, or through a null pointer.\<close>

theorem cpu_feature_names:
  "list_all (\<lambda>(n, b). flag_name edx_feature_flags b = Some n \<longleftrightarrow> b < 10) edx_feature_bits
   \<and> list_all (\<lambda>(n, b). flag_name ecx_feature_flags b = Some n \<longleftrightarrow> b < 16) ecx_feature_bits
   \<and> print_flags edx_feature_flags (push_bit 30 1) = Inl Null_deref"
  by code_simp

end
