(* ===== verification/Entry.thy ===== *)
theory Entry
  imports Interrupts
begin

unbundle bit_operations_syntax

text \<open>
  The assembly around the C code: how the processor and the stubs of kernel/cpu/interrupt.asm build the
  \<open>regs_t\<close> that the handlers receive and take it down again, the jump to user mode of
  kernel/sys/usermode.asm, and the boot code of kernel/entry.asm. A state is the registers and the bytes of
  memory; instructions are functions on it. The processor's part of an interrupt follows the manual of the
  architecture: outside the kernel's privilege level it first changes to the stack of the task state segment
  and saves the old one, then it pushes flags, code segment, return address and, for some exceptions, an
  error code. A pushed segment register is extended by zeros.
\<close>

section \<open>Registers and stack\<close>

record xregs =
  x_edi :: u32
  x_esi :: u32
  x_ebp :: u32
  x_esp :: u32
  x_ebx :: u32
  x_edx :: u32
  x_ecx :: u32
  x_eax :: u32
  x_eip :: u32
  x_eflags :: u32
  x_cs :: u16
  x_ss :: u16
  x_ds :: u16
  x_es :: u16
  x_fs :: u16
  x_gs :: u16

type_synonym xstate = "xregs \<times> mem"

definition push :: "u32 \<Rightarrow> xstate \<Rightarrow> xstate" where
  "push v = (\<lambda>(r, m). (r\<lparr>x_esp := x_esp r - 4\<rparr>, store32 m (x_esp r - 4) v))"

definition pop :: "xstate \<Rightarrow> u32 \<times> xstate" where
  "pop = (\<lambda>(r, m). (load32 m (x_esp r), r\<lparr>x_esp := x_esp r + 4\<rparr>, m))"

definition pusha :: "xstate \<Rightarrow> xstate" where
  "pusha s = (let r = fst s in fold push [x_eax r, x_ecx r, x_edx r, x_ebx r, x_esp r, x_ebp r, x_esi r, x_edi r] s)"

text \<open>The saved stack pointer is skipped.\<close>

definition popa :: "xstate \<Rightarrow> xstate" where
  "popa = (\<lambda>(r, m). let w = (\<lambda>i. load32 m (x_esp r + i))
     in (r\<lparr>x_edi := w 0, x_esi := w 4, x_ebp := w 8, x_ebx := w 16, x_edx := w 20, x_ecx := w 24, x_eax := w 28,
           x_esp := x_esp r + 32\<rparr>, m))"

definition user_mode :: "xregs \<Rightarrow> bool" where
  "user_mode r \<longleftrightarrow> x_cs r AND 3 \<noteq> 0"

section \<open>Taking an interrupt\<close>

text \<open>The exceptions for which the processor pushes an error code, and those whose stub expects one.\<close>

definition pushes_error :: "nat \<Rightarrow> bool" where
  "pushes_error n \<longleftrightarrow> n \<in> {8, 10, 11, 12, 13, 14, 17, 21, 29, 30}"

definition stub_expects_error :: "nat \<Rightarrow> bool" where
  "stub_expects_error n \<longleftrightarrow> n \<in> {8, 10, 11, 12, 13, 14}"

text \<open>\<open>tss_entry_t\<close> gives the kernel's stack; \<open>gate\<close> is the stub's address. An interrupt gate clears the
  interrupt flag, bit 9.\<close>

definition cpu_interrupt :: "tss_entry_t \<Rightarrow> u32 \<Rightarrow> u32 option \<Rightarrow> xstate \<Rightarrow> xstate" where
  "cpu_interrupt t gate err s =
     (let r = fst s;
          s = (if user_mode r
               then fold push [ucast (x_ss r), x_esp r] (r\<lparr>x_esp := esp0 t, x_ss := ss0 t\<rparr>, snd s) else s);
          s = fold push [x_eflags r, ucast (x_cs r), x_eip r] s;
          s = (case err of None \<Rightarrow> s | Some e \<Rightarrow> push e s)
      in ((fst s)\<lparr>x_cs := 0x08, x_eip := gate, x_eflags := x_eflags r AND NOT 0x200\<rparr>, snd s))"

text \<open>The stub of vector \<open>n\<close> and the common part up to the call of the C function at \<open>h\<close>: the result is the
  address of the frame, which is also the argument that the function finds on the stack.\<close>

definition stub_entry :: "u32 \<Rightarrow> nat \<Rightarrow> xstate \<Rightarrow> ptr \<times> xstate" where
  "stub_entry h n s =
     (let s = (if stub_expects_error n then s else push 0 s);
          s = push (of_nat n) s;
          s = pusha s;
          r = fst s;
          s = fold push [ucast (x_ds r), ucast (x_es r), ucast (x_fs r), ucast (x_gs r)] s;
          s = ((fst s)\<lparr>x_ds := 0x10, x_es := 0x10, x_fs := 0x10, x_gs := 0x10\<rparr>, snd s);
          f = x_esp (fst s);
          (r, m) = push f s
      in (f, r\<lparr>x_eax := h\<rparr>, m))"

text \<open>The return: the argument and the segment registers are popped, then the others.\<close>

definition stub_exit :: "xstate \<Rightarrow> xstate" where
  "stub_exit s =
     (let (v, r, m) = pop s; s = (r\<lparr>x_eax := v\<rparr>, m);
          (v, r, m) = pop s; s = (r\<lparr>x_gs := ucast v\<rparr>, m);
          (v, r, m) = pop s; s = (r\<lparr>x_fs := ucast v\<rparr>, m);
          (v, r, m) = pop s; s = (r\<lparr>x_es := ucast v\<rparr>, m);
          (v, r, m) = pop s; s = (r\<lparr>x_ds := ucast v\<rparr>, m);
          (r, m) = popa s
      in (r\<lparr>x_esp := x_esp r + 8\<rparr>, m))"

definition iret :: "xstate \<Rightarrow> xstate" where
  "iret s =
     (let (ip, s) = pop s; (c, s) = pop s; (fl, r, m) = pop s;
          s = (r\<lparr>x_eip := ip, x_cs := ucast c, x_eflags := fl\<rparr>, m)
      in if user_mode (fst s)
         then let (sp, s) = pop s; (seg, r, m) = pop s in (r\<lparr>x_esp := sp, x_ss := ucast seg\<rparr>, m)
         else s)"

text \<open>An interrupt from the processor's first push to the call, and from the handler's return to the
  instruction that was interrupted.\<close>

definition interrupt_entry :: "tss_entry_t \<Rightarrow> u32 \<Rightarrow> u32 \<Rightarrow> nat \<Rightarrow> u32 \<Rightarrow> xstate \<Rightarrow> ptr \<times> xstate" where
  "interrupt_entry t gate h n e s = stub_entry h n (cpu_interrupt t gate (if pushes_error n then Some e else None) s)"

definition interrupt_exit :: "xstate \<Rightarrow> xstate" where
  "interrupt_exit s = iret (stub_exit s)"

text \<open>A software interrupt needs a gate of at least the caller's privilege level.\<close>

definition int_allowed :: "idt_descr_t \<Rightarrow> xregs \<Rightarrow> bool" where
  "int_allowed g r \<longleftrightarrow> ucast (x_cs r AND 3) \<le> drop_bit 5 (id_flags g) AND 3"

section \<open>User mode\<close>

text \<open>
  \<open>switch_to_user\<close>, with its arguments above the return address. Both the new stack pointer and the address
  jumped to are read from the first one.
\<close>

definition switch_to_user :: "xstate \<Rightarrow> xstate" where
  "switch_to_user s =
     (let (r, m) = s;
          r = r\<lparr>x_eflags := x_eflags r AND NOT 0x200, x_ds := 0x23, x_es := 0x23, x_fs := 0x23, x_gs := 0x23\<rparr>;
          a = load32 m (x_esp r + 4) - 4;
          m = store32 m a (load32 m (x_esp r + 12));
          b = load32 m (x_esp r + 4);
          s = (r\<lparr>x_ebx := b\<rparr>, m);
          s = fold push [0x23, a, x_eflags r] s;
          (v, s) = pop s;
          s = push (v OR 0x200) ((fst s)\<lparr>x_eax := v OR 0x200\<rparr>, snd s);
          s = fold push [0x1b, b] s
      in iret s)"

section \<open>Boot\<close>

text \<open>The boot page directory: two entries of 4 MB pages, both for the first 4 MB.\<close>

definition boot_pde :: "u32 \<Rightarrow> u32" where
  "boot_pde i = (if i = 0 \<or> i = 768 then 0x83 else 0)"

text \<open>How the processor reads it, with 4 MB pages enabled: bit 0 is present, bit 7 the page size.\<close>

definition boot_translate :: "u32 \<Rightarrow> u32 option" where
  "boot_translate va =
     (let e = boot_pde (drop_bit 22 va)
      in if bit e 0 \<and> bit e 7 then Some ((e AND 0xffc00000) OR (va AND 0x3fffff)) else None)"

record control =
  c_cr0 :: u32
  c_cr3 :: u32
  c_cr4 :: u32

text \<open>From \<open>start\<close> to the call of \<open>kernel_main\<close>. \<open>dir\<close>, \<open>stack_top\<close>, \<open>higher_half\<close> and
  \<open>kmain\<close> are the linker's addresses, \<open>ret\<close> the
  address after the call.\<close>

definition boot_start_code :: "u32 \<Rightarrow> u32 \<Rightarrow> u32 \<Rightarrow> u32 \<Rightarrow> u32 \<Rightarrow> control \<Rightarrow> xstate \<Rightarrow> control \<times> xstate" where
  "boot_start_code dir stack_top higher_half kmain ret c s =
     (let c = c\<lparr>c_cr3 := dir - KERN_BASE, c_cr4 := c_cr4 c OR 0x10, c_cr0 := c_cr0 c OR 0x80000000\<rparr>;
          (r, m) = s;
          r = r\<lparr>x_ecx := higher_half, x_eflags := x_eflags r AND NOT 0x200 AND NOT 0x400, x_esp := stack_top,
                x_ebx := x_ebx r + KERN_BASE\<rparr>;
          s = fold push [x_ebx r, x_eax r, ret] (r, m)
      in (c, (fst s)\<lparr>x_eip := kmain\<rparr>, snd s))"

section \<open>The frame\<close>

lemma push_simps [simp]:
  "push v (r, m) = (r\<lparr>x_esp := x_esp r - 4\<rparr>, store32 m (x_esp r - 4) v)"
  "pop (r, m) = (load32 m (x_esp r), r\<lparr>x_esp := x_esp r + 4\<rparr>, m)"
  by (simp_all add: push_def pop_def)

text \<open>The stack on which the frame is built, and the words of a frame from its lowest address.\<close>

definition frame_base :: "tss_entry_t \<Rightarrow> xregs \<Rightarrow> ptr" where
  "frame_base t r = (if user_mode r then esp0 t - 8 else x_esp r)"

definition frame_words :: "xregs \<Rightarrow> ptr \<Rightarrow> nat \<Rightarrow> u32 \<Rightarrow> u32 list" where
  "frame_words r b n e =
     [ucast (x_gs r), ucast (x_fs r), ucast (x_es r), ucast (x_ds r), x_edi r, x_esi r, x_ebp r, b - 20, x_ebx r,
      x_edx r, x_ecx r, x_eax r, of_nat n, e, x_eip r, ucast (x_cs r), x_eflags r]"

lemma load_words_3: "load_words m a 3 = [load32 m a, load32 m (a + 4), load32 m (a + 8)]"
  by (simp add: eval_nat_numeral add.assoc)

lemma load_words_17: "load_words m a 17 = map (\<lambda>i. load32 m (a + 4 * i)) [0, 1, 2, 3, 4, 5, 6, 7, 8, 9, 10, 11, 12, 13, 14, 15, 16]"
  by (simp add: eval_nat_numeral add.assoc)

lemma interrupt_entry_unfold:
  assumes "pushes_error n = stub_expects_error n"
  shows "\<exists>k. interrupt_entry t gate h n e (r, m) = (frame_base t r - 68,
      r\<lparr>x_esp := frame_base t r - 72, x_ss := (if user_mode r then ss0 t else x_ss r), x_cs := 0x08, x_eip := gate,
        x_eflags := x_eflags r AND NOT 0x200, x_ds := 0x10, x_es := 0x10, x_fs := 0x10, x_gs := 0x10, x_eax := h\<rparr>, k)
    \<and> load_words k (frame_base t r - 68) 17 = frame_words r (frame_base t r) n (if pushes_error n then e else 0)
    \<and> (user_mode r \<longrightarrow> load32 k (frame_base t r) = x_esp r \<and> load32 k (frame_base t r + 4) = ucast (x_ss r))"
  unfolding load_words_17
  by (cases "user_mode r"; cases "pushes_error n")
    (use assms in \<open>simp_all add: interrupt_entry_def cpu_interrupt_def stub_entry_def pusha_def frame_words_def
      frame_base_def Let_def load_store_apart apart_def\<close>)

lemma ucast_ucast_seg [simp]: "ucast (ucast (w :: u16) :: u32) = w"
  by (rule bit_word_eqI) (auto simp: bit_simps dest: bit_imp_le_length)

text \<open>The offsets of the seventeen words, \<open>eax\<close> (44) apart.\<close>

definition frame_offsets :: "u32 list" where
  "frame_offsets = [0, 4, 8, 12, 16, 20, 24, 28, 32, 36, 40, 48, 52, 56, 60, 64]"

lemma load_words_17_eq:
  "load_words m a 17 = ws \<Longrightarrow> i < 17 \<Longrightarrow> load32 m (a + 4 * of_nat i) = ws ! i"
proof -
  have "j < n \<Longrightarrow> load_words m a n ! j = load32 m (a + 4 * of_nat j)" for j n
  proof (induction n arbitrary: j a)
    case (Suc n)
    then show ?case by (cases j) (simp_all add: algebra_simps)
  qed simp
  then show "load_words m a 17 = ws \<Longrightarrow> i < 17 \<Longrightarrow> load32 m (a + 4 * of_nat i) = ws ! i" by auto
qed

text \<open>Leaving with a frame of known words.\<close>

lemma interrupt_exit_unfold:
  assumes w: "load_words m f 17 = [g, fs', es', ds', di, si, bp, sp', bx, dx, cx, ax, n, e, ip, c, fl]"
    and esp: "x_esp r2 = f - 4"
  shows "fst (interrupt_exit (r2, m)) =
    (let r = \<lparr>x_edi = di, x_esi = si, x_ebp = bp, x_esp = f + 68, x_ebx = bx, x_edx = dx, x_ecx = cx, x_eax = ax, x_eip = ip,
           x_eflags = fl, x_cs = ucast c, x_ss = x_ss r2, x_ds = ucast ds', x_es = ucast es', x_fs = ucast fs', x_gs = ucast g\<rparr>
     in if user_mode r then r\<lparr>x_esp := load32 m (f + 68), x_ss := ucast (load32 m (f + 72))\<rparr> else r)"
proof -
  have l: "load32 m f = g" "load32 m (f + 4) = fs'" "load32 m (4 + f) = fs'" "load32 m (8 + f) = es'" "load32 m (12 + f) = ds'" "load32 m (16 + f) = di"
      "load32 m (20 + f) = si" "load32 m (24 + f) = bp" "load32 m (32 + f) = bx" "load32 m (36 + f) = dx"
      "load32 m (40 + f) = cx" "load32 m (44 + f) = ax" "load32 m (56 + f) = ip" "load32 m (60 + f) = c" "load32 m (64 + f) = fl"
    using w unfolding load_words_17 by (simp_all add: add.commute)
  have "interrupt_exit (r2, m) = iret (r2\<lparr>x_gs := ucast g, x_fs := ucast fs', x_es := ucast es', x_ds := ucast ds', x_edi := di,
      x_esi := si, x_ebp := bp, x_ebx := bx, x_edx := dx, x_ecx := cx, x_eax := ax, x_esp := 56 + f\<rparr>, m)"
    using esp l by (simp add: interrupt_exit_def stub_exit_def popa_def Let_def)
  then show ?thesis
    using l by (simp add: iret_def user_mode_def Let_def add.commute)
qed

lemma load_words_17_upd:
  assumes "load_words m1 f 17 = [g, fs', es', ds', di, si, bp, sp', bx, dx, cx, ax, n, e, ip, c, fl]"
    and "\<forall>j \<in> set frame_offsets. load32 m2 (f + j) = load32 m1 (f + j)"
  shows "load_words m2 f 17 = [g, fs', es', ds', di, si, bp, sp', bx, dx, cx, load32 m2 (f + 44), n, e, ip, c, fl]"
  using assms unfolding load_words_17 frame_offsets_def by simp

section \<open>Properties\<close>

lemma interrupt_round_trip:
  assumes "pushes_error n = stub_expects_error n" and "interrupt_entry t gate h n e (r, m) = (f, r1, m1)"
    and "x_esp r2 = x_esp r1" and "x_ss r2 = x_ss r1"
    and "\<forall>j \<in> set (frame_offsets @ [68, 72]). load32 m2 (f + j) = load32 m1 (f + j)"
  shows "fst (interrupt_exit (r2, m2)) = r\<lparr>x_eax := load32 m2 (f + 44)\<rparr>"
proof -
  let ?b = "frame_base t r" and ?e = "if pushes_error n then e else 0"
  have f: "f = ?b - 68" "x_esp r1 = f - 4" "x_ss r1 = (if user_mode r then ss0 t else x_ss r)"
    and w: "load_words m1 f 17 = frame_words r ?b n ?e"
    and u: "user_mode r \<Longrightarrow> load32 m1 ?b = x_esp r \<and> load32 m1 (?b + 4) = ucast (x_ss r)"
    using interrupt_entry_unfold [OF assms(1), of t gate h e r m] assms(2) by auto
  have w2: "load_words m2 f 17 = (frame_words r ?b n ?e)[11 := load32 m2 (f + 44)]"
    using load_words_17_upd [OF w [unfolded frame_words_def], of m2] assms(5) by (simp add: frame_words_def)
  have ss: "load32 m2 (f + 68) = load32 m1 ?b" "load32 m2 (f + 72) = load32 m1 (?b + 4)"
    using assms(5) by (simp_all add: f(1) add.commute)
  have sp: "x_esp r2 = f - 4" using assms(3) f(2) by simp
  have "?b = x_esp r" if "\<not> user_mode r" using that by (simp add: frame_base_def)
  then show ?thesis
    using interrupt_exit_unfold [OF w2 [unfolded frame_words_def list_update_code, simplified] sp] ss u f(1,3) assms(4)
    by (auto simp: Let_def user_mode_def intro!: xregs.equality)
qed


definition demo_regs :: xregs where
  "demo_regs = \<lparr>x_edi = 1, x_esi = 2, x_ebp = 3, x_esp = 0xbffff000, x_ebx = 5, x_edx = 6, x_ecx = 7, x_eax = 8,
     x_eip = 0x401000, x_eflags = 0x202, x_cs = 0x1b, x_ss = 0x23, x_ds = 0x23, x_es = 0x23, x_fs = 0x23, x_gs = 0x23\<rparr>"


text \<open>C13: a system call seen from its caller. Through vector 127 and back, a call that does not switch tasks
  leaves in \<open>eax\<close> the thread identifier for number 1, zero for number 4 and -1 for every number outside 1 to 4,
  and the caller finds every other register, segment and flag as it was.\<close>

theorem int127_returns:
  assumes "interrupt_entry t gate h 127 e (r, m) = (f, r1, kmem (tvm (ms mm)))" and "installed mm 127 = Some Syscall_dispatcher"
    and "x_eax r \<noteq> 2" and "x_eax r \<noteq> 3" and "x_esp r2 = x_esp r1" and "x_ss r2 = x_ss r1"
  shows "\<exists>mm'. isr_handler hw fi f mm = Some (Inr (Returned, mm')) \<and> fst (interrupt_exit (r2, kmem (tvm (ms mm')))) =
    r\<lparr>x_eax := (if x_eax r = 1 then tid (this_task mm) else if x_eax r = 4 then 0 else - 1)\<rparr>"
proof -
  have ok: "pushes_error 127 = stub_expects_error 127" by (simp add: pushes_error_def stub_expects_error_def)
  have w: "load_words (kmem (tvm (ms mm))) f 17 = frame_words r (frame_base t r) 127 0"
    using interrupt_entry_unfold [OF ok, of t gate h e r m] assms(1) by (auto simp: pushes_error_def)
  then have "frame_word mm (regs_int_no f) = 127" "frame_word mm (regs_eax f) = x_eax r"
    unfolding load_words_17 frame_words_def frame_word_def by simp_all
  from syscall_returns_result [OF this(1) assms(2) this(2) [symmetric] assms(3,4), of hw fi]
  obtain mm' where mm': "isr_handler hw fi f mm = Some (Inr (Returned, mm'))"
      "frame_word mm' (regs_eax f) = (if x_eax r = 1 then tid (this_task mm) else if x_eax r = 4 then 0 else - 1)"
      "\<forall>j \<in> {0, 4, 8, 12, 16, 20, 24, 28, 32, 36, 40, 48, 52, 56, 60, 64, 68, 72}. frame_word mm' (f + j) = frame_word mm (f + j)"
    by blast
  have keep: "\<forall>j \<in> set (frame_offsets @ [68, 72]). load32 (kmem (tvm (ms mm'))) (f + j) = load32 (kmem (tvm (ms mm))) (f + j)"
    using mm'(3) unfolding frame_word_def frame_offsets_def by simp
  show ?thesis
    using mm'(1,2) interrupt_round_trip [OF ok assms(1,5,6) keep] by (intro exI [of _ mm']) (simp add: frame_word_def)
qed

theorem int127_returns_witness:
  "\<exists>f r1 m1 mm'. interrupt_entry (tss demo_tables) 0xc01007f0 0xc0102000 127 0 (demo_regs, \<lambda>_. 0) = (f, r1, m1)
     \<and> isr_handler (\<lambda>_ _. 0) [] f (demo_machine\<lparr>ms := upd_mem (\<lambda>_. m1) (ms demo_machine)\<rparr>) = Some (Inr (Returned, mm'))
     \<and> fst (interrupt_exit (r1, kmem (tvm (ms mm')))) = demo_regs\<lparr>x_eax := - 1\<rparr>"
proof -
  obtain f r1 m1 where i: "interrupt_entry (tss demo_tables) 0xc01007f0 0xc0102000 127 0 (demo_regs, \<lambda>_. 0) = (f, r1, m1)"
    by (metis prod_cases3)
  let ?mm = "demo_machine\<lparr>ms := upd_mem (\<lambda>_. m1) (ms demo_machine)\<rparr>"
  have "kmem (tvm (ms ?mm)) = m1" "installed ?mm 127 = Some Syscall_dispatcher" "x_eax demo_regs = 8"
    by (simp_all add: upd_mem_def installed_def demo_machine_def demo_regs_def)
  with int127_returns [of "tss demo_tables" "0xc01007f0" "0xc0102000" 0 demo_regs "\<lambda>_. 0" f r1 ?mm r1 "\<lambda>_ _. 0" "[]"] i
  show ?thesis by auto
qed

text \<open>C26: but only the kernel can make such a call: after \<open>idt_init\<close> the processor admits the instruction
  exactly when the caller is not in user mode.\<close>

theorem int127_kernel_only:
  assumes "idt_init idt_addr stub s h = (s', h')"
  shows "int_allowed (idt s' 127) r \<longleftrightarrow> \<not> user_mode r"
proof -
  have "drop_bit 5 (id_flags (idt s' 127)) AND 3 = 0"
    using conjunct1 [OF idt_init_gates [OF assms], THEN spec, of 127] by simp
  then have "int_allowed (idt s' 127) r \<longleftrightarrow> ucast (x_cs r AND 3) = (0 :: u8)"
    by (simp add: int_allowed_def)
  also have "\<dots> \<longleftrightarrow> x_cs r AND 3 = 0"
  proof
    have three: "x_cs r AND 3 = take_bit 2 (x_cs r)" by (simp add: take_bit_eq_mask mask_eq_exp_minus_1)
    assume z: "ucast (x_cs r AND 3) = (0 :: u8)"
    have "\<not> bit (ucast (x_cs r AND 3) :: u8) n" for n unfolding z by simp
    then show "x_cs r AND 3 = 0" unfolding three by (intro bit_word_eqI) (auto simp: bit_simps)
  qed simp
  finally show ?thesis by (simp add: user_mode_def)
qed

theorem int127_kernel_only_witness:
  "\<exists>s' h'. idt_init 0 (\<lambda>_. 0) demo_tables [] = (s', h') \<and> \<not> int_allowed (idt s' 127) demo_regs
     \<and> int_allowed (idt s' 127) (demo_regs\<lparr>x_cs := 8\<rparr>)"
proof -
  obtain s' h' where i: "idt_init 0 (\<lambda>_. 0) demo_tables [] = (s', h')" by fastforce
  show ?thesis using int127_kernel_only [OF i, of demo_regs] int127_kernel_only [OF i, of "demo_regs\<lparr>x_cs := 8\<rparr>"] i
    by (auto simp: user_mode_def demo_regs_def)
qed

text \<open>For the exceptions whose error code the stub does not expect (17, 21, 29 and 30) the frame is shifted by
  one word: the handler finds the error code in place of the return address, and the way back jumps to the
  error code.\<close>

theorem unexpected_error_code_shifts:
  assumes "pushes_error n" and "\<not> stub_expects_error n" and "interrupt_entry t gate h n e (r, m) = (f, r1, m1)"
  shows "load32 m1 (regs_int_no f) = of_nat n \<and> load32 m1 (regs_eip f) = e \<and> load32 m1 (f + 60) = x_eip r
    \<and> x_eip (fst (interrupt_exit (r1, m1))) = e"
proof -
  have "\<exists>k. interrupt_entry t gate h n e (r, m) = (frame_base t r - 72,
      r\<lparr>x_esp := frame_base t r - 76, x_ss := (if user_mode r then ss0 t else x_ss r), x_cs := 0x08, x_eip := gate,
        x_eflags := x_eflags r AND NOT 0x200, x_ds := 0x10, x_es := 0x10, x_fs := 0x10, x_gs := 0x10, x_eax := h\<rparr>, k)
    \<and> load32 k (frame_base t r - 24) = of_nat n \<and> load32 k (frame_base t r - 16) = e \<and> load32 k (frame_base t r - 12) = x_eip r"
    using assms(1,2)
    by (cases "user_mode r") (simp_all add: interrupt_entry_def cpu_interrupt_def stub_entry_def pusha_def
      frame_base_def Let_def load_store_apart apart_def)
  then have f: "f = frame_base t r - 72" "x_esp r1 = f - 4" and l: "load32 m1 (f + 48) = of_nat n" "load32 m1 (f + 56) = e"
      "load32 m1 (f + 60) = x_eip r"
    using assms(3) by (auto simp: add.commute)
  have "\<exists>g fs' es' ds' di si bp sp' bx dx cx ax n' e' c fl.
      load_words m1 f 17 = [g, fs', es', ds', di, si, bp, sp', bx, dx, cx, ax, n', e', e, c, fl]"
    using l(2) unfolding load_words_17 by simp
  then have "x_eip (fst (interrupt_exit (r1, m1))) = e"
    using interrupt_exit_unfold [of m1 f _ _ _ _ _ _ _ _ _ _ _ _ _ _ e _ _ r1] f(2) by (auto simp: Let_def)
  then show ?thesis using l by simp
qed

theorem unexpected_error_code_shifts_witness:
  "\<exists>f r1 m1. interrupt_entry (tss demo_tables) 0xc0100110 0xc0102000 17 0 (demo_regs, \<lambda>_. 0) = (f, r1, m1)
     \<and> x_eip (fst (interrupt_exit (r1, m1))) = 0"
proof -
  obtain f r1 m1 where i: "interrupt_entry (tss demo_tables) 0xc0100110 0xc0102000 17 0 (demo_regs, \<lambda>_. 0) = (f, r1, m1)"
    by (metis prod_cases3)
  have "pushes_error 17" "\<not> stub_expects_error 17" by (simp_all add: pushes_error_def stub_expects_error_def)
  from unexpected_error_code_shifts [OF this i] i show ?thesis by auto
qed

text \<open>\<open>switch_to_user\<close> enters user mode with interrupts enabled, but at the address of the stack: the
  instruction pointer is the first argument, and the stack pointer is four bytes below it.\<close>

theorem switch_to_user_jumps_to_stack:
  assumes "a = load32 m (x_esp r + 4)" and "apart 4 (a - 4) (x_esp r + 4)"
  shows "let r' = fst (switch_to_user (r, m))
    in x_eip r' = a \<and> x_esp r' = a - 4 \<and> x_cs r' = 0x1b \<and> x_ss r' = 0x23 \<and> user_mode r' \<and> bit (x_eflags r') 9"
proof -
  have b: "load32 (store32 m (a - 4) v) (x_esp r + 4) = a" for v using assms by (simp add: load_store_apart)
  have i: "bit (w OR 0x200) 9" for w :: u32 by (simp add: bit_or_iff)
  show ?thesis
    unfolding switch_to_user_def
    by (simp add: assms(1) [symmetric] b i iret_def user_mode_def Let_def load_store_apart apart_def)
qed

theorem switch_to_user_jumps_to_stack_witness:
  "x_eip (fst (switch_to_user (demo_regs\<lparr>x_esp := 0x8000\<rparr>, store32 (\<lambda>_. 0) 0x8004 0xb0000000))) = 0xb0000000"
proof -
  have "0xb0000000 = load32 (store32 (\<lambda>_. 0) 0x8004 0xb0000000) (x_esp (demo_regs\<lparr>x_esp := 0x8000\<rparr>) + 4)" by simp
  from switch_to_user_jumps_to_stack [OF this] show ?thesis by (simp add: apart_def Let_def)
qed

text \<open>The page directory of the boot code maps the first 4 MB twice, at address 0 and at the kernel's base,
  and nothing else. The mapping at 0 is still there when \<open>kernel_main\<close> runs.\<close>

theorem boot_maps_twice:
  "boot_translate va = (if va < 0x400000 then Some va
     else if KERN_BASE \<le> va \<and> va < KERN_BASE + 0x400000 then Some (va - KERN_BASE) else None)"
proof -
  have d: "unat (drop_bit 22 va) = unat va div 4194304" by (simp add: drop_bit_eq_div unat_div)
  have b: "unat va < 4294967296" using unsigned_less [of va, where 'a = nat] by simp
  have "va AND 0x3fffff = take_bit 22 va" by (simp add: take_bit_eq_mask mask_eq_exp_minus_1)
  then have m: "unat (va AND 0x3fffff) = unat va mod 4194304"
    by (simp add: take_bit_eq_mod unat_mod)
  have z: "drop_bit 22 va = 0 \<longleftrightarrow> va < 0x400000" and k: "drop_bit 22 va = 768 \<longleftrightarrow> KERN_BASE \<le> va \<and> va < KERN_BASE + 0x400000"
    using b by (auto simp: word_unat_eq_iff d word_le_nat_alt word_less_nat_alt)
  have "va AND 0x3fffff = va" if "va < 0x400000"
    using that m by (simp add: word_unat_eq_iff word_less_nat_alt)
  moreover have "va AND 0x3fffff = va - KERN_BASE" if r: "KERN_BASE \<le> va" "va < KERN_BASE + 0x400000"
  proof -
    have "unat (va - KERN_BASE) = unat va - 3221225472" using r(1) by (simp add: unat_sub)
    moreover obtain d where "unat va = d + 768 * 4194304" "d < 4194304"
    proof
      show "unat va = (unat va - 3221225472) + 768 * 4194304" "unat va - 3221225472 < 4194304"
        using r by (simp_all add: word_le_nat_alt word_less_nat_alt)
    qed
    moreover have "(d + 768 * 4194304) mod 4194304 = d mod 4194304" for d :: nat by (rule mod_mult_self1)
    ultimately show ?thesis using m by (simp add: word_unat_eq_iff)
  qed
  ultimately show ?thesis
    by (auto simp: boot_translate_def boot_pde_def z k Let_def)
qed

text \<open>The boot code turns paging on with its directory and calls \<open>kernel_main\<close> with the loader's magic
  number and the address of the boot information in the kernel's half, on the boot stack.\<close>

theorem boot_calls_kernel_main:
  assumes "boot_start_code dir stack_top hh kmain ret c (r, m) = (c', r', m')"
  shows "c_cr3 c' = dir - KERN_BASE \<and> bit (c_cr0 c') 31 \<and> bit (c_cr4 c') 4 \<and> x_eip r' = kmain \<and> x_esp r' = stack_top - 12
     \<and> load_words m' (x_esp r') 3 = [ret, x_eax r, x_ebx r + KERN_BASE]"
proof -
  have "bit (w OR 0x80000000) 31" "bit (w OR 0x10) 4" for w :: u32 by (simp_all add: bit_or_iff)
  then show ?thesis
    using assms by (auto simp: boot_start_code_def Let_def load_words_3 load_store_apart apart_def)
qed

theorem boot_calls_kernel_main_witness:
  "\<exists>c' r' m'. boot_start_code 0xc0108000 0xc010a000 0xc0100040 0xc0101000 0xc0100060 \<lparr>c_cr0 = 0x11, c_cr3 = 0, c_cr4 = 0\<rparr>
       (demo_regs\<lparr>x_eax := 0x36d76289, x_ebx := 0x10000\<rparr>, \<lambda>_. 0) = (c', r', m')
     \<and> load_words m' 0xc0109ff4 3 = [0xc0100060, 0x36d76289, 0xc0010000]"
proof -
  obtain c' r' m' where i: "boot_start_code 0xc0108000 0xc010a000 0xc0100040 0xc0101000 0xc0100060 \<lparr>c_cr0 = 0x11, c_cr3 = 0, c_cr4 = 0\<rparr>
       (demo_regs\<lparr>x_eax := 0x36d76289, x_ebx := 0x10000\<rparr>, \<lambda>_. 0) = (c', r', m')" by (metis prod_cases3)
  from boot_calls_kernel_main [OF i] i show ?thesis by auto
qed

end
