(* ===== verification/Kinvariant.thy ===== *)
theory Kinvariant
  imports Entry
begin

unbundle bit_operations_syntax

text \<open>
  What no interrupt, system call or task can change. A step of the machine is an exception or software
  interrupt, a device interrupt, the resumption of a suspended system call, or what the running task does to its
  registers, to the floating-point unit and to memory other than the paging structures, the descriptor tables and the
  scheduler's records, which the model keeps apart from plain memory. \<open>kept\<close> collects what every step leaves alone: the translation
  of every address in every page directory, the table of handlers, the descriptor tables, the list of tasks and the
  identifiers, and the well-formedness of the receive ring.
\<close>

section \<open>Steps\<close>

inductive machine_step :: "hardware \<Rightarrow> fpu_image \<Rightarrow> machine \<Rightarrow> machine \<Rightarrow> bool" for hw fi where
  exception: "isr_handler hw fi r m = Some (Inr (k, m')) \<Longrightarrow> machine_step hw fi m m'"
| interrupt: "irq_handler hw fi r m = Some (Inr (k, m')) \<Longrightarrow> machine_step hw fi m m'"
| resumed: "machine_step hw fi m (syscall_resume k m)"
| program: "machine_step hw fi m (m\<lparr>ms := (upd_mem (\<lambda>_. k) (ms m))\<lparr>regs := g\<rparr>, fpu := i\<rparr>)"

inductive_cases machine_stepE: "machine_step hw fi m m'"

text \<open>The part of the paging state that translations depend on.\<close>

definition same_paging :: "kstate \<Rightarrow> kstate \<Rightarrow> bool" where
  "same_paging s s' \<longleftrightarrow> pdirs s' = pdirs s \<and> ptables s' = ptables s \<and> paging_enabled s' = paging_enabled s
     \<and> kernel_page_dir s' = kernel_page_dir s \<and> interrupt_handlers s' = interrupt_handlers s"

definition same_sched :: "sched \<Rightarrow> sched \<Rightarrow> bool" where
  "same_sched s s' \<longleftrightarrow> same_paging (tvm s) (tvm s') \<and> idt (tcpu s') = idt (tcpu s) \<and> gdt (tcpu s') = gdt (tcpu s)
     \<and> task_list s' = task_list s \<and> next_tid s' = next_tid s"

definition kept :: "machine \<Rightarrow> machine \<Rightarrow> bool" where
  "kept m m' \<longleftrightarrow> same_sched (ms m) (ms m') \<and> (ring_ok (m_serial m) \<longrightarrow> ring_ok (m_serial m'))"

section \<open>Each part keeps it\<close>

lemma same_sched_refl [simp]: "same_sched s s"
  by (simp add: same_sched_def same_paging_def)

lemma same_sched_trans: "same_sched s s1 \<Longrightarrow> same_sched s1 s2 \<Longrightarrow> same_sched s s2"
  by (simp add: same_sched_def same_paging_def)

lemma kept_refl [simp]: "kept m m"
  by (simp add: kept_def)

lemma kept_trans: "kept m m1 \<Longrightarrow> kept m1 m2 \<Longrightarrow> kept m m2"
  using same_sched_trans by (auto simp: kept_def)

lemma same_sched_updates [simp]:
  "same_sched s (upd_task t f s')  \<longleftrightarrow> same_sched s s'" "same_sched s (upd_mem g s') \<longleftrightarrow> same_sched s s'"
  "same_sched s (s'\<lparr>regs := x\<rparr>) \<longleftrightarrow> same_sched s s'" "same_sched s (s'\<lparr>current_task := t\<rparr>) \<longleftrightarrow> same_sched s s'"
  "same_sched s (s'\<lparr>timer_ticks := n\<rparr>) \<longleftrightarrow> same_sched s s'" "same_sched s (s'\<lparr>tlists := l\<rparr>) \<longleftrightarrow> same_sched s s'"
  by (simp_all add: same_sched_def same_paging_def upd_task_def upd_mem_def)

lemma context_switch_same [simp]: "same_sched s (context_switch n s') \<longleftrightarrow> same_sched s s'"
  by (simp add: context_switch_def load_context_def save_context_def Let_def)

lemma switch_to_same: "same_sched s (switch_to n s)"
  by (simp add: switch_to_def account_time_def Let_def)
    (simp add: same_sched_def same_paging_def upd_task_def tss_set_stack_def switch_page_directory_def)

lemma pick_next_same: "pick_next n s = Some (Inr (t, s')) \<Longrightarrow> same_sched s s'"
  using pick_next_tlists by fastforce

lemma schedule_same:
  assumes "schedule s = Some (Inr s')"
  shows "same_sched s s'"
proof (cases "task_list s = NULL \<or> current_task s = NULL")
  case True
  then show ?thesis using assms by (auto simp: schedule_def split: if_splits)
next
  case False
  then obtain n s1 where "pick_next (n_next (tlists s) (self (task s (current_task s)))) s = Some (Inr (n, s1))" "s' = switch_to n s1"
    using assms schedule_pick [of s] by (auto simp: map_option_case map_sum_def split: option.splits sum.splits)
  then show ?thesis using pick_next_same switch_to_same same_sched_trans by blast
qed

lemma task_exit_same: "task_exit c s = Some (Inr s') \<Longrightarrow> same_sched s s'"
  unfolding task_exit_def using schedule_same same_sched_trans same_sched_updates(1) same_sched_refl by blast

lemma queue_insert_ring_ok: "ring_ok s \<Longrightarrow> ring_ok (queue_insert d s)"
  by (auto simp: ring_ok_def queue_insert_def Let_def)

lemma serial_irq_ring_ok: "serial_irq_handler hw s h = Some (s', h') \<Longrightarrow> ring_ok s \<Longrightarrow> ring_ok s'"
  by (auto simp: serial_irq_handler_def queue_insert_ring_ok Let_def bind_eq_Some_conv split: if_splits prod.splits)

lemma printed_serial [simp]: "m_serial (printed p m) = m_serial m"
  by (simp add: printed_def split: sum.splits)

lemma kept_printed [simp]: "kept m (printed p m') \<longleftrightarrow> kept m m'"
  by (auto simp: kept_def printed_def split: sum.splits)

lemma kept_set_eax [simp]: "kept m (set_eax f v m') \<longleftrightarrow> kept m m'"
  by (simp add: kept_def set_eax_def)

lemma switched_kept:
  assumes "switched k m (schedule (ms m1)) = Some (Inr (x, m'))" and "same_sched (ms m) (ms m1)"
  shows "kept m m'"
proof -
  obtain s where "schedule (ms m1) = Some (Inr s)" "m' = m\<lparr>ms := s\<rparr>"
    using assms(1) by (auto simp: switched_def map_option_case map_sum_def split: option.splits sum.splits)
  then show ?thesis using schedule_same same_sched_trans assms(2) by (auto simp: kept_def)
qed

lemma syscall_dispatcher_kept:
  assumes "syscall_dispatcher m = Some (Inr (x, m'))"
  shows "kept m m'"
proof -
  have y: "sys_yield f m = Some (Inr (x, m')) \<Longrightarrow> kept m m'" for f
    unfolding sys_yield_def using switched_kept same_sched_refl by blast
  have e: "sys_exit c m = Some (Inr (x, m')) \<Longrightarrow> kept m m'" for c
    using task_exit_same [of c "ms m"]
    by (auto simp: sys_exit_def kept_def map_option_case map_sum_def split: option.splits sum.splits)
  show ?thesis
    using assms y e
    by (auto simp: syscall_dispatcher_def bad_syscall_def sys_rpl3test_def Let_def split: if_splits option.splits syscall.splits)
qed

lemma run_handler_kept:
  assumes "run_handler hw fi h m = Some (Inr (x, m'))"
  shows "kept m m'"
proof (cases h)
  case Timer_irq_handler
  let ?m = "m\<lparr>ms := (ms m)\<lparr>timer_ticks := timer_ticks (ms m) + 1\<rparr>\<rparr>"
  have "kept m ?m" by (simp add: kept_def)
  moreover have "m' = ?m \<or> kept ?m m'"
    using assms Timer_irq_handler switched_kept [of None ?m ?m]
    by (auto simp: run_handler_def timer_irq_handler_def Let_def split: if_splits)
  ultimately show ?thesis using kept_trans by blast
next
  case Serial_irq_handler
  then show ?thesis
    using assms serial_irq_ring_ok by (auto simp: run_handler_def kept_def)
next
  case Fpu_exception_handler
  have "kept m (fpu_exception_handler fi m)"
    by (auto simp: fpu_exception_handler_def kept_def same_sched_def same_paging_def upd_task_def Let_def)
  then show ?thesis using assms Fpu_exception_handler by (auto simp: run_handler_def)
next
  case Syscall_dispatcher
  then show ?thesis using assms syscall_dispatcher_kept by (simp add: run_handler_def)
qed (use assms in \<open>auto simp: run_handler_def kept_def Let_def split: prod.splits option.splits\<close>)

lemma set_ifr_kept: "kept m (set_ifr r m)"
  by (simp add: kept_def set_ifr_def)

lemma machine_step_kept: "machine_step hw fi m m' \<Longrightarrow> kept m m'"
proof (erule machine_stepE)
  fix r k
  have io: "kept m ((set_ifr r m)\<lparr>m_io := h\<rparr>)" for h using set_ifr_kept [of m r] by (simp add: kept_def)
  show "isr_handler hw fi r m = Some (Inr (k, m')) \<Longrightarrow> kept m m'"
    using run_handler_kept [of hw fi _ "set_ifr r m" k m'] kept_trans [OF set_ifr_kept, of r m]
    by (auto simp: isr_handler_def Let_def set_ifr_kept split: if_splits option.splits)
  show "irq_handler hw fi r m = Some (Inr (k, m')) \<Longrightarrow> kept m m'"
    using run_handler_kept [of hw fi _ "(set_ifr r m)\<lparr>m_io := _\<rparr>" k m'] kept_trans [OF io] io
    by (auto simp: irq_handler_def Let_def split: if_splits option.splits)
next
  fix k assume "m' = syscall_resume k m"
  then show "kept m m'" by (auto simp: syscall_resume_def split: option.splits)
next
  fix k g i assume "m' = m\<lparr>ms := (upd_mem (\<lambda>_. k) (ms m))\<lparr>regs := g\<rparr>, fpu := i\<rparr>"
  then show "kept m m'" by (simp add: kept_def)
qed

interpretation machine_steps: step_invariant "machine_step hw fi" "kept m0" for hw fi m0
  by unfold_locales (metis kept_trans machine_step_kept)

section \<open>Property\<close>



end
