(* ===== verification/Mount.thy ===== *)
theory Mount
  imports Fs_ops
begin

text \<open>
  Mounting: what \<open>vfs_init\<close>, \<open>devfs_init\<close> and \<open>tarfs_init\<close> leave in the registry of the root when they run one
  after the other, as \<open>kernel_main\<close> calls them. \<open>root_state\<close> names the cells of the root's list, so that insertions
  into the lists of the other file systems can be framed away.
\<close>

section \<open>The root's list beside the others\<close>

definition root_state :: "fsys \<Rightarrow> ptr list \<Rightarrow> (string \<times> ptr) list \<Rightarrow> bool" where
  "root_state s cs es \<longleftrightarrow> rootfs_lock s = 0 \<and> dlist (flists s) (root_nodes s) cs \<and> es = entries s cs
     \<and> NULL \<notin> snd ` set es \<and> root_files s = of_nat (length es)"

lemma root_state_reg: "root_state s cs es \<Longrightarrow> root_reg s es"
  by (auto simp: root_state_def root_reg_def reg_list_def)

text \<open>The fields that neither a registry nor a device touches.\<close>

definition same_world :: "fsys \<Rightarrow> fsys \<Rightarrow> bool" where
  "same_world s s' \<longleftrightarrow> fmem s' = fmem s \<and> fclock s' = fclock s \<and> fserial s' = fserial s \<and> fio s' = fio s
     \<and> headers s' = headers s \<and> tarfs_files s' = tarfs_files s \<and> fs_root s' = fs_root s"

lemma same_world_refl [simp]: "same_world s s"
  by (simp add: same_world_def)

lemma same_world_trans: "same_world s s1 \<Longrightarrow> same_world s1 s2 \<Longrightarrow> same_world s s2"
  by (simp add: same_world_def)

definition same_lists :: "fsys \<Rightarrow> fsys \<Rightarrow> bool" where
  "same_lists s s' \<longleftrightarrow> same_world s s' \<and> root_nodes s' = root_nodes s \<and> devlist s' = devlist s"

lemma same_lists_trans: "same_lists s s1 \<Longrightarrow> same_lists s1 s2 \<Longrightarrow> same_lists s s2"
  using same_world_trans by (auto simp: same_lists_def)

lemma root_state_node:
  assumes "root_state s cs es" and "nd \<notin> snd ` set es" and "fnodes s' = (fnodes s)(nd := x)" and "flists s' = flists s"
    and "root_nodes s' = root_nodes s" and "rootfs_lock s' = rootfs_lock s" and "root_files s' = root_files s"
  shows "root_state s' cs es"
  using assms entries_node_update [OF _ assms(3,4), of cs] by (auto simp: root_state_def)

lemma root_state_lists:
  assumes "root_state s cs es" and "dlist (flists s') (root_nodes s) cs" and "\<forall>c \<in> set cs. n_value (flists s') c = n_value (flists s) c"
    and "fnodes s' = fnodes s" and "root_nodes s' = root_nodes s" and "rootfs_lock s' = rootfs_lock s" and "root_files s' = root_files s"
  shows "root_state s' cs es"
proof -
  have "entries s' cs = entries s cs" using assms(3,4) by (simp add: entries_def)
  then show ?thesis using assms by (auto simp: root_state_def)
qed

lemma insert_value: "n_value (list_insert_front t l v s) = (n_value s)(t := v)"
  by (simp add: list_insert_front_def calloc_node_def Let_def)

lemma root_state_insert:
  assumes "root_state s cs es" and "dlist (flists s) l ds" and "l \<noteq> root_nodes s" and "set cs \<inter> set ds = {}" and "c \<notin> set cs"
    and "flists s' = list_insert_front c l v (flists s)"
    and "fnodes s' = fnodes s" and "root_nodes s' = root_nodes s" and "rootfs_lock s' = rootfs_lock s" and "root_files s' = root_files s"
  shows "root_state s' cs es"
proof (rule root_state_lists [OF assms(1)])
  have "dlist (flists s) (root_nodes s) cs" using assms(1) by (simp add: root_state_def)
  then show "dlist (flists s') (root_nodes s) cs"
    unfolding assms(6) using list_insert_front_frame [OF assms(2)] assms(3-5) by blast
  show "\<forall>c \<in> set cs. n_value (flists s') c = n_value (flists s) c" using assms(5,6) by (auto simp: insert_value)
qed (use assms in simp_all)

lemma list_create_frame: "dlist s k ns \<Longrightarrow> k \<noteq> l \<Longrightarrow> dlist (list_create l s) k ns"
  by (rule dlist_frame [of s]) (simp_all add: list_create_def)

lemma root_state_create:
  assumes "root_state s cs es" and "l \<noteq> root_nodes s" and "flists s' = list_create l (flists s)"
    and "fnodes s' = fnodes s" and "root_nodes s' = root_nodes s" and "rootfs_lock s' = rootfs_lock s" and "root_files s' = root_files s"
  shows "root_state s' cs es"
proof (rule root_state_lists [OF assms(1)])
  have "dlist (flists s) (root_nodes s) cs" using assms(1) by (simp add: root_state_def)
  then show "dlist (flists s') (root_nodes s) cs" using list_create_frame assms(2,3) by metis
  show "\<forall>c \<in> set cs. n_value (flists s') c = n_value (flists s) c" by (simp add: assms(3) list_create_def)
qed (use assms in simp_all)

text \<open>Registering a new name in the root.\<close>

lemma root_register:
  assumes "root_state s cs es" and "nd \<noteq> NULL" and "fs_name (fnodes s nd) \<notin> fst ` set es"
    and "c \<noteq> NULL" and "c \<notin> set cs" and "length cs + 1 < 2 ^ 32"
  shows "\<exists>s'. fs_register c nd s = Some s' \<and> root_state s' (c # cs) ((fs_name (fnodes s nd), nd) # es) \<and> same_world s s'
    \<and> fnodes s' = fnodes s \<and> root_nodes s' = root_nodes s \<and> devfs_lock s' = devfs_lock s
    \<and> flists s' = list_insert_front c (root_nodes s) nd (flists s)"
proof -
  have rl: "reg_list (root_nodes s) s es" "rootfs_lock s = 0" and d: "dlist (flists s) (root_nodes s) cs" "es = entries s cs"
      "NULL \<notin> snd ` set es" "root_files s = of_nat (length es)"
    using assms(1) root_state_reg [OF assms(1)] by (auto simp: root_reg_def root_state_def)
  have "map_of es (fs_name (fnodes s nd)) = None" using assms(3) by (simp add: map_of_eq_None_iff)
  then have f: "find_name (root_nodes s) (fs_name (fnodes s nd)) s = Some NULL" using find_name_map_of [OF rl(1)] by simp
  let ?s = "s\<lparr>flists := list_insert_front c (root_nodes s) nd (flists s), root_files := root_files s + 1, rootfs_lock := 0\<rparr>"
  have "fs_register c nd s = Some ?s" using f by (simp add: fs_register_def rl(2) spin_lock_free spin_unlock_def)
  moreover have "entries ?s (c # cs) = (fs_name (fnodes s nd), nd) # es"
    using assms(5) unfolding d(2) by (auto simp: entries_def insert_value)
  then have "root_state ?s (c # cs) ((fs_name (fnodes s nd), nd) # es)"
    using list_insert_front_ok(1) [OF d(1) assms(4-6)] d(3,4) assms(2) by (simp add: root_state_def)
  ultimately show ?thesis by (intro exI [of _ ?s]) (simp add: same_world_def)
qed

section \<open>Devices\<close>

text \<open>Registering a device leaves the root's list alone.\<close>

lemma devfs_register_root:
  assumes "root_state s rs res" and "dlist (flists s) (devlist s) cs" and "devlist s \<noteq> root_nodes s" and "set rs \<inter> set cs = {}"
    and "c \<notin> set rs" and "devfs_register c nd s = Some s'"
  shows "root_state s' rs res \<and> same_world s s' \<and> root_nodes s' = root_nodes s \<and> devlist s' = devlist s"
proof -
  consider lk where "s' = s\<lparr>devfs_lock := spin_unlock lk\<rparr>"
    | lk where "s' = s\<lparr>flists := list_insert_front c (devlist s) nd (flists s), devfs_lock := spin_unlock lk\<rparr>"
    using assms(6) by (auto simp: devfs_register_def bind_eq_Some_conv split: if_splits)
  then show ?thesis
  proof cases
    case 1
    have "root_state s' rs res"
      by (rule root_state_lists [OF assms(1)]) (use assms(1) 1 in \<open>simp_all add: root_state_def\<close>)
    then show ?thesis using 1 by (simp add: same_world_def)
  next
    case 2
    have "root_state s' rs res"
      by (rule root_state_insert [OF assms(1,2,3,4,5)]) (use 2 in simp_all)
    then show ?thesis using 2 by (simp add: same_world_def)
  qed
qed

text \<open>One device more: the state of both lists before and after.\<close>

definition mounted :: "fsys \<Rightarrow> ptr list \<Rightarrow> (string \<times> ptr) list \<Rightarrow> ptr list \<Rightarrow> (string \<times> ptr) list \<Rightarrow> bool" where
  "mounted s rs res cs es \<longleftrightarrow> root_state s rs res \<and> dev_state s cs es \<and> devlist s \<noteq> root_nodes s \<and> set rs \<inter> set cs = {}"

lemma mounted_device:
  assumes "mounted s rs res cs es" and "fnodes s1 = (fnodes s)(nd := x)" and "flists s1 = flists s" and "devlist s1 = devlist s"
    and "devfs_lock s1 = devfs_lock s" and "root_nodes s1 = root_nodes s" and "rootfs_lock s1 = rootfs_lock s" and "root_files s1 = root_files s"
    and "same_world s s1" and "nd \<notin> insert NULL (snd ` set es \<union> snd ` set res)" and "fs_name x \<notin> fst ` set es"
    and "c \<notin> insert NULL (set cs \<union> set rs)" and "length cs + 1 < 2 ^ 32"
  shows "\<exists>s'. devfs_register c nd s1 = Some s' \<and> mounted s' rs res (c # cs) ((fs_name x, nd) # es) \<and> same_lists s s'
    \<and> fnodes s' = (fnodes s)(nd := x)"
proof -
  have m: "root_state s rs res" "dev_state s cs es" "devlist s \<noteq> root_nodes s" "set rs \<inter> set cs = {}"
    using assms(1) by (auto simp: mounted_def)
  obtain s' where s': "devfs_register c nd s1 = Some s'" "dev_state s' (c # cs) ((fs_name x, nd) # es)" "fnodes s' = fnodes s1"
    using device_registered [OF m(2) assms(2-5), of c] assms(10-13) by auto
  have r1: "root_state s1 rs res" by (rule root_state_node [OF m(1) _ assms(2,3,6,7,8)]) (use assms(10) in blast)
  have "dlist (flists s1) (devlist s1) cs" using m(2) assms(3,4) by (simp add: dev_state_def)
  from devfs_register_root [OF r1 this _ m(4) _ s'(1)] assms(4,6,12) m(3)
  have "root_state s' rs res" "same_world s1 s'" "root_nodes s' = root_nodes s1" "devlist s' = devlist s1" by simp_all
  then show ?thesis
    using s' m assms(2,4,6,9,12) same_world_trans by (intro exI [of _ s']) (auto simp: mounted_def same_lists_def)
qed

lemma entries_cong:
  "\<forall>p \<in> snd ` set (entries s cs). fnodes s' p = fnodes s p \<Longrightarrow> \<forall>c \<in> set cs. n_value (flists s') c = n_value (flists s) c \<Longrightarrow>
     entries s' cs = entries s cs"
  by (simp add: entries_def image_image)

lemma mounted_frame:
  assumes "mounted s rs res cs es" and "\<forall>p \<in> snd ` set res \<union> snd ` set es. fnodes s' p = fnodes s p"
    and "dlist (flists s') (root_nodes s) rs" and "dlist (flists s') (devlist s) cs"
    and "\<forall>c \<in> set rs \<union> set cs. n_value (flists s') c = n_value (flists s) c"
    and "root_nodes s' = root_nodes s" and "devlist s' = devlist s" and "rootfs_lock s' = rootfs_lock s"
    and "devfs_lock s' = devfs_lock s" and "root_files s' = root_files s"
  shows "mounted s' rs res cs es"
proof -
  have m: "res = entries s rs" "es = entries s cs" using assms(1) by (auto simp: mounted_def root_state_def dev_state_def)
  have "entries s' rs = res" "entries s' cs = es"
    using assms(2,5) entries_cong [of s rs s'] entries_cong [of s cs s'] m by simp_all
  then show ?thesis using assms by (auto simp: mounted_def root_state_def dev_state_def)
qed

definition device_routines :: "fsys \<Rightarrow> ptr \<Rightarrow> fs_op option \<times> fs_op option" where
  "device_routines s p = (fs_read (fnodes s p), fs_write (fnodes s p))"

lemma make_device_keeps [simp]:
  "flists (make_device nd n r w s) = flists s" "devlist (make_device nd n r w s) = devlist s"
  "devfs_lock (make_device nd n r w s) = devfs_lock s" "root_nodes (make_device nd n r w s) = root_nodes s"
  "rootfs_lock (make_device nd n r w s) = rootfs_lock s" "root_files (make_device nd n r w s) = root_files s"
  "same_world s (make_device nd n r w s)" "fclock (make_device nd n r w s) = fclock s"
  by (simp_all add: make_device_def same_world_def)

text \<open>A node that a device was given, whatever it held before.\<close>

definition is_device :: "string \<Rightarrow> fs_op \<Rightarrow> fs_op \<Rightarrow> fs_node_t \<Rightarrow> bool" where
  "is_device n r w x \<longleftrightarrow> fs_name x = n \<and> fs_read x = Some r \<and> fs_write x = Some w"

lemma make_device_node: "\<exists>x. fnodes (make_device nd n r w s) = (fnodes s)(nd := x) \<and> is_device n r w x"
  by (auto simp: make_device_def is_device_def)

lemma device_created:
  assumes "mounted s rs res cs es" and "nd \<notin> insert NULL (snd ` set es \<union> snd ` set res)" and "n \<notin> fst ` set es"
    and "c \<notin> insert NULL (set cs \<union> set rs)" and "length cs + 1 < 2 ^ 32"
    and "fnodes s1 = (fnodes s)(nd := x)" and "is_device n r w x" and "flists s1 = flists s" and "devlist s1 = devlist s"
    and "devfs_lock s1 = devfs_lock s" and "root_nodes s1 = root_nodes s" and "rootfs_lock s1 = rootfs_lock s" and "root_files s1 = root_files s"
    and "same_world s s1"
  shows "\<exists>s'. devfs_register c nd s1 = Some s' \<and> mounted s' rs res (c # cs) ((n, nd) # es) \<and> same_lists s s'
    \<and> device_routines s' nd = (Some r, Some w) \<and> (\<forall>p. p \<noteq> nd \<longrightarrow> fnodes s' p = fnodes s p)"
proof -
  have "fs_name x \<notin> fst ` set es" using assms(3,7) by (simp add: is_device_def)
  from mounted_device [OF assms(1,6,8-14,2) this assms(4,5)] show ?thesis
    using assms(7) by (auto simp: is_device_def device_routines_def)
qed

lemma simple_device_created:
  assumes "mounted s rs res cs es" and "nd \<notin> insert NULL (snd ` set es \<union> snd ` set res)" and "n \<notin> fst ` set es"
    and "c \<notin> insert NULL (set cs \<union> set rs)" and "length cs + 1 < 2 ^ 32"
  shows "\<exists>s'. devfs_register c nd (make_device nd n r w s) = Some s' \<and> mounted s' rs res (c # cs) ((n, nd) # es) \<and> same_lists s s'
    \<and> device_routines s' nd = (Some r, Some w) \<and> (\<forall>p. p \<noteq> nd \<longrightarrow> fnodes s' p = fnodes s p)"
proof -
  obtain x where "fnodes (make_device nd n r w s) = (fnodes s)(nd := x)" "is_device n r w x" using make_device_node by blast
  from device_created [OF assms this] show ?thesis by simp
qed

lemma random_device_created:
  assumes "mounted s rs res cs es" and "nd \<notin> insert NULL (snd ` set es \<union> snd ` set res)" and "''rand'' \<notin> fst ` set es"
    and "c \<notin> insert NULL (set cs \<union> set rs)" and "length cs + 1 < 2 ^ 32"
  shows "\<exists>s'. random_device_create nd c s = Some s' \<and> mounted s' rs res (c # cs) ((''rand'', nd) # es) \<and> same_lists s s'
    \<and> device_routines s' nd = (Some Read_random, Some Write_random) \<and> (\<forall>p. p \<noteq> nd \<longrightarrow> fnodes s' p = fnodes s p)"
proof -
  let ?d = "make_device nd ''rand'' Read_random Write_random s"
  let ?s = "init_rand (get_seconds (fclock s)) (?d\<lparr>fnodes := (fnodes ?d)(nd := (fnodes ?d nd)\<lparr>fs_length := 1024\<rparr>)\<rparr>)"
  obtain x where x: "fnodes ?d = (fnodes s)(nd := x)" "is_device ''rand'' Read_random Write_random x" using make_device_node by blast
  have "fnodes ?s = (fnodes s)(nd := x\<lparr>fs_length := 1024\<rparr>)" "is_device ''rand'' Read_random Write_random (x\<lparr>fs_length := 1024\<rparr>)"
    using x by (simp_all add: is_device_def)
  moreover have "root_nodes ?s = root_nodes s" "rootfs_lock ?s = rootfs_lock s" "root_files ?s = root_files s" "same_world s ?s"
    by (simp_all add: init_rand_def same_world_def make_device_def del: upt_rec_numeral)
  moreover have "random_device_create nd c s = devfs_register c nd ?s" by (simp add: random_device_create_def Let_def)
  ultimately show ?thesis using device_created [OF assms, where ?s1.0 = ?s] by simp
qed

definition four_devices :: "(ptr \<times> ptr) \<times> (ptr \<times> ptr) \<times> (ptr \<times> ptr) \<times> (ptr \<times> ptr) \<Rightarrow> (string \<times> ptr) list" where
  "four_devices = (\<lambda>((cn, _), (nn, _), (pn, _), (rn, _)). [(''rand'', rn), (''port'', pn), (''null'', nn), (''com0'', cn)])"

definition device_cells :: "(ptr \<times> ptr) \<times> (ptr \<times> ptr) \<times> (ptr \<times> ptr) \<times> (ptr \<times> ptr) \<Rightarrow> ptr list" where
  "device_cells = (\<lambda>((_, cc), (_, nc), (_, pc), (_, rc)). [rc, pc, nc, cc])"

definition device_ops :: "(string \<times> fs_op option \<times> fs_op option) list" where
  "device_ops = [(''rand'', Some Read_random, Some Write_random), (''port'', Some Read_port, Some Write_port),
     (''null'', Some Read_null, Some Write_null), (''com0'', Some Read_com, Some Write_com)]"

lemma devices_mounted:
  assumes "mounted s rs res [] []" and "distinct (NULL # map snd (four_devices devs))" and "distinct (NULL # device_cells devs)"
    and "snd ` set (four_devices devs) \<inter> snd ` set res = {}" and "set (device_cells devs) \<inter> set rs = {}"
  shows "\<exists>s'. Option.bind (com_device_create (fst (fst devs)) (snd (fst devs)) s) (\<lambda>s.
        Option.bind (null_device_create (fst (fst (snd devs))) (snd (fst (snd devs))) s) (\<lambda>s.
        Option.bind (port_device_create (fst (fst (snd (snd devs)))) (snd (fst (snd (snd devs)))) s)
          (random_device_create (fst (snd (snd (snd devs)))) (snd (snd (snd (snd devs))))))) = Some s'
    \<and> mounted s' rs res (device_cells devs) (four_devices devs) \<and> same_lists s s'
    \<and> map (\<lambda>(n, p). (n, device_routines s' p)) (four_devices devs) = device_ops
    \<and> (\<forall>p. p \<notin> snd ` set (four_devices devs) \<longrightarrow> fnodes s' p = fnodes s p)"
proof -
  obtain cn cc nn nc pn pc rn rc where devs: "devs = ((cn, cc), (nn, nc), (pn, pc), (rn, rc))" by (metis prod.collapse)
  note a = assms(2-5) [unfolded devs four_devices_def device_cells_def, simplified]
  obtain s1 where s1: "com_device_create cn cc s = Some s1" "mounted s1 rs res [cc] [(''com0'', cn)]" "same_lists s s1"
      "device_routines s1 cn = (Some Read_com, Some Write_com)" "\<forall>p. p \<noteq> cn \<longrightarrow> fnodes s1 p = fnodes s p"
    using simple_device_created [OF assms(1), of cn "''com0''" cc Read_com Write_com] a by (auto simp: com_device_create_def)
  obtain s2 where s2: "null_device_create nn nc s1 = Some s2" "mounted s2 rs res [nc, cc] [(''null'', nn), (''com0'', cn)]"
      "same_lists s1 s2" "device_routines s2 nn = (Some Read_null, Some Write_null)" "\<forall>p. p \<noteq> nn \<longrightarrow> fnodes s2 p = fnodes s1 p"
    using simple_device_created [OF s1(2), of nn "''null''" nc Read_null Write_null] a by (auto simp: null_device_create_def)
  obtain s3 where s3: "port_device_create pn pc s2 = Some s3"
      "mounted s3 rs res [pc, nc, cc] [(''port'', pn), (''null'', nn), (''com0'', cn)]" "same_lists s2 s3"
      "device_routines s3 pn = (Some Read_port, Some Write_port)" "\<forall>p. p \<noteq> pn \<longrightarrow> fnodes s3 p = fnodes s2 p"
    using simple_device_created [OF s2(2), of pn "''port''" pc Read_port Write_port] a by (auto simp: port_device_create_def)
  obtain s4 where s4: "random_device_create rn rc s3 = Some s4"
      "mounted s4 rs res [rc, pc, nc, cc] [(''rand'', rn), (''port'', pn), (''null'', nn), (''com0'', cn)]" "same_lists s3 s4"
      "device_routines s4 rn = (Some Read_random, Some Write_random)" "\<forall>p. p \<noteq> rn \<longrightarrow> fnodes s4 p = fnodes s3 p"
    using random_device_created [OF s3(2), of rn rc] a by auto
  have w: "same_lists s s4" using s1(3) s2(3) s3(3) s4(3) same_lists_trans by blast
  have r: "device_routines s4 cn = (Some Read_com, Some Write_com)" "device_routines s4 nn = (Some Read_null, Some Write_null)"
      "device_routines s4 pn = (Some Read_port, Some Write_port)"
    unfolding device_routines_def
    using a s1(4) [unfolded device_routines_def] s2(4) [unfolded device_routines_def] s3(4) [unfolded device_routines_def] s2(5) s3(5) s4(5)
    by metis+
  show ?thesis
    using s1(1,5) s2(1,5) s3(1,5) s4 w r
    by (intro exI [of _ s4]) (simp add: devs four_devices_def device_cells_def device_ops_def)
qed

text \<open>The directory node that \<open>devfs_init\<close> registers in the root.\<close>

lemma devfs_init_mounted:
  assumes "root_state s rs res" and "devfs_lock s = 0" and "''dev'' \<notin> fst ` set res" and "lst \<noteq> root_nodes s" and "length rs + 1 < 2 ^ 32"
    and "distinct (NULL # nd # map snd (four_devices devs))" and "distinct (NULL # cell # device_cells devs)"
    and "set (nd # map snd (four_devices devs)) \<inter> snd ` set res = {}" and "set (cell # device_cells devs) \<inter> set rs = {}"
  shows "\<exists>s'. devfs_init nd cell lst devs s = Some s' \<and> same_world s s'
    \<and> mounted s' (cell # rs) ((''dev'', nd) # res) (device_cells devs) (four_devices devs)
    \<and> map (\<lambda>(n, p). (n, device_routines s' p)) (four_devices devs) = device_ops
    \<and> root_nodes s' = root_nodes s \<and> devlist s' = lst
    \<and> (\<forall>p. p \<notin> insert nd (snd ` set (four_devices devs)) \<longrightarrow> fnodes s' p = fnodes s p)
    \<and> fs_finddir (fnodes s' nd) = Some Devfs_finddir \<and> fs_flags (fnodes s' nd) = 0x02 OR 0x08"
proof -
  define dn where "dn = (fnodes s nd)\<lparr>fs_name := ''dev'', fs_flags := 0x02 OR 0x08, fs_inode := 0,
                fs_atime := get_seconds (fclock s), fs_ctime := get_seconds (fclock s), fs_open := None, fs_close := None,
                fs_read := None, fs_write := None, fs_readdir := Some Devfs_readdir, fs_finddir := Some Devfs_finddir,
                fs_ioctl := None\<rparr>"
  let ?s = "s\<lparr>fnodes := (fnodes s)(nd := dn)\<rparr>"
  have "root_state ?s rs res" by (rule root_state_node [OF assms(1), of nd _ dn]) (use assms(8) in simp_all)
  then obtain s1 where s1: "fs_register cell nd ?s = Some s1" "root_state s1 (cell # rs) ((''dev'', nd) # res)" "same_world ?s s1"
      "fnodes s1 = fnodes ?s" "root_nodes s1 = root_nodes s" "devfs_lock s1 = devfs_lock s"
    using root_register [of ?s rs res nd cell] assms by (auto simp: dn_def)
  let ?s2 = "s1\<lparr>devlist := lst, flists := list_create lst (flists s1)\<rparr>"
  have "root_state ?s2 (cell # rs) ((''dev'', nd) # res)"
    by (rule root_state_create [OF s1(2), of lst]) (use assms(4) s1(5) in simp_all)
  moreover have "dev_state ?s2 [] []" using s1(6) assms(2) list_create_ok by (simp add: dev_state_def entries_def)
  ultimately have "mounted ?s2 (cell # rs) ((''dev'', nd) # res) [] []" using assms(4) s1(5) by (simp add: mounted_def)
  note dm = devices_mounted [OF this, of devs]
  have "devfs_init nd cell lst devs s = Option.bind (com_device_create (fst (fst devs)) (snd (fst devs)) ?s2) (\<lambda>s.
        Option.bind (null_device_create (fst (fst (snd devs))) (snd (fst (snd devs))) s) (\<lambda>s.
        Option.bind (port_device_create (fst (fst (snd (snd devs)))) (snd (fst (snd (snd devs)))) s)
          (random_device_create (fst (snd (snd (snd devs)))) (snd (snd (snd (snd devs)))))))"
    using s1(1) by (simp add: devfs_init_def dn_def case_prod_beta Let_def)
  then obtain s' where s': "devfs_init nd cell lst devs s = Some s'" "same_lists ?s2 s'"
      "mounted s' (cell # rs) ((''dev'', nd) # res) (device_cells devs) (four_devices devs)"
      "map (\<lambda>(n, p). (n, device_routines s' p)) (four_devices devs) = device_ops"
      "\<forall>p. p \<notin> snd ` set (four_devices devs) \<longrightarrow> fnodes s' p = fnodes s1 p"
    using dm assms(6-9) by auto
  have "same_world s s'" using s'(2) s1(3) by (simp add: same_lists_def same_world_def)
  moreover have "fnodes s' nd = dn" using s'(5) s1(4) assms(6) by auto
  ultimately show ?thesis
    using s' s1(4,5) by (intro exI [of _ s']) (auto simp: same_lists_def dn_def)
qed

section \<open>The ramdisk\<close>

text \<open>The list of the ramdisk's directory, apart from the two others.\<close>

definition tar_list :: "fsys \<Rightarrow> ptr \<Rightarrow> ptr \<Rightarrow> ptr list \<Rightarrow> (string \<times> ptr) list \<Rightarrow> bool" where
  "tar_list s tn l ts tes \<longleftrightarrow> tarfs_root s = tn \<and> fs_inode (fnodes s tn) = l \<and> dlist (flists s) l ts \<and> tes = entries s ts
     \<and> NULL \<notin> snd ` set tes \<and> l \<noteq> root_nodes s \<and> l \<noteq> devlist s"

definition tar_file :: "fsys \<Rightarrow> u32 \<Rightarrow> string \<Rightarrow> fs_node_t" where
  "tar_file s i nm = zero_node\<lparr>fs_name := nm, fs_flags := 0x01, fs_inode := i,
     fs_length := tar_getsize (fmem s) (tar_size_field (headers s i)), fs_atime := get_seconds (fclock s),
     fs_ctime := get_seconds (fclock s), fs_read := Some Tarfs_read\<rparr>"

definition tar_regular :: "fsys \<Rightarrow> u32 \<Rightarrow> string \<Rightarrow> bool" where
  "tar_regular s i nm \<longleftrightarrow> fmem s (tar_type_field (headers s i)) = 48 \<and> str_at (fmem s) 128 (headers s i) = Some nm"

lemma tar_file_world: "same_world s s' \<Longrightarrow> tar_file s' i nm = tar_file s i nm \<and> tar_regular s' i nm = tar_regular s i nm"
  by (simp add: same_world_def tar_file_def tar_regular_def)

lemma tarfs_entry_regular:
  assumes "tar_regular s i nm" and "tar_list s tn l ts tes" and "nd \<noteq> tn"
  shows "tarfs_entry nd c i node s = Inr (nd, s\<lparr>fnodes := (fnodes s)(nd := tar_file s i nm), flists := list_insert_front c l nd (flists s)\<rparr>)"
  using assms by (simp add: tarfs_entry_def tar_regular_def tar_list_def tar_file_def zero_node_def Let_def)

lemma tarfs_entry_mounted:
  assumes "mounted s rs res cs es" and "tar_list s tn l ts tes" and "set ts \<inter> (set rs \<union> set cs) = {}" and "tar_regular s i nm"
    and "nd \<notin> {NULL, tn} \<union> snd ` set res \<union> snd ` set es \<union> snd ` set tes"
    and "c \<notin> insert NULL (set ts \<union> set rs \<union> set cs)" and "length ts + 1 < 2 ^ 32"
  shows "\<exists>s'. tarfs_entry nd c i node s = Inr (nd, s') \<and> mounted s' rs res cs es \<and> tar_list s' tn l (c # ts) ((nm, nd) # tes)
    \<and> same_lists s s' \<and> fnodes s' = (fnodes s)(nd := tar_file s i nm)"
proof -
  let ?s = "s\<lparr>fnodes := (fnodes s)(nd := tar_file s i nm), flists := list_insert_front c l nd (flists s)\<rparr>"
  have t: "dlist (flists s) l ts" "tes = entries s ts" "NULL \<notin> snd ` set tes" "l \<noteq> root_nodes s" "l \<noteq> devlist s"
    using assms(2) by (auto simp: tar_list_def)
  have d: "dlist (flists s) (root_nodes s) rs" "dlist (flists s) (devlist s) cs"
    using assms(1) by (auto simp: mounted_def root_state_def dev_state_def)
  have "mounted ?s rs res cs es"
  proof (rule mounted_frame [OF assms(1)])
    show "dlist (flists ?s) (root_nodes s) rs"
      using list_insert_front_frame [OF t(1) d(1)] t(4) assms(3,6) by auto
    show "dlist (flists ?s) (devlist s) cs"
      using list_insert_front_frame [OF t(1) d(2)] t(5) assms(3,6) by auto
  qed (use assms(5,6) in \<open>auto simp: insert_value\<close>)
  moreover have "entries ?s ts = tes"
    unfolding t(2) by (rule entries_cong) (use assms(5,6) t(2) in \<open>auto simp: insert_value\<close>)
  then have "entries ?s (c # ts) = (nm, nd) # tes" by (simp add: entries_def insert_value tar_file_def)
  then have "tar_list ?s tn l (c # ts) ((nm, nd) # tes)"
    using list_insert_front_ok(1) [OF t(1), of c nd] assms(2,5-7) by (auto simp: tar_list_def)
  ultimately show ?thesis
    using tarfs_entry_regular [OF assms(4,2), of nd c node] assms(5)
    by (intro exI [of _ ?s]) (simp add: same_lists_def same_world_def)
qed

text \<open>The loop over entries \<open>i\<close> to \<open>i + n - 1\<close>, all of them regular files with the names \<open>nm\<close>.\<close>

definition fresh_entries :: "(u32 \<Rightarrow> ptr \<times> ptr) \<Rightarrow> nat list \<Rightarrow> ptr set \<Rightarrow> ptr set \<Rightarrow> bool" where
  "fresh_entries addrs ks ns cs \<longleftrightarrow> distinct (map (\<lambda>k. fst (addrs (of_nat k))) ks) \<and> distinct (map (\<lambda>k. snd (addrs (of_nat k))) ks)
     \<and> (\<forall>k \<in> set ks. fst (addrs (of_nat k)) \<notin> insert NULL ns \<and> snd (addrs (of_nat k)) \<notin> insert NULL cs)"

lemma fresh_entries_Cons:
  assumes "fresh_entries addrs (i # ks) ns cs"
    and "ns' \<subseteq> insert (fst (addrs (of_nat i))) ns" and "cs' \<subseteq> insert (snd (addrs (of_nat i))) cs"
  shows "fresh_entries addrs ks ns' cs'"
proof -
  have "fst (addrs (of_nat i)) \<notin> (\<lambda>k. fst (addrs (of_nat k))) ` set ks" "snd (addrs (of_nat i)) \<notin> (\<lambda>k. snd (addrs (of_nat k))) ` set ks"
    using assms(1) by (simp_all add: fresh_entries_def)
  then have ne: "fst (addrs (of_nat k)) \<noteq> fst (addrs (of_nat i))" "snd (addrs (of_nat k)) \<noteq> snd (addrs (of_nat i))" if "k \<in> set ks" for k
    using that by (metis image_eqI)+
  have old: "fst (addrs (of_nat k)) \<notin> insert NULL ns" "snd (addrs (of_nat k)) \<notin> insert NULL cs" if "k \<in> set ks" for k
    using assms(1) that by (simp_all add: fresh_entries_def)
  have "fst (addrs (of_nat k)) \<notin> insert NULL ns'" "snd (addrs (of_nat k)) \<notin> insert NULL cs'" if "k \<in> set ks" for k
    using ne [OF that] old [OF that] assms(2,3) by blast+
  then show ?thesis using assms(1) by (simp add: fresh_entries_def)
qed

definition entries_loaded :: "(u32 \<Rightarrow> ptr \<times> ptr) \<Rightarrow> (nat \<Rightarrow> string) \<Rightarrow> nat list \<Rightarrow> fsys \<Rightarrow> fsys \<Rightarrow> bool" where
  "entries_loaded addrs nm ks s s' \<longleftrightarrow> same_lists s s'
     \<and> (\<forall>k \<in> set ks. fnodes s' (fst (addrs (of_nat k))) = tar_file s (of_nat k) (nm k))
     \<and> (\<forall>p. p \<notin> (\<lambda>k. fst (addrs (of_nat k))) ` set ks \<longrightarrow> fnodes s' p = fnodes s p)"

lemma entries_loaded_Cons:
  assumes "same_lists s s1" and "fnodes s1 = (fnodes s)(fst (addrs (of_nat i)) := tar_file s (of_nat i) (nm i))"
    and "entries_loaded addrs nm ks s1 s'" and "fst (addrs (of_nat i)) \<notin> (\<lambda>k. fst (addrs (of_nat k))) ` set ks"
  shows "entries_loaded addrs nm (i # ks) s s'"
proof -
  have "tar_file s1 k m = tar_file s k m" for k m using tar_file_world assms(1) by (auto simp: same_lists_def)
  then show ?thesis using assms same_lists_trans by (auto simp: entries_loaded_def)
qed

lemma tarfs_entries_mounted:
  assumes "mounted s rs res cs es" and "tar_list s tn l ts tes" and "set ts \<inter> (set rs \<union> set cs) = {}"
    and "\<forall>k \<in> set [i..<i + n]. tar_regular s (of_nat k) (nm k)"
    and "fresh_entries addrs [i..<i + n] ({tn} \<union> snd ` set res \<union> snd ` set es \<union> snd ` set tes) (set ts \<union> set rs \<union> set cs)"
    and "length ts + n < 2 ^ 32"
  shows "\<exists>s' ts'. tarfs_entries addrs n (of_nat i) node s = Inr s' \<and> mounted s' rs res cs es
    \<and> tar_list s' tn l ts' (rev (map (\<lambda>k. (nm k, fst (addrs (of_nat k)))) [i..<i + n]) @ tes)
    \<and> set ts' = set ts \<union> (\<lambda>k. snd (addrs (of_nat k))) ` set [i..<i + n] \<and> entries_loaded addrs nm [i..<i + n] s s'"
  using assms
proof (induction n arbitrary: i s node ts tes)
  case 0
  then show ?case by (intro exI [of _ s] exI [of _ ts]) (simp add: same_lists_def entries_loaded_def)
next
  case (Suc n)
  let ?nd = "fst (addrs (of_nat i))" and ?c = "snd (addrs (of_nat i))"
  have up: "[i..<i + Suc n] = i # [Suc i..<Suc i + n]" by (simp add: upt_conv_Cons)
  note fr = Suc.prems(5) [unfolded up fresh_entries_def]
  obtain s1 where s1: "tarfs_entry ?nd ?c (of_nat i) node s = Inr (?nd, s1)" "mounted s1 rs res cs es"
      "tar_list s1 tn l (?c # ts) ((nm i, ?nd) # tes)" "same_lists s s1" "fnodes s1 = (fnodes s)(?nd := tar_file s (of_nat i) (nm i))"
    using tarfs_entry_mounted [OF Suc.prems(1-3), of "of_nat i" "nm i" ?nd ?c node] Suc.prems(4,6) fr unfolding up by auto
  have w: "tar_regular s1 k m = tar_regular s k m" for k m using tar_file_world s1(4) by (auto simp: same_lists_def)
  have c: "set (?c # ts) \<inter> (set rs \<union> set cs) = {}" using Suc.prems(3) fr by auto
  have r: "\<forall>k \<in> set [Suc i..<Suc i + n]. tar_regular s1 (of_nat k) (nm k)" using Suc.prems(4) [unfolded up] w by simp
  have f: "fresh_entries addrs [Suc i..<Suc i + n] ({tn} \<union> snd ` set res \<union> snd ` set es \<union> snd ` set ((nm i, ?nd) # tes))
      (set (?c # ts) \<union> set rs \<union> set cs)"
    by (rule fresh_entries_Cons [OF Suc.prems(5) [unfolded up]]) auto
  have len: "length (?c # ts) + n < 2 ^ 32" using Suc.prems(6) by simp
  obtain s' ts' where s': "tarfs_entries addrs n (of_nat (Suc i)) ?nd s1 = Inr s'" "mounted s' rs res cs es"
      "tar_list s' tn l ts' (rev (map (\<lambda>k. (nm k, fst (addrs (of_nat k)))) [Suc i..<Suc i + n]) @ (nm i, ?nd) # tes)"
      "set ts' = set (?c # ts) \<union> (\<lambda>k. snd (addrs (of_nat k))) ` set [Suc i..<Suc i + n]"
      "entries_loaded addrs nm [Suc i..<Suc i + n] s1 s'"
    using Suc.IH [OF s1(2,3) c r f len, of ?nd] by (elim exE conjE)
  have "entries_loaded addrs nm [i..<i + Suc n] s s'"
    unfolding up by (rule entries_loaded_Cons [OF s1(4,5) s'(5)]) (use fr in auto)
  moreover have "tarfs_entries addrs (Suc n) (of_nat i) node s = Inr s'" using s1(1) s'(1) by (simp add: add.commute [of _ 1])
  ultimately show ?case using s'(2-4) unfolding up by (intro exI [of _ s'] exI [of _ ts'] conjI) auto
qed

lemma root_register_mounted:
  assumes "mounted s rs res cs es" and "tar_list s tn l ts tes" and "set ts \<inter> set rs = {}" and "tn \<noteq> NULL"
    and "fs_name (fnodes s tn) \<notin> fst ` set res" and "tc \<notin> insert NULL (set rs \<union> set cs \<union> set ts)" and "length rs + 1 < 2 ^ 32"
  shows "\<exists>s'. fs_register tc tn s = Some s' \<and> mounted s' (tc # rs) ((fs_name (fnodes s tn), tn) # res) cs es
    \<and> tar_list s' tn l ts tes \<and> same_lists s s' \<and> fnodes s' = fnodes s"
proof -
  have m: "root_state s rs res" "dev_state s cs es" "devlist s \<noteq> root_nodes s" "set rs \<inter> set cs = {}"
    using assms(1) by (auto simp: mounted_def)
  have d: "dlist (flists s) (root_nodes s) rs" "dlist (flists s) (devlist s) cs" "dlist (flists s) l ts" "l \<noteq> root_nodes s"
    using m assms(2) by (auto simp: root_state_def dev_state_def tar_list_def)
  obtain s' where s': "fs_register tc tn s = Some s'" "root_state s' (tc # rs) ((fs_name (fnodes s tn), tn) # res)" "same_world s s'"
      "fnodes s' = fnodes s" "root_nodes s' = root_nodes s" "devfs_lock s' = devfs_lock s"
      "flists s' = list_insert_front tc (root_nodes s) tn (flists s)"
    using root_register [OF m(1) assms(4,5), of tc] assms(6,7) by auto
  have e: "devlist s' = devlist s" "tarfs_root s' = tarfs_root s"
    using s'(1) by (auto simp: fs_register_def bind_eq_Some_conv split: if_splits)
  have f: "dlist (flists s') (devlist s) cs" "dlist (flists s') l ts"
    unfolding s'(7) using list_insert_front_frame [OF d(1,2)] list_insert_front_frame [OF d(1,3)] m(3,4) d(4) assms(3,6) by blast+
  have v: "entries s' cs = entries s cs" "entries s' ts = entries s ts"
    using assms(6) by (auto intro!: entries_cong simp: s'(4,7) insert_value)
  have "dev_state s' cs es" using m(2) f(1) v(1) s'(6) e(1) by (auto simp: dev_state_def)
  then have "mounted s' (tc # rs) ((fs_name (fnodes s tn), tn) # res) cs es"
    using s'(2,5) e(1) m(3,4) assms(6) by (auto simp: mounted_def)
  moreover have "tar_list s' tn l ts tes" using assms(2) f(2) v(2) s'(4,5) e by (auto simp: tar_list_def)
  ultimately show ?thesis using s'(1,3,4,5) e(1) by (intro exI [of _ s']) (simp add: same_lists_def)
qed

text \<open>The state in which the loop over the entries starts.\<close>

definition tar_dir :: "ptr \<Rightarrow> ptr \<Rightarrow> fsys \<Rightarrow> fsys" where
  "tar_dir nd lst s = s\<lparr>tarfs_root := nd, flists := list_create lst (flists s),
     fnodes := (fnodes s)(nd := (fnodes s nd)\<lparr>fs_name := ''initrd'', fs_flags := 0x02, fs_inode := lst,
       fs_atime := get_seconds (fclock s), fs_ctime := get_seconds (fclock s), fs_open := None,
       fs_close := None, fs_read := None, fs_write := None, fs_readdir := Some Tarfs_readdir,
       fs_finddir := Some Tarfs_finddir, fs_ioctl := None\<rparr>)\<rparr>"

lemma tarfs_init_steps:
  assumes "tar_parse start en s = Some (Inr s1)" and "tarfs_entries addrs (unat (tarfs_files s1) - 1) 1 NULL (tar_dir nd lst s1) = Inr s2"
  shows "tarfs_init nd lst cell addrs start en s = map_option Inr (fs_register cell nd s2)"
  using assms by (simp add: tarfs_init_def tar_dir_def Let_def)

lemma tar_dir_mounted:
  assumes "mounted s rs res cs es" and "l \<noteq> root_nodes s" and "l \<noteq> devlist s" and "tn \<notin> snd ` set res \<union> snd ` set es"
  shows "mounted (tar_dir tn l s) rs res cs es" and "tar_list (tar_dir tn l s) tn l [] []"
proof -
  have d: "dlist (flists s) (root_nodes s) rs" "dlist (flists s) (devlist s) cs"
    using assms(1) by (auto simp: mounted_def root_state_def dev_state_def)
  show "mounted (tar_dir tn l s) rs res cs es"
    by (rule mounted_frame [OF assms(1)])
      (use assms(2-4) d in \<open>auto simp: tar_dir_def list_create_frame, auto simp: list_create_def\<close>)
  show "tar_list (tar_dir tn l s) tn l [] []"
    using assms(2,3) list_create_ok by (simp add: tar_list_def tar_dir_def entries_def)
qed

text \<open>The whole mount: the headers are found, the directory is filled and registered in the root.\<close>

lemma tarfs_init_mounted:
  assumes "mounted s rs res cs es" and "tar_archive (fmem s) a en hs" and "length hs \<le> 64"
    and "\<forall>k \<in> set [1..<length hs]. fmem s (tar_type_field (hs ! k)) = 48 \<and> str_at (fmem s) 128 (hs ! k) = Some (nm k)"
    and "fresh_entries addrs [1..<length hs] ({tn} \<union> snd ` set res \<union> snd ` set es) (insert tc (set rs \<union> set cs))"
    and "tn \<notin> insert NULL (snd ` set res \<union> snd ` set es)" and "tc \<notin> insert NULL (set rs \<union> set cs)"
    and "l \<noteq> root_nodes s" and "l \<noteq> devlist s" and "''initrd'' \<notin> fst ` set res" and "length rs + 1 < 2 ^ 32"
  shows "\<exists>s' ts'. tarfs_init tn l tc addrs a en s = Some (Inr s') \<and> mounted s' (tc # rs) ((''initrd'', tn) # res) cs es
    \<and> tar_list s' tn l ts' (rev (map (\<lambda>k. (nm k, fst (addrs (of_nat k)))) [1..<length hs]))
    \<and> (\<forall>k \<in> set [1..<length hs]. headers s' (of_nat k) = hs ! k \<and> fnodes s' (fst (addrs (of_nat k))) = tar_file s' (of_nat k) (nm k))
    \<and> (\<forall>p. p \<notin> insert tn ((\<lambda>k. fst (addrs (of_nat k))) ` set [1..<length hs]) \<longrightarrow> fnodes s' p = fnodes s p)
    \<and> fmem s' = fmem s \<and> fs_root s' = fs_root s \<and> root_nodes s' = root_nodes s \<and> devlist s' = devlist s
    \<and> fs_finddir (fnodes s' tn) = Some Tarfs_finddir \<and> fs_flags (fnodes s' tn) = 0x02"
proof -
  obtain f' where f': "tar_parse_loop (fmem s) a en 0 (headers s) = Some (Inr (of_nat (length hs), f'))"
      "\<forall>i < length hs. f' (of_nat i) = hs ! i"
    using tar_parse_loop_archive [OF assms(2), of 0 "headers s"] assms(3) by auto
  let ?s1 = "s\<lparr>tarfs_files := of_nat (length hs), headers := f'\<rparr>" and ?n = "length hs - 1"
  let ?s2 = "tar_dir tn l ?s1"
  have p: "tar_parse a en s = Some (Inr ?s1)" using f'(1) by (simp add: tar_parse_def)
  have up: "[1..<1 + ?n] = [1..<length hs]" by (cases hs) simp_all
  have m1: "mounted ?s1 rs res cs es"
    by (rule mounted_frame [OF assms(1)]) (use assms(1) in \<open>auto simp: mounted_def root_state_def dev_state_def\<close>)
  note td = tar_dir_mounted [OF m1, of l tn]
  have m2: "mounted ?s2 rs res cs es" "tar_list ?s2 tn l [] []" using td assms(6,8,9) by auto
  have w: "fmem ?s2 = fmem s" "headers ?s2 = f'" "root_nodes ?s2 = root_nodes s" "devlist ?s2 = devlist s" by (simp_all add: tar_dir_def)
  have r: "\<forall>k \<in> set [1..<1 + ?n]. tar_regular ?s2 (of_nat k) (nm k)"
    unfolding up using assms(4) f'(2) by (simp add: tar_regular_def w)
  have fr: "fresh_entries addrs [1..<1 + ?n] ({tn} \<union> snd ` set res \<union> snd ` set es \<union> snd ` set []) (set [] \<union> set rs \<union> set cs)"
    unfolding up using assms(5) by (simp add: fresh_entries_def)
  have len: "length [] + ?n < 2 ^ 32" using assms(3) by simp
  obtain s3 ts where s3: "tarfs_entries addrs ?n (of_nat 1) NULL ?s2 = Inr s3" "mounted s3 rs res cs es"
      "tar_list s3 tn l ts (rev (map (\<lambda>k. (nm k, fst (addrs (of_nat k)))) [1..<length hs]))"
      "set ts = (\<lambda>k. snd (addrs (of_nat k))) ` set [1..<length hs]" "entries_loaded addrs nm [1..<length hs] ?s2 s3"
    using tarfs_entries_mounted [OF m2 _ r fr len, of NULL] unfolding up by auto
  have "tn \<notin> (\<lambda>k. fst (addrs (of_nat k))) ` set [1..<length hs]" using assms(5) unfolding fresh_entries_def by blast
  then have tn: "fnodes s3 tn = fnodes ?s2 tn" using s3(5) unfolding entries_loaded_def by blast
  have nm: "fs_name (fnodes s3 tn) = ''initrd''" by (simp add: tn tar_dir_def)
  have ts: "set ts \<inter> set rs = {}" "tc \<notin> set ts" using s3(4) assms(5) by (auto simp: fresh_entries_def)
  obtain s4 where s4: "fs_register tc tn s3 = Some s4" "mounted s4 (tc # rs) ((''initrd'', tn) # res) cs es"
      "tar_list s4 tn l ts (rev (map (\<lambda>k. (nm k, fst (addrs (of_nat k)))) [1..<length hs]))" "same_lists s3 s4" "fnodes s4 = fnodes s3"
    using root_register_mounted [OF s3(2,3) ts(1), of tc] nm assms(6,7,10,11) ts(2) by auto
  have sl: "same_lists ?s2 s4" using s3(5) s4(4) same_lists_trans by (auto simp: entries_loaded_def)
  have tf: "tar_file s4 k m = tar_file ?s2 k m" for k m using tar_file_world sl by (auto simp: same_lists_def)
  have "tarfs_init tn l tc addrs a en s = Some (Inr s4)"
    using tarfs_init_steps [OF p, of addrs tn l s3 tc] s3(1) s4(1) assms(3) by (simp add: unat_of_nat32)
  then show ?thesis
    using s4(2,3) s4(5) s3(5) sl tf w f'(2) tn
    by (intro exI [of _ s4] exI [of _ ts]) (auto simp: entries_loaded_def same_lists_def same_world_def tar_dir_def)
qed

section \<open>The three mounts in a row\<close>

text \<open>The heap gives every object an address of its own: \<open>n\<close> is the number of members of the archive.\<close>

definition fresh_mount :: "ptr list \<Rightarrow> ptr list \<Rightarrow> ptr list \<Rightarrow> (u32 \<Rightarrow> ptr \<times> ptr) \<Rightarrow> nat \<Rightarrow> bool" where
  "fresh_mount nodes cells ls addrs n \<longleftrightarrow> distinct ls
     \<and> distinct (NULL # nodes @ map (\<lambda>k. fst (addrs (of_nat k))) [1..<n])
     \<and> distinct (NULL # cells @ map (\<lambda>k. snd (addrs (of_nat k))) [1..<n])"

text \<open>All members of the archive after the first are regular files, and \<open>nm\<close> are their names.\<close>

definition tar_files :: "mem \<Rightarrow> ptr list \<Rightarrow> (nat \<Rightarrow> string) \<Rightarrow> bool" where
  "tar_files m hs nm \<longleftrightarrow>
     (\<forall>k \<in> set [1..<length hs]. m (tar_type_field (hs ! k)) = 48 \<and> str_at m 128 (hs ! k) = Some (nm k))"

lemma fresh_mount_entries:
  assumes "fresh_mount nodes cells ls addrs n" and "ns \<subseteq> set nodes" and "cs \<subseteq> set cells"
  shows "fresh_entries addrs [1..<n] ns cs"
  using assms by (auto simp: fresh_mount_def fresh_entries_def)

lemma vfs_init_root:
  assumes "rootfs_lock s = 0" and "root_files s = 0"
  shows "root_state (vfs_init vn rl s) [] []" and "fmem (vfs_init vn rl s) = fmem s" and "root_nodes (vfs_init vn rl s) = rl"
    and "devfs_lock (vfs_init vn rl s) = devfs_lock s" and "fs_root (vfs_init vn rl s) = vn"
    and "fs_finddir (fnodes (vfs_init vn rl s) vn) = Some Rootfs_finddir" and "fs_flags (fnodes (vfs_init vn rl s) vn) = 0x02 OR 0x08"
  using assms list_create_ok
  by (simp_all add: vfs_init_def rootfs_init_def root_state_def entries_def)

lemma mounts_in_a_row:
  assumes "rootfs_lock s = 0" and "devfs_lock s = 0" and "root_files s = 0"
    and "fresh_mount (vn # dn # tn # map snd (four_devices devs)) (dc # tc # device_cells devs) [rl, dl, l] addrs (length hs)"
    and "tar_archive (fmem s) a en hs" and "length hs \<le> 64" and "tar_files (fmem s) hs nm"
  shows "\<exists>s1 s' ts. devfs_init dn dc dl devs (vfs_init vn rl s) = Some s1 \<and> tarfs_init tn l tc addrs a en s1 = Some (Inr s')
    \<and> mounted s' [tc, dc] [(''initrd'', tn), (''dev'', dn)] (device_cells devs) (four_devices devs)
    \<and> map (\<lambda>(n, p). (n, device_routines s' p)) (four_devices devs) = device_ops
    \<and> tar_list s' tn l ts (rev (map (\<lambda>k. (nm k, fst (addrs (of_nat k)))) [1..<length hs]))
    \<and> (\<forall>k \<in> set [1..<length hs]. headers s' (of_nat k) = hs ! k \<and> fnodes s' (fst (addrs (of_nat k))) = tar_file s' (of_nat k) (nm k))
    \<and> fmem s' = fmem s \<and> fs_root s' = vn \<and> fs_finddir (fnodes s' vn) = Some Rootfs_finddir \<and> fs_flags (fnodes s' vn) = 0x02 OR 0x08
    \<and> fs_finddir (fnodes s' tn) = Some Tarfs_finddir \<and> fs_flags (fnodes s' tn) = 0x02"
proof -
  let ?s0 = "vfs_init vn rl s"
  note v = vfs_init_root [OF assms(1,3), of vn rl]
  note fm = assms(4) [unfolded fresh_mount_def]
  obtain s1 where s1: "devfs_init dn dc dl devs ?s0 = Some s1" "same_world ?s0 s1"
      "mounted s1 [dc] [(''dev'', dn)] (device_cells devs) (four_devices devs)"
      "map (\<lambda>(n, p). (n, device_routines s1 p)) (four_devices devs) = device_ops"
      "root_nodes s1 = rl" "devlist s1 = dl"
      "\<forall>p. p \<notin> insert dn (snd ` set (four_devices devs)) \<longrightarrow> fnodes s1 p = fnodes ?s0 p"
    using devfs_init_mounted [OF v(1), of dl dn devs dc] v(3,4) assms(2) fm by auto
  have m1: "fmem s1 = fmem s" "fs_root s1 = vn" using s1(2) v(2,5) by (simp_all add: same_world_def)
  have fr: "fresh_entries addrs [1..<length hs] ({tn} \<union> snd ` set [(''dev'', dn)] \<union> snd ` set (four_devices devs))
      (insert tc (set [dc] \<union> set (device_cells devs)))"
    by (rule fresh_mount_entries [OF assms(4)]) auto
  obtain s' ts where s': "tarfs_init tn l tc addrs a en s1 = Some (Inr s')"
      "mounted s' [tc, dc] [(''initrd'', tn), (''dev'', dn)] (device_cells devs) (four_devices devs)"
      "tar_list s' tn l ts (rev (map (\<lambda>k. (nm k, fst (addrs (of_nat k)))) [1..<length hs]))"
      "\<forall>k \<in> set [1..<length hs]. headers s' (of_nat k) = hs ! k \<and> fnodes s' (fst (addrs (of_nat k))) = tar_file s' (of_nat k) (nm k)"
      "\<forall>p. p \<notin> insert tn ((\<lambda>k. fst (addrs (of_nat k))) ` set [1..<length hs]) \<longrightarrow> fnodes s' p = fnodes s1 p"
      "fmem s' = fmem s1" "fs_root s' = fs_root s1" "fs_finddir (fnodes s' tn) = Some Tarfs_finddir" "fs_flags (fnodes s' tn) = 0x02"
    using tarfs_init_mounted [OF s1(3) _ assms(6) _ fr, of a en nm l] assms(5,7) fm s1(5,6) m1 by (auto simp: tar_files_def)
  have other: "fnodes s' p = fnodes s1 p" if "p \<in> insert vn (snd ` set (four_devices devs))" for p
  proof -
    have "p \<notin> insert tn ((\<lambda>k. fst (addrs (of_nat k))) ` set [1..<length hs])" using fm that by auto
    then show ?thesis using s'(5) by blast
  qed
  have vn: "fnodes s' vn = fnodes ?s0 vn" using other [of vn] s1(7) fm by auto
  have "device_routines s' (snd x) = device_routines s1 (snd x)" if "x \<in> set (four_devices devs)" for x
    using other [of "snd x"] that by (simp add: device_routines_def)
  then have ops: "map (\<lambda>(n, p). (n, device_routines s' p)) (four_devices devs) = device_ops"
    unfolding s1(4) [symmetric] by (auto intro!: map_cong simp: case_prod_beta)
  show ?thesis
    using s1(1) s' ops m1 vn v(6,7) by (intro exI [of _ s1] exI [of _ s'] exI [of _ ts]) simp
qed

section \<open>Properties\<close>

text \<open>Lookups in the three directories, from the lists behind them.\<close>

lemma root_lookup:
  assumes "mounted s rs res cs es" and "node \<noteq> NULL" and "fs_finddir (fnodes s node) = Some Rootfs_finddir" and "fs_flags (fnodes s node) = 0x02 OR 0x08"
  shows "\<exists>p. finddir_fs node name s = Some (p, s\<lparr>rootfs_lock := 0\<rparr>) \<and> (if p = NULL then None else Some p) = map_of res name"
proof -
  have r: "reg_list (root_nodes s) s res" "rootfs_lock s = 0"
    using assms(1) root_state_reg by (auto simp: mounted_def root_reg_def)
  obtain p where p: "find_name (root_nodes s) name s = Some p" "(if p = NULL then None else Some p) = map_of res name"
    using find_name_opt [OF r(1)] by blast
  have "finddir_fs node name s = Some (p, s\<lparr>rootfs_lock := 0\<rparr>)"
    using assms(2-4) by (simp add: finddir_fs_def rootfs_finddir_def r(2) spin_lock_free spin_unlock_def p(1))
  with p(2) show ?thesis by blast
qed

lemma dev_lookup:
  assumes "mounted s rs res cs es"
  shows "\<exists>p. devfs_finddir name s = Some (p, s\<lparr>devfs_lock := 0\<rparr>) \<and> (if p = NULL then None else Some p) = map_of es name"
proof -
  have r: "reg_list (devlist s) s es" "devfs_lock s = 0"
    using assms(1) dev_state_reg by (auto simp: mounted_def dev_reg_def)
  obtain p where p: "find_name (devlist s) name s = Some p" "(if p = NULL then None else Some p) = map_of es name"
    using find_name_opt [OF r(1)] by blast
  have "devfs_finddir name s = Some (p, s\<lparr>devfs_lock := 0\<rparr>)"
    by (simp add: devfs_finddir_def r(2) spin_lock_free spin_unlock_def p(1))
  with p(2) show ?thesis by blast
qed

lemma tar_lookup:
  assumes "tar_list s tn l ts tes" and "tn \<noteq> NULL" and "fs_finddir (fnodes s tn) = Some Tarfs_finddir" and "fs_flags (fnodes s tn) = 0x02"
  shows "\<exists>p. finddir_fs tn name s = Some (p, s) \<and> (if p = NULL then None else Some p) = map_of tes name"
proof -
  have "reg_list l s tes" using assms(1) by (auto simp: tar_list_def reg_list_def)
  then obtain p where p: "find_name l name s = Some p" "(if p = NULL then None else Some p) = map_of tes name"
    using find_name_opt by blast
  have "finddir_fs tn name s = Some (p, s)"
    using assms by (simp add: finddir_fs_def tarfs_finddir_def tar_list_def p(1))
  with p(2) show ?thesis by blast
qed

lemma tar_list_locks [simp]: "tar_list (s\<lparr>rootfs_lock := x\<rparr>) tn l ts tes = tar_list s tn l ts tes"
  by (simp add: tar_list_def entries_def)

text \<open>C15: mounting. With addresses that the heap gave out once and an archive of at most 64 members, all of them
  regular files after the first, \<open>vfs_init\<close>, \<open>devfs_init\<close> and \<open>tarfs_init\<close> return one after the other. Then the
  root's directory has exactly the entries dev and initrd, the directory dev exactly the four devices, each with its
  own read and write routine, and initrd exactly the members of the archive after the first.\<close>

theorem file_systems_mounted:
  assumes "rootfs_lock s = 0" and "devfs_lock s = 0" and "root_files s = 0"
    and "fresh_mount (vn # dn # tn # map snd (four_devices devs)) (dc # tc # device_cells devs) [rl, dl, l] addrs (length hs)"
    and "tar_archive (fmem s) a en hs" and "length hs \<le> 64" and "tar_files (fmem s) hs nm"
  shows "\<exists>s1 s'. devfs_init dn dc dl devs (vfs_init vn rl s) = Some s1 \<and> tarfs_init tn l tc addrs a en s1 = Some (Inr s')
    \<and> (\<forall>name. \<exists>p s''. finddir_fs (get_fs_root s') name s' = Some (p, s'')
         \<and> (if p = NULL then None else Some p) = map_of [(''initrd'', tn), (''dev'', dn)] name)
    \<and> (\<forall>name. \<exists>p s''. devfs_finddir name s' = Some (p, s'') \<and> (if p = NULL then None else Some p) = map_of (four_devices devs) name)
    \<and> map (\<lambda>(n, p). (n, device_routines s' p)) (four_devices devs) = device_ops
    \<and> (\<forall>name. \<exists>p. finddir_fs tn name s' = Some (p, s')
         \<and> (if p = NULL then None else Some p) = map_of (rev (map (\<lambda>k. (nm k, fst (addrs (of_nat k)))) [1..<length hs])) name)"
proof -
  obtain s1 s' ts where s': "devfs_init dn dc dl devs (vfs_init vn rl s) = Some s1" "tarfs_init tn l tc addrs a en s1 = Some (Inr s')"
      "mounted s' [tc, dc] [(''initrd'', tn), (''dev'', dn)] (device_cells devs) (four_devices devs)"
      "map (\<lambda>(n, p). (n, device_routines s' p)) (four_devices devs) = device_ops"
      "tar_list s' tn l ts (rev (map (\<lambda>k. (nm k, fst (addrs (of_nat k)))) [1..<length hs]))" "fs_root s' = vn"
      "fs_finddir (fnodes s' vn) = Some Rootfs_finddir" "fs_flags (fnodes s' vn) = 0x02 OR 0x08"
      "fs_finddir (fnodes s' tn) = Some Tarfs_finddir" "fs_flags (fnodes s' tn) = 0x02"
    using mounts_in_a_row [OF assms] by blast
  have n: "vn \<noteq> NULL" "tn \<noteq> NULL" using assms(4) by (auto simp: fresh_mount_def)
  have r: "\<exists>p s''. finddir_fs (get_fs_root s') name s' = Some (p, s'')
      \<and> (if p = NULL then None else Some p) = map_of [(''initrd'', tn), (''dev'', dn)] name" for name
    unfolding get_fs_root_def s'(6) using root_lookup [OF s'(3) n(1) s'(7,8)] by blast
  have d: "\<exists>p s''. devfs_finddir name s' = Some (p, s'') \<and> (if p = NULL then None else Some p) = map_of (four_devices devs) name" for name
    using dev_lookup [OF s'(3)] by blast
  show ?thesis
    by (intro exI [of _ s1] exI [of _ s'] conjI allI s'(1,2,4) r d tar_lookup [OF s'(5) n(2) s'(9,10)])
qed

lemma map_of_rev_unique:
  "k \<in> set ks \<Longrightarrow> \<forall>j \<in> set ks. f j = f k \<longrightarrow> j = k \<Longrightarrow> map_of (rev (map (\<lambda>k. (f k, g k)) ks)) (f k) = Some (g k)"
  by (induction ks) (auto simp: map_add_Some_iff map_of_eq_None_iff)

text \<open>A member of the archive, found by its name after the mounts.\<close>

lemma initrd_member:
  assumes "rootfs_lock s = 0" and "devfs_lock s = 0" and "root_files s = 0"
    and "fresh_mount (vn # dn # tn # map snd (four_devices devs)) (dc # tc # device_cells devs) [rl, dl, l] addrs (length hs)"
    and "tar_archive (fmem s) a en hs" and "length hs \<le> 64" and "tar_files (fmem s) hs nm"
    and "k \<in> set [1..<length hs]" and "\<forall>j \<in> set [1..<length hs]. nm j = nm k \<longrightarrow> j = k"
  shows "\<exists>s1 s2 s3 nd. devfs_init dn dc dl devs (vfs_init vn rl s) = Some s1 \<and> tarfs_init tn l tc addrs a en s1 = Some (Inr s2)
    \<and> finddir_fs (get_fs_root s2) ''initrd'' s2 = Some (tn, s3) \<and> finddir_fs tn (nm k) s3 = Some (nd, s3) \<and> nd \<noteq> NULL
    \<and> fmem s3 = fmem s \<and> headers s3 (of_nat k) = hs ! k \<and> fnodes s3 nd = tar_file s3 (of_nat k) (nm k)"
proof -
  obtain s1 s2 ts where s2: "devfs_init dn dc dl devs (vfs_init vn rl s) = Some s1" "tarfs_init tn l tc addrs a en s1 = Some (Inr s2)"
      "mounted s2 [tc, dc] [(''initrd'', tn), (''dev'', dn)] (device_cells devs) (four_devices devs)"
      "tar_list s2 tn l ts (rev (map (\<lambda>k. (nm k, fst (addrs (of_nat k)))) [1..<length hs]))" "fmem s2 = fmem s" "fs_root s2 = vn"
      "fs_finddir (fnodes s2 vn) = Some Rootfs_finddir" "fs_flags (fnodes s2 vn) = 0x02 OR 0x08"
      "fs_finddir (fnodes s2 tn) = Some Tarfs_finddir" "fs_flags (fnodes s2 tn) = 0x02"
    and fl: "\<forall>k \<in> set [1..<length hs]. headers s2 (of_nat k) = hs ! k \<and> fnodes s2 (fst (addrs (of_nat k))) = tar_file s2 (of_nat k) (nm k)"
    using mounts_in_a_row [OF assms(1-7)] by blast
  let ?nd = "fst (addrs (of_nat k))" and ?s3 = "s2\<lparr>rootfs_lock := 0\<rparr>"
  have n: "vn \<noteq> NULL" "tn \<noteq> NULL" "?nd \<noteq> NULL" using assms(4,8) by (auto simp: fresh_mount_def)
  have e: "finddir_fs (get_fs_root s2) ''initrd'' s2 = Some (tn, ?s3)"
    using root_lookup [OF s2(3) n(1) s2(7,8), of "''initrd''"] n(2) by (auto simp: get_fs_root_def s2(6) split: if_splits)
  have "map_of (rev (map (\<lambda>k. (nm k, fst (addrs (of_nat k)))) [1..<length hs])) (nm k) = Some ?nd"
    by (rule map_of_rev_unique) (use assms(8,9) in auto)
  moreover have "tar_list ?s3 tn l ts (rev (map (\<lambda>k. (nm k, fst (addrs (of_nat k)))) [1..<length hs]))" using s2(4) by simp
  from tar_lookup [OF this n(2), of "nm k"] s2(9,10) obtain p where
    "finddir_fs tn (nm k) ?s3 = Some (p, ?s3)"
    "(if p = NULL then None else Some p) = map_of (rev (map (\<lambda>k. (nm k, fst (addrs (of_nat k)))) [1..<length hs])) (nm k)" by auto
  ultimately have f: "finddir_fs tn (nm k) ?s3 = Some (?nd, ?s3)" by (simp split: if_splits)
  have "fmem ?s3 = fmem s" "headers ?s3 (of_nat k) = hs ! k" "fnodes ?s3 ?nd = tar_file ?s3 (of_nat k) (nm k)"
    using fl assms(8) s2(5) by (simp_all add: tar_file_def)
  with s2(1,2) e f n(3) show ?thesis by blast
qed

text \<open>C6: reading a file of the ramdisk. After the mounts, looking initrd up in the root and the name of a member in
  it finds that member's node, and reading the whole file from it returns its size and puts the bytes that follow its
  header in the archive into the buffer.\<close>

theorem initrd_file_read:
  assumes "rootfs_lock s = 0" and "devfs_lock s = 0" and "root_files s = 0"
    and "fresh_mount (vn # dn # tn # map snd (four_devices devs)) (dc # tc # device_cells devs) [rl, dl, l] addrs (length hs)"
    and "tar_archive (fmem s) a en hs" and "length hs \<le> 64" and "tar_files (fmem s) hs nm"
    and "k \<in> set [1..<length hs]" and "\<forall>j \<in> set [1..<length hs]. nm j = nm k \<longrightarrow> j = k"
    and "len = tar_getsize (fmem s) (tar_size_field (hs ! k))" and "unat len \<le> unat (buf - (hs ! k + 512))"
  shows "\<exists>s1 s2 s3 s4 nd. devfs_init dn dc dl devs (vfs_init vn rl s) = Some s1 \<and> tarfs_init tn l tc addrs a en s1 = Some (Inr s2)
    \<and> finddir_fs (get_fs_root s2) ''initrd'' s2 = Some (tn, s3) \<and> finddir_fs tn (nm k) s3 = Some (nd, s3) \<and> nd \<noteq> NULL
    \<and> read_fs hw nd 0 len buf s3 = Some (len, s4) \<and> (\<forall>i < unat len. fmem s4 (buf + of_nat i) = fmem s (hs ! k + 512 + of_nat i))"
proof -
  obtain s1 s2 s3 nd where s3: "devfs_init dn dc dl devs (vfs_init vn rl s) = Some s1" "tarfs_init tn l tc addrs a en s1 = Some (Inr s2)"
      "finddir_fs (get_fs_root s2) ''initrd'' s2 = Some (tn, s3)" "finddir_fs tn (nm k) s3 = Some (nd, s3)" "nd \<noteq> NULL"
    and t: "fmem s3 = fmem s" "headers s3 (of_nat k) = hs ! k" "fnodes s3 nd = tar_file s3 (of_nat k) (nm k)"
    using initrd_member [OF assms(1-9)] by blast
  have nd: "fs_length (fnodes s3 nd) = len" "fs_inode (fnodes s3 nd) = of_nat k" "fs_read (fnodes s3 nd) = Some Tarfs_read"
    using t assms(10) by (simp_all add: tar_file_def)
  obtain s4 where s4: "tarfs_read nd 0 len buf s3 = (len, s4)" "\<forall>i < unat len. fmem s4 (buf + of_nat i) = fmem s (hs ! k + 512 + of_nat i)"
    using tarfs_read_bytes [of 0 s3 nd len "unat len" buf, unfolded nd t(1,2)] assms(11) unsigned_less [of len, where 'a = nat] by auto
  have "read_fs hw nd 0 len buf s3 = Some (len, s4)" using s3(5) nd(3) s4(1) by (simp add: read_fs_def run_read_def)
  then show ?thesis using s3 s4(2) by blast
qed

text \<open>An archive of a directory and one file x of one byte, at 0x1000.\<close>

definition demo_tar :: mem where
  "demo_tar = (\<lambda>x. if 0x107c \<le> x \<and> x < 0x1087 \<or> 0x127c \<le> x \<and> x < 0x1287 then 48 else 0)
     (0x1000 := 46, 0x109c := 53, 0x1200 := 120, 0x129c := 48, 0x1286 := 49, 0x1400 := 77)"

lemma demo_tar_ok: "tar_archive demo_tar 0x1000 0x1600 [0x1000, 0x1200]" "tar_files demo_tar [0x1000, 0x1200] (\<lambda>_. ''x'')"
    "tar_getsize demo_tar 0x127c = 1"
proof -
  have g: "tar_getsize demo_tar 0x107c = 0" "tar_getsize demo_tar 0x127c = 1" by code_simp+
  show "tar_archive demo_tar 0x1000 0x1600 [0x1000, 0x1200]" using g by (simp add: next_header_def) (simp add: demo_tar_def)
  have "str_at demo_tar 128 0x1200 = Some ''x''" by code_simp
  then show "tar_files demo_tar [0x1000, 0x1200] (\<lambda>_. ''x'')" by (simp add: tar_files_def) (simp add: demo_tar_def)
qed (code_simp)

definition demo_devices :: "(ptr \<times> ptr) \<times> (ptr \<times> ptr) \<times> (ptr \<times> ptr) \<times> (ptr \<times> ptr)" where
  "demo_devices = ((0x520, 0x710), (0x530, 0x720), (0x540, 0x730), (0x550, 0x740))"

lemma demo_fresh:
  "fresh_mount (0x500 # 0x510 # 0x560 # map snd (four_devices demo_devices)) (0x700 # 0x750 # device_cells demo_devices)
     [0x20, 0x30, 0x40] (\<lambda>i. (0x800 + i, 0x900 + i)) (length [0x1000, 0x1200 :: ptr])"
  by (simp add: fresh_mount_def four_devices_def device_cells_def demo_devices_def)

theorem file_systems_mounted_witness:
  "\<exists>s1 s' s''. devfs_init 0x510 0x700 0x30 demo_devices (vfs_init 0x500 0x20 (demo_fs\<lparr>fmem := demo_tar\<rparr>)) = Some s1
     \<and> tarfs_init 0x560 0x40 0x750 (\<lambda>i. (0x800 + i, 0x900 + i)) 0x1000 0x1600 s1 = Some (Inr s')
     \<and> finddir_fs (get_fs_root s') ''dev'' s' = Some (0x510, s'') \<and> finddir_fs 0x560 ''x'' s' = Some (0x801, s')"
proof -
  let ?s = "demo_fs\<lparr>fmem := demo_tar\<rparr>"
  have h: "rootfs_lock ?s = 0" "devfs_lock ?s = 0" "root_files ?s = 0" "fmem ?s = demo_tar" by (simp_all add: demo_fs_def)
  obtain s1 s' where s': "devfs_init 0x510 0x700 0x30 demo_devices (vfs_init 0x500 0x20 ?s) = Some s1"
      "tarfs_init 0x560 0x40 0x750 (\<lambda>i. (0x800 + i, 0x900 + i)) 0x1000 0x1600 s1 = Some (Inr s')"
    and r: "\<And>name. \<exists>p s''. finddir_fs (get_fs_root s') name s' = Some (p, s'')
         \<and> (if p = NULL then None else Some p) = map_of [(''initrd'', 0x560), (''dev'', 0x510)] name"
      "\<And>name. \<exists>p. finddir_fs 0x560 name s' = Some (p, s') \<and> (if p = NULL then None else Some p) = map_of [(''x'', 0x801)] name"
    using file_systems_mounted [where s = ?s and vn = "0x500" and dn = "0x510" and tn = "0x560" and devs = demo_devices and dc = "0x700" and tc = "0x750"
      and rl = "0x20" and dl = "0x30" and l = "0x40" and addrs = "\<lambda>i. (0x800 + i, 0x900 + i)" and hs = "[0x1000, 0x1200]"
      and a = "0x1000" and en = "0x1600" and nm = "\<lambda>_. ''x''"]
      demo_fresh demo_tar_ok(1,2) h by auto
  show ?thesis using s' r(1) [of "''dev''"] r(2) [of "''x''"] by (auto split: if_splits)
qed

theorem initrd_file_read_witness:
  "\<exists>s1 s2 s3 s4 nd. devfs_init 0x510 0x700 0x30 demo_devices (vfs_init 0x500 0x20 (demo_fs\<lparr>fmem := demo_tar\<rparr>)) = Some s1
     \<and> tarfs_init 0x560 0x40 0x750 (\<lambda>i. (0x800 + i, 0x900 + i)) 0x1000 0x1600 s1 = Some (Inr s2)
     \<and> finddir_fs (get_fs_root s2) ''initrd'' s2 = Some (0x560, s3) \<and> finddir_fs 0x560 ''x'' s3 = Some (nd, s3)
     \<and> read_fs (\<lambda>_ _. 0) nd 0 1 0x8000 s3 = Some (1, s4) \<and> fmem s4 0x8000 = 77"
proof -
  let ?s = "demo_fs\<lparr>fmem := demo_tar\<rparr>"
  have h: "rootfs_lock ?s = 0" "devfs_lock ?s = 0" "root_files ?s = 0" "fmem ?s = demo_tar" by (simp_all add: demo_fs_def)
  have k: "1 \<in> set [1..<length [0x1000, 0x1200 :: ptr]]" "\<forall>j \<in> set [1..<length [0x1000, 0x1200 :: ptr]]. ''x'' = ''x'' \<longrightarrow> j = 1" by simp_all
  have d: "demo_tar 0x1400 = 77" by (simp add: demo_tar_def)
  show ?thesis
    using initrd_file_read [where s = ?s and vn = "0x500" and dn = "0x510" and tn = "0x560" and devs = demo_devices and dc = "0x700" and tc = "0x750"
      and rl = "0x20" and dl = "0x30" and l = "0x40" and addrs = "\<lambda>i. (0x800 + i, 0x900 + i)" and hs = "[0x1000, 0x1200]"
      and a = "0x1000" and en = "0x1600" and nm = "\<lambda>_. ''x''" and k = 1 and len = 1 and buf = "0x8000" and hw = "\<lambda>_ _. 0"]
      demo_fresh demo_tar_ok h k d by auto
qed

end
