(* ===== verification/Console.thy ===== *)
theory Console
  imports Vga Serial
begin

text \<open>
  The console actions of \<open>Kdisplay\<close> performed by the drivers: a character goes to the text screen (drivers/vga.c) or to
  the serial line (drivers/serial.c), which waits for the transmitter. \<open>con_run\<close> is a list of actions on the screen
  and the port history; \<open>None\<close> is a line that never gets ready.
\<close>

unbundle bit_operations_syntax

section \<open>Actions on the devices\<close>

definition byte_of :: "char \<Rightarrow> u8" where
  "byte_of c = of_nat (of_char c)"

fun con_step :: "hardware \<Rightarrow> con_action \<Rightarrow> vga \<times> io \<Rightarrow> (vga \<times> io) option" where
  "con_step hw (Vga_putc c) (s, h) = Some (vga_putc (byte_of c) (s, h))"
| "con_step hw (Serial_putc c) (s, h) = map_option (Pair s) (serial_putc hw (byte_of c) h)"
| "con_step hw (Vga_set_color fg bg) (s, h) = Some (vga_set_color fg bg s, h)"
| "con_step hw Vga_clear (s, h) = Some (vga_clear s, h)"

primrec con_run :: "hardware \<Rightarrow> con_action list \<Rightarrow> vga \<times> io \<Rightarrow> (vga \<times> io) option" where
  "con_run hw [] sh = Some sh"
| "con_run hw (a # as) sh = Option.bind (con_step hw a sh) (con_run hw as)"

text \<open>The screen's part of an action.\<close>

fun screen_step :: "con_action \<Rightarrow> vga \<Rightarrow> vga" where
  "screen_step (Vga_putc c) s = settle (put_cell (byte_of c) s)"
| "screen_step (Serial_putc c) s = s"
| "screen_step (Vga_set_color fg bg) s = vga_set_color fg bg s"
| "screen_step Vga_clear s = vga_clear s"

section \<open>Waiting for the transmitter\<close>

text \<open>Bit 5 of the line status is set after \<open>n\<close> reads in which it is clear, at the latest.\<close>

primrec ready_after :: "hardware \<Rightarrow> nat \<Rightarrow> io \<Rightarrow> bool" where
  "ready_after hw 0 h = fst (port_write_ready hw PORT_COM1 h)"
| "ready_after hw (Suc n) h \<longleftrightarrow> fst (port_write_ready hw PORT_COM1 h) \<or> ready_after hw n (snd (port_write_ready hw PORT_COM1 h))"

lemma port_write_ready_sent [simp]: "sent p (snd (port_write_ready hw q h)) = sent p h"
  by (simp add: port_write_ready_def inb_def Let_def)

lemma wait_write_returns:
  "ready_after hw n h \<Longrightarrow> \<exists>h'. wait_write hw h = Some h' \<and> (\<forall>p. sent p h' = sent p h)"
proof (induction n arbitrary: h)
  case 0
  then have "wait_write hw h = Some (snd (port_write_ready hw PORT_COM1 h))"
    by (subst wait_write.simps) (simp add: case_prod_beta Let_def)
  then show ?case by simp
next
  case (Suc n)
  let ?r = "port_write_ready hw PORT_COM1 h"
  have w: "wait_write hw h = (if fst ?r then Some (snd ?r) else wait_write hw (snd ?r))"
    by (subst wait_write.simps) (simp add: case_prod_beta Let_def)
  show ?case
  proof (cases "fst ?r")
    case False
    then have "ready_after hw n (snd ?r)" using Suc.prems by simp
    from Suc.IH [OF this] False w show ?thesis by simp
  qed (use w in simp)
qed

lemma serial_putc_returns:
  "ready_after hw n h \<Longrightarrow> \<exists>h'. serial_putc hw c h = Some h' \<and> (\<forall>p. sent p h' = sent p h @ (if p = PORT_COM1 then [c] else []))"
  using wait_write_returns by (fastforce simp: serial_putc_def)

section \<open>One action\<close>

lemma screen_step_ok:
  assumes "cursor_ok s"
  shows "cursor_ok (screen_step a s)" and "2000 \<le> i \<Longrightarrow> screen (screen_step a s) i = screen s i"
proof -
  have "cursor_ok (screen_step a s) \<and> (2000 \<le> i \<longrightarrow> screen (screen_step a s) i = screen s i)"
  proof (cases a)
    case (Vga_putc c)
    then show ?thesis
      using settle_ok [of "put_cell (byte_of c) s"] put_cell_y [OF assms] put_cell_beyond [OF assms] by simp
  qed (use assms in \<open>simp_all add: cursor_ok_def vga_set_color_def vga_clear_def\<close>)
  then show "cursor_ok (screen_step a s)" and "2000 \<le> i \<Longrightarrow> screen (screen_step a s) i = screen s i" by simp_all
qed

lemma con_step_returns:
  assumes "\<exists>n. ready_after hw n h"
  shows "\<exists>h'. con_step hw a (s, h) = Some (screen_step a s, h')
    \<and> sent PORT_COM1 h' = sent PORT_COM1 h @ map byte_of (serial_text [a])"
proof (cases a)
  case (Vga_putc c)
  then show ?thesis by (simp add: vga_putc_settle move_cur_def Let_def)
next
  case (Serial_putc c)
  then show ?thesis using assms serial_putc_returns [of hw _ h "byte_of c"] by fastforce
qed simp_all

section \<open>Property\<close>

text \<open>C21: output reaches the devices. If the transmitter always gets ready after finitely many polls, every list of
  console actions is performed to its end: the serial port is sent exactly the actions' serial text, the screen shows
  the screen actions alone, the cursor stays on the screen and no cell beyond it is written.\<close>

theorem console_performed:
  assumes "\<forall>h. \<exists>n. ready_after hw n h" and "cursor_ok s"
  shows "\<exists>h'. con_run hw as (s, h) = Some (fold screen_step as s, h')
    \<and> sent PORT_COM1 h' = sent PORT_COM1 h @ map byte_of (serial_text as)
    \<and> cursor_ok (fold screen_step as s) \<and> (\<forall>i \<ge> 2000. screen (fold screen_step as s) i = screen s i)"
  using assms(2)
proof (induction "as" arbitrary: s h)
  case (Cons a "as")
  obtain h1 where h1: "con_step hw a (s, h) = Some (screen_step a s, h1)"
      "sent PORT_COM1 h1 = sent PORT_COM1 h @ map byte_of (serial_text [a])"
    using con_step_returns assms(1) by blast
  have ok: "cursor_ok (screen_step a s)" "\<And>i. 2000 \<le> i \<Longrightarrow> screen (screen_step a s) i = screen s i"
    using screen_step_ok [OF Cons.prems] by blast+
  obtain h' where h': "con_run hw as (screen_step a s, h1) = Some (fold screen_step as (screen_step a s), h')"
      "sent PORT_COM1 h' = sent PORT_COM1 h1 @ map byte_of (serial_text as)" "cursor_ok (fold screen_step as (screen_step a s))"
      "\<forall>i \<ge> 2000. screen (fold screen_step as (screen_step a s)) i = screen (screen_step a s) i"
    using Cons.IH [OF ok(1), of h1] by blast
  have "serial_text (a # as) = serial_text [a] @ serial_text as" using serial_text_append [of "[a]" "as"] by simp
  then show ?case using h1 h' ok(2) by simp
qed simp

theorem console_performed_witness:
  "\<exists>h'. con_run (\<lambda>_ _. 0x20) (klog_prefix LOG_OK) (demo_vga, []) = Some (fold screen_step (klog_prefix LOG_OK) demo_vga, h')
     \<and> length (sent PORT_COM1 h') = 16"
proof -
  have "\<forall>h. \<exists>n. ready_after (\<lambda>_ _. 0x20) n h"
    by (intro allI exI [of _ 0]) (simp add: port_write_ready_def inb_def Let_def)
  moreover have "cursor_ok demo_vga" by (simp add: cursor_ok_def demo_vga_def)
  ultimately show ?thesis
    using console_performed [of "\<lambda>_ _. 0x20" demo_vga "klog_prefix LOG_OK" "[]"]
    by (fastforce simp: klog_prefix_def vga_puts_out_def serial_puts_out_def)
qed

end
