(* ===== verification/Boot.thy ===== *)
theory Boot
  imports Kheap Interrupts
begin

text \<open>
  Start-up, \<open>kernel_main\<close> of kernel/kernel.c: the check of what the boot loader passed and the scan for
  the module, the memory managers in the order of the calls, and the drivers that install interrupt
  handlers. The file systems, which come after, are in theories \<open>Fs\<close> and \<open>Fs_ops\<close>, and the first task in
  theory \<open>Tasks\<close>.
\<close>

section \<open>The start-up sequence\<close>

abbreviation MBOOT2_MAGIC :: u32 where "MBOOT2_MAGIC \<equiv> 0x36d76289"

datatype boot_check = Not_multiboot2 | Unaligned_info | Module_at u32 u32

text \<open>\<open>b0\<close> are the bounds that the static variables hold before. \<open>None\<close> is a tag list without end.\<close>

definition check_boot_info :: "mem \<Rightarrow> u32 \<Rightarrow> ptr \<Rightarrow> u32 \<times> u32 \<Rightarrow> boot_check option" where
  "check_boot_info m magic mb2 b0 =
     (if magic = MBOOT2_MAGIC then
        if mb2 AND 7 \<noteq> 0 then Some Unaligned_info
        else map_option (\<lambda>(a, e). Module_at a e) (module_bounds_loop m (mb2 + 8) b0)
      else Some Not_multiboot2)"

definition init_memory :: "u32 \<Rightarrow> kmalloc_t \<Rightarrow> mem \<Rightarrow> ptr \<Rightarrow> kstate \<Rightarrow> (kerr + kstate) option" where
  "init_memory kernel_end_phys km m mb2 s =
     Option.bind (pmm_init kernel_end_phys m mb2 (pmm_st s)) (\<lambda>r.
       case r of Inl e \<Rightarrow> Some (Inl e)
       | Inr p \<Rightarrow> map_option (\<lambda>s. Inr (kheap_init (KERN_BASE + 0x00400000) (KERN_BASE + 0x00400000 + 8 * M) (KERN_BASE + 0x0FFFFFFF) s))
           (vmm_init km (s\<lparr>pmm_st := p\<rparr>)))"

text \<open>The floating-point unit and the drivers, which install their handlers, on the machine.\<close>

abbreviation handlers :: "machine \<Rightarrow> handler_table" where "handlers m \<equiv> interrupt_handlers (tvm (ms m))"

definition set_handlers :: "handler_table \<Rightarrow> machine \<Rightarrow> machine" where
  "set_handlers t m = m\<lparr>ms := (ms m)\<lparr>tvm := (tvm (ms m))\<lparr>interrupt_handlers := t\<rparr>\<rparr>\<rparr>"

text \<open>A line of the log, ended by a newline.\<close>

definition log_line :: "status \<Rightarrow> string \<Rightarrow> machine \<Rightarrow> machine" where
  "log_line st t m = printed (klog (Some st) (Some (t @ [CHR 0x0A])) []) m"

definition init_drivers :: "hardware \<Rightarrow> bool \<Rightarrow> fpu_image \<Rightarrow> machine \<Rightarrow> kerr + machine" where
  "init_drivers hw edx_fpu fninit m =
     (let m = fpu_init edx_fpu fninit m
      in case timer_init 100 (handlers m) (m_io m) of
           Inl e \<Rightarrow> Inl e
         | Inr (t, h) \<Rightarrow>
             let (t, h) = keyboard_init hw t h; (t, dt, h) = rtc_init hw t (m_time m) h
             in Inr (log_line LOG_OK ''RTC initialized'' (log_line LOG_OK ''PS/2 Keyboard device initialized''
                  (log_line LOG_OK ''PIT initialized'' (set_handlers t (m\<lparr>m_time := dt, m_io := h\<rparr>))))))"

section \<open>Nothing on the free list\<close>

text \<open>Before the heap is enabled, mapping pages does not touch it.\<close>

definition heap_off :: "kstate \<Rightarrow> kstate \<Rightarrow> bool" where
  "heap_off s s' \<longleftrightarrow> \<not> kheap_enabled s' \<and> freelist s' = freelist s \<and> interrupt_handlers s' = interrupt_handlers s
     \<and> kmem s' = kmem s \<and> kernel_page_dir s' = kernel_page_dir s"

lemma allocate_page_heap_off:
  assumes "\<not> kheap_enabled s" and "allocate_page km dir va frame k w s = Some s'"
  shows "heap_off s s'"
  using assms
  by (auto simp: allocate_page_def ensure_table_def dumb_kmalloc_def set_page_def heap_off_def Let_def bind_eq_Some_conv
      split: if_splits prod.splits)

lemma heap_off_trans: "heap_off s s1 \<Longrightarrow> heap_off s1 s2 \<Longrightarrow> heap_off s s2"
  by (simp add: heap_off_def)

text \<open>What every call of \<open>allocate_page\<close> keeps, the loops keep.\<close>

lemma kernel_pages_loop_partial:
  assumes "\<And>i s s'. i < bound \<Longrightarrow> Q i s \<Longrightarrow> allocate_page km (kernel_page_dir s) i 0 True w s = Some s' \<Longrightarrow> Q (i + PAGE_SIZE) s'"
    and "kernel_pages_loop km i bound w s = Some r" and "Q i s"
  shows "Q (fst r) (snd r)"
proof -
  let ?step = "\<lambda>km bound w. \<forall>i s s'. i < bound \<longrightarrow> Q i s \<longrightarrow> allocate_page km (kernel_page_dir s) i 0 True w s = Some s' \<longrightarrow> Q (i + PAGE_SIZE) s'"
  have "?step km bound w \<longrightarrow> Q i s \<longrightarrow> Q (fst r) (snd r)"
  proof (rule kernel_pages_loop.raw_induct [where P = "\<lambda>km i bound w s r. ?step km bound w \<longrightarrow> Q i s \<longrightarrow> Q (fst r) (snd r)", OF _ assms(2)])
    fix f km i bound w s r
    assume IH: "\<And>km i bound w s r. f km i bound w s = Some r \<Longrightarrow> ?step km bound w \<longrightarrow> Q i s \<longrightarrow> Q (fst r) (snd r)"
      and r: "(if i < bound then Option.bind (allocate_page km (kernel_page_dir s) i 0 True w s)
          (\<lambda>s. f km (i + PAGE_SIZE) bound w s) else Some (i, s)) = Some r"
    show "?step km bound w \<longrightarrow> Q i s \<longrightarrow> Q (fst r) (snd r)"
      using r IH by (auto simp: bind_eq_Some_conv split: if_splits)
  qed
  then show ?thesis using assms(1,3) by blast
qed

lemma region_loop_partial:
  assumes "\<And>i s s'. i \<le> bound \<Longrightarrow> Q i s \<Longrightarrow> allocate_page km d i (if idm then i div PAGE_SIZE else 0) k w s = Some s' \<Longrightarrow> Q (i + PAGE_SIZE) s'"
    and "region_loop km d i bound idm k w s = Some s'" and "Q i s"
  shows "\<exists>j. Q j s'"
proof -
  let ?step = "\<lambda>km d bound idm k w. \<forall>i s s'. i \<le> bound \<longrightarrow> Q i s \<longrightarrow>
    allocate_page km d i (if idm then i div PAGE_SIZE else 0) k w s = Some s' \<longrightarrow> Q (i + PAGE_SIZE) s'"
  have "?step km d bound idm k w \<longrightarrow> Q i s \<longrightarrow> (\<exists>j. Q j s')"
  proof (rule region_loop.raw_induct [where P = "\<lambda>km d i bound idm k w s s'. ?step km d bound idm k w \<longrightarrow> Q i s \<longrightarrow> (\<exists>j. Q j s')", OF _ assms(2)])
    fix f km d i bound idm k w s s'
    assume IH: "\<And>km d i bound idm k w s s'. f km d i bound idm k w s = Some s' \<Longrightarrow> ?step km d bound idm k w \<longrightarrow> Q i s \<longrightarrow> (\<exists>j. Q j s')"
      and r: "(if i \<le> bound then Option.bind (allocate_page km d i (if idm then i div PAGE_SIZE else 0) k w s)
          (\<lambda>s. f km d (i + PAGE_SIZE) bound idm k w s) else Some s) = Some s'"
    show "?step km d bound idm k w \<longrightarrow> Q i s \<longrightarrow> (\<exists>j. Q j s')"
    proof (intro impI)
      assume st: "?step km d bound idm k w" and q: "Q i s"
      show "\<exists>j. Q j s'"
      proof (cases "i \<le> bound")
        case True
        then obtain s1 where "allocate_page km d i (if idm then i div PAGE_SIZE else 0) k w s = Some s1" "f km d (i + PAGE_SIZE) bound idm k w s1 = Some s'"
          using r by (auto simp: bind_eq_Some_conv)
        then show ?thesis using IH st q True by blast
      qed (use r q in auto)
    qed
  qed
  then show ?thesis using assms(1,3) by blast
qed

lemma heap_off_step: "heap_off s s1 \<Longrightarrow> allocate_page km d va fr k w s1 = Some s2 \<Longrightarrow> heap_off s s2"
  using allocate_page_heap_off heap_off_trans by (meson heap_off_def)

lemma heap_off_refl: "\<not> kheap_enabled s \<Longrightarrow> heap_off s s"
  by (simp add: heap_off_def)

lemma kernel_pages_loop_heap_off:
  assumes "kernel_pages_loop km i bound w s = Some r" and "\<not> kheap_enabled s"
  shows "heap_off s (snd r)"
  by (rule kernel_pages_loop_partial [of bound "\<lambda>_. heap_off s", OF _ assms(1) heap_off_refl [OF assms(2)]]) (rule heap_off_step)

lemma region_loop_heap_off:
  assumes "region_loop km d a b idm k w s = Some s'" and "\<not> kheap_enabled s"
  shows "heap_off s s'"
proof -
  have "\<exists>j :: u32. heap_off s s'"
    by (rule region_loop_partial [of b "\<lambda>_. heap_off s", OF _ assms(1) heap_off_refl [OF assms(2)]]) (rule heap_off_step)
  then show ?thesis by blast
qed

text \<open>The fields that \<open>vmm_init\<close> leaves alone, and the directory it builds: at the end of the bitmap.\<close>

lemma vmm_init_keeps:
  assumes "vmm_init km s = Some s'" and "\<not> kheap_enabled s"
  shows "freelist s' = freelist s" and "interrupt_handlers s' = (interrupt_handlers s)(14 := Some Page_fault)"
    and "kmem s' = kmem s" and "kernel_page_dir s' = ALIGN (pmm_bitmap_ptr (pmm_st s) + pmm_bitmap_size (pmm_st s))"
proof -
  let ?s0 = "boot_start s"
  have s0: "\<not> kheap_enabled ?s0" using assms(2) by (simp add: boot_start_def Let_def)
  obtain i1 s1 i2 s2 s3 where l: "kernel_pages_loop km KERN_BASE (KERN_BASE + 4 * M) False ?s0 = Some (i1, s1)"
      "kernel_pages_loop km (KERN_BASE + 4 * M) (KERN_BASE + 4 * M + 8 * M) True s1 = Some (i2, s2)"
      "allocate_region km (kernel_page_dir s2) 0 0x10000 True True False s2 = Some s3"
    and e: "freelist s' = freelist s3" "interrupt_handlers s' = (interrupt_handlers s3)(14 := Some Page_fault)"
      "kmem s' = kmem s3" "kernel_page_dir s' = kernel_page_dir s3"
    using assms(1)
    by (auto simp: vmm_init_def bind_eq_Some_conv dumb_kmalloc_def Let_def enable_paging_def switch_page_directory_def boot_start_def
        int_install_handler_def)
  have "heap_off ?s0 s1" using kernel_pages_loop_heap_off [OF l(1) s0] by simp
  moreover from this have "heap_off s1 s2" using kernel_pages_loop_heap_off [OF l(2)] by (simp add: heap_off_def)
  moreover from this have "heap_off s2 s3" using region_loop_heap_off [OF l(3) [unfolded allocate_region_def]] by (simp add: heap_off_def)
  ultimately have "heap_off ?s0 s3" by (blast intro: heap_off_trans)
  then show "freelist s' = freelist s" "interrupt_handlers s' = (interrupt_handlers s)(14 := Some Page_fault)"
      "kmem s' = kmem s" "kernel_page_dir s' = ALIGN (pmm_bitmap_ptr (pmm_st s) + pmm_bitmap_size (pmm_st s))"
    using e by (simp_all add: heap_off_def boot_start_def Let_def)
qed

section \<open>Properties\<close>

lemma align4_bounds:
  assumes "unat a < 2 ^ 32 - 4"
  shows "unat (align_to a 4) \<le> unat a + 3"
proof -
  have m: "unat (a mod 4) = unat a mod 4" by (simp add: unat_mod)
  have l: "unat a mod 4 < 4" by simp
  have "unat (4 - a mod 4) = 4 - unat a mod 4"
    using l by (subst unat_sub) (simp_all add: m word_le_nat_alt)
  moreover have "a mod 4 \<noteq> 0 \<Longrightarrow> 0 < unat a mod 4" using m by (metis gr0I unat_eq_zero)
  moreover have "unat (a + (4 - a mod 4)) \<le> unat a + unat (4 - a mod 4)"
    by (metis mod_less_eq_dividend unat_word_ariths(1))
  ultimately show ?thesis by (auto simp: align_to_def)
qed

lemma max_blocks_bound: "unat ((x * 1024 :: u32) div 4096 div 8) < 2 ^ 17"
proof -
  have "unat (x * 1024 :: u32) < 2 ^ 32" using unsigned_less [of "x * 1024", where 'a = nat] by simp
  then show ?thesis by (simp add: unat_div)
qed

lemma foldl_max_bound:
  fixes c :: u32
  shows "\<forall>e \<in> set xs. e \<le> c \<Longrightarrow> b \<le> c \<Longrightarrow> foldl max b xs \<le> c"
  by (induction xs arbitrary: b) auto

text \<open>What \<open>pmm_init\<close> leaves is what \<open>vmm_init\<close> asks for.\<close>

lemma pmm_init_boot_ready:
  assumes "tag_list m (mbi + 8) ts" and "tag_type m (mbi + 8) \<noteq> MBOOT2_TAG_END"
    and "find (\<lambda>t. tag_type m t = MBOOT2_TAG_BASIC_MEMINFO) ts = Some mi"
    and b: "\<forall>e \<in> set (kend # module_ends m ts). e \<le> c" "c \<le> 0x10000000"
    and "32 dvd unat ((load32 m (mi + 8) + load32 m (mi + 12)) * 1024 div 4096)"
    and "3074 \<le> unat ((load32 m (mi + 8) + load32 m (mi + 12)) * 1024 div 4096)"
    and "bitmap_addr (pmm_st s) = 0" and "used_blocks (pmm_st s) = 0" and "\<not> kheap_enabled s" and "\<not> paging_enabled s"
  shows "\<exists>p. pmm_init kend m mbi (pmm_st s) = Some (Inr p) \<and> boot_ready (s\<lparr>pmm_st := p\<rparr>)
    \<and> unat (pmm_bitmap_ptr p) + unat (pmm_bitmap_size p) < 0xc0020003 + unat c"
proof -
  have b': "\<forall>e \<in> set (kend # module_ends m ts). e \<le> 0xc0400000"
  proof
    fix e assume "e \<in> set (kend # module_ends m ts)"
    then have "e \<le> 0x10000000" using b order_trans by blast
    then show "e \<le> 0xc0400000" by (rule order_trans) simp
  qed
  obtain p where p: "pmm_init kend m mbi (pmm_st s) = Some (Inr p)" "pmm_ok p" "used_set p = {}"
      "max_blocks p = (load32 m (mi + 8) + load32 m (mi + 12)) * 1024 div 4096"
      "pmm_bitmap_ptr p = align_to (bitmap_addr p + KERN_BASE) 4" "pmm_bitmap_size p = max_blocks p div 8"
      "bitmap_addr p = (let b = foldl max 0 (module_ends m ts) in if b < kend then kend else b)"
    using pmm_init_ok [OF assms(1-3) b' assms(6,8,9)] by blast
  have "bitmap_addr p \<le> c"
    unfolding p(7) using b(1) foldl_max_bound [of "module_ends m ts" c 0] by (simp add: Let_def)
  then have c: "unat (bitmap_addr p) \<le> unat c" "unat c \<le> 0x10000000" using b(2) by (simp_all add: word_le_nat_alt)
  then have "unat (bitmap_addr p + KERN_BASE) \<le> 0xc0000000 + unat c"
    using unat_plus_small [of "bitmap_addr p" KERN_BASE] by simp
  then have "unat (pmm_bitmap_ptr p) \<le> 0xc0000003 + unat c"
    using align4_bounds [of "bitmap_addr p + KERN_BASE"] p(5) c by simp
  moreover have "unat (pmm_bitmap_size p) < 2 ^ 17" unfolding p(6) p(4) by (rule max_blocks_bound)
  ultimately show ?thesis using p(1-4) assms(7,10,11) c by (simp add: boot_ready_def)
qed

text \<open>The state in which the heap is opened. The page directory lies just above the last module.\<close>

lemma init_memory_ok:
  assumes "tag_list m (mbi + 8) ts" and "tag_type m (mbi + 8) \<noteq> MBOOT2_TAG_END"
    and "find (\<lambda>t. tag_type m t = MBOOT2_TAG_BASIC_MEMINFO) ts = Some mi"
    and "\<forall>e \<in> set (kend # module_ends m ts). e \<le> c" and "c \<le> 0x10000000"
    and "32 dvd unat ((load32 m (mi + 8) + load32 m (mi + 12)) * 1024 div 4096)"
    and "3074 \<le> unat ((load32 m (mi + 8) + load32 m (mi + 12)) * 1024 div 4096)"
    and "bitmap_addr (pmm_st s) = 0" and "used_blocks (pmm_st s) = 0" and "\<not> kheap_enabled s" and "\<not> paging_enabled s"
  shows "\<exists>s1. init_memory kend km m mbi s
      = Some (Inr (kheap_init (KERN_BASE + 0x00400000) (KERN_BASE + 0x00400000 + 8 * M) (KERN_BASE + 0x0FFFFFFF) s1))
    \<and> (\<forall>va. KERN_BASE \<le> va \<and> va < KERN_BASE + 12 * M \<longrightarrow> virt2phys s1 (kernel_page_dir s1) va = va - KERN_BASE)
    \<and> freelist s1 = freelist s \<and> interrupt_handlers s1 = (interrupt_handlers s)(14 := Some Page_fault)
    \<and> current_page_dir s1 = kernel_page_dir s1 \<and> kmem s1 = kmem s \<and> unat (kernel_page_dir s1) < 0xc0021003 + unat c"
proof -
  obtain p where p: "pmm_init kend m mbi (pmm_st s) = Some (Inr p)" "boot_ready (s\<lparr>pmm_st := p\<rparr>)"
      "unat (pmm_bitmap_ptr p) + unat (pmm_bitmap_size p) < 0xc0020003 + unat c"
    using pmm_init_boot_ready [OF assms] by blast
  obtain s1 where v: "vmm_init km (s\<lparr>pmm_st := p\<rparr>) = Some s1" "current_page_dir s1 = kernel_page_dir s1"
      "\<And>va. KERN_BASE \<le> va \<and> va < KERN_BASE + 12 * M \<Longrightarrow> virt2phys s1 (kernel_page_dir s1) va = va - KERN_BASE"
    using vmm_init_translates [OF p(2), of km] by auto
  note k = vmm_init_keeps [OF v(1)]
  have c: "unat c \<le> 0x10000000" using assms(5) by (simp add: word_le_nat_alt)
  have "unat (ALIGN (pmm_bitmap_ptr p + pmm_bitmap_size p)) < 0xc0021003 + unat c"
    using p(3) c by (subst unat_ALIGN) (simp_all add: unat_plus_small)
  then show ?thesis using v(2,3) k assms(10) by (intro exI [of _ s1]) (simp add: init_memory_def p(1) v(1))
qed

lemma kheap_init_virt2phys [simp]: "virt2phys (kheap_init a b c s) d va = virt2phys s d va"
  by (simp add: kheap_init_def virt2phys_def Let_def)

text \<open>Memory start-up. From boot information with a tag list that ends, modules and a kernel image
  that end below 256 MB, and a memory size that is a multiple of 128 KiB of at least 3074 blocks, the three
  managers return. Then the kernel and the whole initial heap translate linearly, and the first request
  is answered with an address in the heap whose bytes are all mapped.\<close>

theorem init_memory_ready:
  assumes "tag_list m (mbi + 8) ts" and "tag_type m (mbi + 8) \<noteq> MBOOT2_TAG_END"
    and "find (\<lambda>t. tag_type m t = MBOOT2_TAG_BASIC_MEMINFO) ts = Some mi"
    and "\<forall>e \<in> set (kend # module_ends m ts). e \<le> 0x10000000"
    and "32 dvd unat ((load32 m (mi + 8) + load32 m (mi + 12)) * 1024 div 4096)"
    and "3074 \<le> unat ((load32 m (mi + 8) + load32 m (mi + 12)) * 1024 div 4096)"
    and "bitmap_addr (pmm_st s) = 0" and "used_blocks (pmm_st s) = 0" and "\<not> kheap_enabled s" and "\<not> paging_enabled s"
    and "freelist s = NULL" and "0 < sz" and "unat sz + 64 < 8 * 1024 * 1024"
  shows "\<exists>s' p s''. init_memory kend km m mbi s = Some (Inr s')
    \<and> (\<forall>va. KERN_BASE \<le> va \<and> va < KERN_BASE + 12 * M \<longrightarrow> virt2phys s' (kernel_page_dir s') va = va - KERN_BASE)
    \<and> kmalloc (Suc n) sz s' = Some (p, s'') \<and> heap_start s' \<le> p \<and> unat p + unat sz \<le> unat (heap_end s')
    \<and> heap_start s' = KERN_BASE + 4 * M \<and> heap_end s' = KERN_BASE + 12 * M"
proof -
  let ?h = "kheap_init (KERN_BASE + 0x00400000) (KERN_BASE + 0x00400000 + 8 * M) (KERN_BASE + 0x0FFFFFFF)"
  obtain s1 where i: "init_memory kend km m mbi s = Some (Inr (?h s1))" "freelist s1 = NULL"
      and tr: "\<forall>va. KERN_BASE \<le> va \<and> va < KERN_BASE + 12 * M \<longrightarrow> virt2phys s1 (kernel_page_dir s1) va = va - KERN_BASE"
    using init_memory_ok [OF assms(1-4) order_refl assms(5-10), of km] assms(11) by auto
  let ?s = "?h s1"
  have "fits_below_end ?s sz" using assms(12,13) i(2) by (simp add: fits_below_end_def kheap_init_def)
  then obtain s2 where k: "malloc (kmalloc_a_n (Suc n)) sz ?s = Some (heap_curr ?s + 48, s2)"
    using malloc_in_heap by blast
  have "kmalloc (Suc n) sz ?s = Some (heap_curr ?s + 48, s2)"
    unfolding kmalloc_def kmalloc_int_def using k by (simp add: kheap_init_def del: kmalloc_a_n.simps)
  moreover have "kernel_page_dir ?s = kernel_page_dir s1" by (simp add: kheap_init_def)
  moreover have "unat (heap_curr ?s + 48) + unat sz \<le> unat (heap_end ?s)"
    using assms(13) by (simp add: kheap_init_def)
  moreover have "heap_start ?s \<le> heap_curr ?s + 48" "heap_start ?s = KERN_BASE + 4 * M" "heap_end ?s = KERN_BASE + 12 * M"
    by (simp_all add: kheap_init_def)
  ultimately show ?thesis using tr i(1) by (metis kheap_init_virt2phys)
qed

definition demo_info :: mem where
  "demo_info = (\<lambda>_. 0)(108 := 4, 112 := 16, 120 := 128, 121 := 48, 124 := 3, 128 := 16, 133 := 9, 137 := 16, 140 := 0, 144 := 8)"

theorem init_memory_ready_witness:
  "\<exists>s' p s''. init_memory 0x2000 (\<lambda>_ _. None) demo_info 100 (demo_boot_state\<lparr>pmm_st := demo_pmm\<rparr>) = Some (Inr s')
     \<and> virt2phys s' (kernel_page_dir s') 0xc0100abc = 0x100abc \<and> kmalloc 1 100 s' = Some (p, s'') \<and> heap_start s' \<le> p"
proof -
  note ev = demo_info_def tag_type_def tag_size_def next_tag_def load32_def module_ends_def
  let ?s = "demo_boot_state\<lparr>pmm_st := demo_pmm\<rparr>"
  have t: "tag_list demo_info (100 + 8) [108, 124, 140]" by (simp add: ev)
  have n: "tag_type demo_info (100 + 8) \<noteq> MBOOT2_TAG_END" by (simp add: ev)
  have f: "find (\<lambda>t. tag_type demo_info t = MBOOT2_TAG_BASIC_MEMINFO) [108, 124, 140] = Some 108" by (simp add: ev)
  have e: "module_ends demo_info [108, 124, 140] = [0x1000]" by (simp add: ev)
  have l: "load32 demo_info (108 + 8) = 0" "load32 demo_info (108 + 12) = 12416" by (simp_all add: ev)
  have z: "bitmap_addr (pmm_st ?s) = 0" "used_blocks (pmm_st ?s) = 0" "\<not> kheap_enabled ?s" "\<not> paging_enabled ?s" "freelist ?s = NULL"
    by (simp_all add: demo_pmm_def demo_boot_state_def)
  obtain s' p s'' where r: "init_memory 0x2000 (\<lambda>_ _. None) demo_info 100 ?s = Some (Inr s')"
      "\<And>va. KERN_BASE \<le> va \<and> va < KERN_BASE + 12 * M \<Longrightarrow> virt2phys s' (kernel_page_dir s') va = va - KERN_BASE"
      "kmalloc (Suc 0) 100 s' = Some (p, s'')" "heap_start s' \<le> p"
    using init_memory_ready [OF t n f _ _ _ z, of "0x2000" 100 "\<lambda>_ _. None" 0] unfolding e l by auto
  then show ?thesis using r(2) [of "0xc0100abc"] by (intro exI [of _ s'] exI [of _ p] exI [of _ s'']) simp
qed

lemma log_line_con:
  "CHR ''%'' \<notin> set t \<Longrightarrow> log_line st t m = m\<lparr>m_con := m_con m @ klog_prefix st @ concat (map con_putc (t @ [CHR 0x0A]))\<rparr>"
  by (simp add: log_line_def klog_def printed_def kprintf_literal)

lemma log_line_keeps [simp]: "ms (log_line st t m) = ms m" "m_time (log_line st t m) = m_time m"
    "m_io (log_line st t m) = m_io m" "m_serial (log_line st t m) = m_serial m"
  by (simp_all add: log_line_def printed_def split: sum.splits)

lemma fpu_init_handlers:
  "handlers (fpu_init True fi m) = (handlers m)(7 := Some Fpu_exception_handler)"
  "handlers (fpu_init False fi m) = handlers m"
  by (auto simp: fpu_init_def printed_def int_install_handler_def Let_def split: sum.splits prod.splits)

lemma rtc_init_handlers: "fst (rtc_init hw t dt h) = t(40 := Some Rtc_irq_handler)"
  by (auto simp: rtc_init_def int_install_handler_def Let_def split: prod.splits)

lemma syscalls_init_handlers: "handlers (syscalls_init m) = (handlers m)(127 := Some Syscall_dispatcher)"
  by (auto simp: syscalls_init_def printed_def int_install_handler_def Let_def split: sum.splits prod.splits)

text \<open>After the drivers and the system calls are initialised, on every hardware, the vectors of the
  timer, keyboard, clock and system calls have their handlers, vector 7 has the trap handler exactly when
  the processor reports a floating-point unit, and no other vector has changed.\<close>

lemma init_drivers_handlers:
  "\<exists>m'. init_drivers hw has_fpu fi m = Inr m' \<and> handlers (syscalls_init m') =
     (\<lambda>v. if v = 32 then Some Timer_irq_handler else if v = 33 then Some Keyboard_irq_handler
          else if v = 40 then Some Rtc_irq_handler else if v = 127 then Some Syscall_dispatcher
          else if v = 7 \<and> has_fpu then Some Fpu_exception_handler else handlers m v)"
proof -
  obtain m' where m': "init_drivers hw has_fpu fi m = Inr m'"
      "handlers m' = (handlers (fpu_init has_fpu fi m))(32 := Some Timer_irq_handler, 33 := Some Keyboard_irq_handler, 40 := Some Rtc_irq_handler)"
    by (simp add: init_drivers_def timer_init_def keyboard_init_def set_handlers_def int_install_handler_def
        rtc_init_handlers case_prod_beta Let_def)
  then show ?thesis by (cases has_fpu) (auto simp: syscalls_init_handlers fpu_init_handlers fun_eq_iff)
qed

end
