(* ===== verification/Mmu.thy ===== *)
theory Mmu
  imports Boot
begin

text \<open>
  The processor's side of paging. The code keeps two records of a page directory: the entries that the processor reads,
  with the physical frames of the tables, and pointers to the same tables that only the code reads. \<open>pde_word\<close> and
  \<open>pte_word\<close> lay the bit-fields of include/memory/vmm.h out in words, \<open>mmu_translate\<close> walks them from \<open>cr3\<close> as the
  processor does, and the theorem says that after \<open>vmm_init\<close> the walk finds what \<open>virt2phys\<close> computes. Tables are
  found in memory at their physical address plus the kernel's base.
\<close>

unbundle bit_operations_syntax

section \<open>Entries as words\<close>

text \<open>Bit-fields fill a word from its lowest bit. The seven unused bits of a page are zero.\<close>

definition pte_word :: "page_t \<Rightarrow> u32" where
  "pte_word p = of_bool (pg_present p) OR push_bit 1 (of_bool (pg_rw p)) OR push_bit 2 (of_bool (pg_user p))
     OR push_bit 3 (of_bool (pg_accessed p)) OR push_bit 4 (of_bool (pg_dirty p)) OR push_bit 12 (ucast (pg_frame p))"

definition pde_word :: "page_dir_entry_t \<Rightarrow> u32" where
  "pde_word d = of_bool (pde_present d) OR push_bit 1 (of_bool (pde_rw d)) OR push_bit 2 (of_bool (pde_user d))
     OR push_bit 7 (of_bool (pde_page_size d)) OR push_bit 12 (ucast (pde_frame d))"

text \<open>What the processor does: bit 0 is presence, the upper 20 bits are the frame. With the page-size extension off,
  which \<open>enable_paging\<close> sees to, bit 7 of a directory entry means nothing.\<close>

definition mmu_translate :: "kstate \<Rightarrow> u32 \<Rightarrow> u32 option" where
  "mmu_translate s va =
     (let pde = pde_word (tables (pdirs s (cr3 s + KERN_BASE)) (drop_bit 22 va))
      in if \<not> bit pde 0 then None
         else let pte = pte_word (ptables s ((pde AND 0xfffff000) + KERN_BASE) (drop_bit 12 va AND 0x3ff))
              in if \<not> bit pte 0 then None else Some ((pte AND 0xfffff000) + (va AND 0xfff)))"

lemma upper_mask: "(0xfffff000 :: u32) = push_bit 12 (mask 20)"
  by (simp add: mask_eq_exp_minus_1)

lemma pte_fields: "bit (pte_word p) 0 = pg_present p" "pte_word p AND 0xfffff000 = push_bit 12 (ucast (pg_frame p))"
proof -
  show "bit (pte_word p) 0 = pg_present p" by (simp add: pte_word_def bit_simps)
  show "pte_word p AND 0xfffff000 = push_bit 12 (ucast (pg_frame p))"
    unfolding upper_mask by (rule bit_word_eqI) (auto simp: pte_word_def bit_simps)
qed

lemma pde_fields: "bit (pde_word d) 0 = pde_present d" "pde_word d AND 0xfffff000 = push_bit 12 (ucast (pde_frame d))"
proof -
  show "bit (pde_word d) 0 = pde_present d" by (simp add: pde_word_def bit_simps)
  show "pde_word d AND 0xfffff000 = push_bit 12 (ucast (pde_frame d))"
    unfolding upper_mask by (rule bit_word_eqI) (auto simp: pde_word_def bit_simps)
qed

section \<open>Both records agree\<close>

text \<open>The directory entries in \<open>D\<close> may be present; a present entry holds the frame of the table that the code points to.\<close>

definition agree :: "u32 set \<Rightarrow> ptr \<Rightarrow> kstate \<Rightarrow> bool" where
  "agree D d s \<longleftrightarrow> (\<forall>di. let e = tables (pdirs s d) di; t = ref_tables (pdirs s d) di
     in (pde_present e \<longrightarrow> di \<in> D \<and> push_bit 12 (ucast (pde_frame e)) = t - KERN_BASE) \<and> (t \<noteq> NULL \<longrightarrow> pde_present e))"

definition early :: "u32 set \<Rightarrow> ptr \<Rightarrow> kstate \<Rightarrow> bool" where
  "early D d s \<longleftrightarrow> \<not> kheap_enabled s \<and> \<not> paging_enabled s \<and> kernel_page_dir s = d \<and> agree D d s"

lemma frame_of_aligned: "a AND 0xfff = 0 \<Longrightarrow> push_bit 12 (ucast (ucast (drop_bit 12 a) :: 20 word)) = (a :: u32)"
proof -
  assume a: "a AND 0xfff = 0"
  have lo: "\<not> bit a n" if "n < 12" for n
  proof -
    have m: "(0xfff :: u32) = mask 12" by (simp add: mask_eq_exp_minus_1)
    have "bit (a AND 0xfff) n = bit a n" unfolding m using that by (simp add: bit_simps)
    then show ?thesis using a by simp
  qed
  show "push_bit 12 (ucast (ucast (drop_bit 12 a) :: 20 word)) = a"
  proof (rule bit_word_eqI)
    fix n assume "n < LENGTH(32)"
    then show "bit (push_bit 12 (ucast (ucast (drop_bit 12 a) :: 20 word)) :: u32) n = bit a n"
      using lo [of n] by (cases "n < 12") (auto simp: bit_simps)
  qed
qed

lemma ALIGN_aligned: "(ALIGN a - KERN_BASE) AND 0xfff = 0"
proof -
  let ?x = "a AND 0xFFFFF000"
  have "unat (?x AND 0xfff) = 0" by (simp add: and.assoc)
  then have "unat ?x mod 4096 = 0" by (simp only: low12_nat)
  moreover have "unat (?x + 0x40001000) mod 4096 = (unat ?x + 0x40001000) mod 4096"
    by (simp add: unat_word_ariths mod_mod_cancel)
  ultimately have "unat (?x + 0x40001000) mod 4096 = 0" by (simp add: mod_add_eq mod_eq_0_iff_dvd)
  moreover have "ALIGN a - KERN_BASE = ?x + 0x40001000" by (simp add: ALIGN_def)
  ultimately show ?thesis by (simp only: word_unat_eq_iff low12_nat unat_0)
qed

text \<open>Before the heap is enabled a new table is an aligned piece of memory above the bitmap.\<close>

lemma ensure_table_early:
  assumes "early D d s" and "di \<in> D" and "ensure_table km d di k w s = Some (t, s')"
  shows "early D d s'"
proof (cases "ref_tables (pdirs s d) di = NULL")
  case True
  let ?t = "ALIGN (temp_mem s)"
  have o: "\<not> kheap_enabled s" "\<not> paging_enabled s" "kernel_page_dir s = d" "agree D d s" using assms(1) by (auto simp: early_def)
  have f: "push_bit 12 (ucast (ucast (drop_bit 12 (?t - KERN_BASE)) :: 20 word)) = ?t - KERN_BASE"
    by (rule frame_of_aligned [OF ALIGN_aligned])
  show ?thesis
    using assms(2,3) True o f
    by (auto simp: early_def agree_def ensure_table_def dumb_kmalloc_def virt2phys_def Let_def split: if_splits)
qed (use assms in \<open>auto simp: ensure_table_def Let_def\<close>)

lemma allocate_page_early:
  assumes "early D d s" and "PAGEDIR_INDEX va \<in> D" and "allocate_page km d va fr k w s = Some s'"
  shows "early D d s'"
proof (cases "d = NULL")
  case False
  then obtain t s1 where t: "ensure_table km d (PAGEDIR_INDEX va) k w s = Some (t, s1)"
    using assms(3) by (auto simp: allocate_page_def bind_eq_Some_conv)
  have "early D d s1" using ensure_table_early [OF assms(1,2) t] .
  then show ?thesis
    using assms(3) t False by (auto simp: allocate_page_def early_def agree_def set_page_def Let_def split: if_splits prod.splits)
qed (use assms in \<open>simp add: allocate_page_def\<close>)

section \<open>The loops of start-up\<close>

abbreviation boot_dirs :: "u32 set" where
  "boot_dirs \<equiv> {0, 0x300, 0x301, 0x302}"

lemma high_dir: "KERN_BASE \<le> i \<Longrightarrow> i < KERN_BASE + 12 * M \<Longrightarrow> PAGEDIR_INDEX i \<in> boot_dirs"
proof -
  assume i: "KERN_BASE \<le> i" "i < KERN_BASE + 12 * M"
  have u: "unat (PAGEDIR_INDEX i) = unat i div 4194304" by (simp add: PAGEDIR_INDEX_def drop_bit_eq_div unat_div)
  have "0xc0000000 \<le> unat i" "unat i < 0xc0c00000" using i by (simp_all add: word_le_nat_alt word_less_nat_alt)
  then have "unat (PAGEDIR_INDEX i) = 0x300 \<or> unat (PAGEDIR_INDEX i) = 0x301 \<or> unat (PAGEDIR_INDEX i) = 0x302"
    unfolding u by linarith
  then show ?thesis by (auto simp: word_unat_eq_iff)
qed

lemma low_dir: "i < 0x11000 \<Longrightarrow> PAGEDIR_INDEX i \<in> boot_dirs"
proof -
  assume "i < 0x11000"
  then have "unat (PAGEDIR_INDEX i) = 0" by (simp add: PAGEDIR_INDEX_def drop_bit_eq_div unat_div word_less_nat_alt)
  then show ?thesis by (auto simp: word_unat_eq_iff)
qed

lemma next_page_high: "KERN_BASE \<le> i \<Longrightarrow> i < b \<Longrightarrow> b \<le> KERN_BASE + 12 * M \<Longrightarrow> KERN_BASE \<le> i + PAGE_SIZE"
  using unat_plus_small [of i PAGE_SIZE] by (simp add: word_le_nat_alt word_less_nat_alt)

lemma kernel_pages_early:
  assumes "kernel_pages_loop km i bound w s = Some (j, s')" and "early boot_dirs d s" and "KERN_BASE \<le> i" and "bound \<le> KERN_BASE + 12 * M"
  shows "early boot_dirs d s'"
proof -
  let ?Q = "\<lambda>i s. KERN_BASE \<le> i \<and> early boot_dirs d s"
  have "?Q (fst (j, s')) (snd (j, s'))"
  proof (rule kernel_pages_loop_partial [of bound ?Q, OF _ assms(1)])
    fix i s s' assume i: "i < bound" "?Q i s" "allocate_page km (kernel_page_dir s) i 0 True w s = Some s'"
    have "PAGEDIR_INDEX i \<in> boot_dirs" using high_dir [of i] i(1,2) assms(4) by auto
    then show "?Q (i + PAGE_SIZE) s'"
      using allocate_page_early [of boot_dirs d s i km 0 True w s'] next_page_high [of i bound] i assms(4) by (auto simp: early_def)
  qed (use assms(2,3) in simp)
  then show ?thesis by simp
qed

lemma region_early:
  assumes "region_loop km d i 0x10000 idm k w s = Some s'" and "early boot_dirs d s"
  shows "early boot_dirs d s'"
proof -
  have "\<exists>j :: u32. early boot_dirs d s'"
    by (rule region_loop_partial [of "0x10000" "\<lambda>_. early boot_dirs d", OF _ assms]) (rule allocate_page_early, assumption, rule low_dir, auto intro: le_less_trans)
  then show ?thesis by blast
qed

lemma boot_start_early: "\<not> kheap_enabled s \<Longrightarrow> \<not> paging_enabled s \<Longrightarrow> early D (kernel_page_dir (boot_start s)) (boot_start s)"
  by (simp add: early_def agree_def boot_start_def zero_pde_def Let_def)

lemma vmm_init_agrees:
  assumes "vmm_init km s = Some s'" and "\<not> kheap_enabled s" and "\<not> paging_enabled s"
  shows "agree boot_dirs (kernel_page_dir s') s'"
proof -
  let ?d = "kernel_page_dir (boot_start s)"
  obtain i1 s1 i2 s2 s3 where l: "kernel_pages_loop km KERN_BASE (KERN_BASE + 4 * M) False (boot_start s) = Some (i1, s1)"
      "kernel_pages_loop km (KERN_BASE + 4 * M) (KERN_BASE + 4 * M + 8 * M) True s1 = Some (i2, s2)"
      "region_loop km (kernel_page_dir s2) 0 0x10000 True True False s2 = Some s3"
    and e: "s' = (enable_paging (switch_page_directory (kernel_page_dir s3) s3))\<lparr>interrupt_handlers := int_install_handler 14 Page_fault (interrupt_handlers s3)\<rparr>"
    using assms(1) by (auto simp: vmm_init_unfold bind_eq_Some_conv Let_def enable_paging_def switch_page_directory_def)
  have "early boot_dirs ?d s1" using kernel_pages_early [OF l(1) boot_start_early [OF assms(2,3)]] by simp
  then have "early boot_dirs ?d s2" using kernel_pages_early [OF l(2)] by simp
  moreover from this have "kernel_page_dir s2 = ?d" by (simp add: early_def)
  ultimately have "early boot_dirs ?d s3" using region_early l(3) by metis
  then show ?thesis by (auto simp: early_def agree_def e enable_paging_def switch_page_directory_def)
qed

section \<open>Property\<close>

lemma mmu_of_agree:
  assumes "agree D d s" and "cr3 s = d - KERN_BASE" and "ref_tables (pdirs s d) (PAGEDIR_INDEX va) \<noteq> NULL"
  shows "mmu_translate s va = map_option (\<lambda>f. push_bit 12 (ucast f) + (va AND 0xfff)) (va_frame s d va)"
proof -
  let ?di = "PAGEDIR_INDEX va"
  have p: "pde_present (tables (pdirs s d) ?di)" "push_bit 12 (ucast (pde_frame (tables (pdirs s d) ?di))) = ref_tables (pdirs s d) ?di - KERN_BASE"
    using assms(1,3) unfolding agree_def Let_def by blast+
  show ?thesis
    using assms(2,3) p
    by (simp add: mmu_translate_def pde_fields pte_fields va_frame_def PAGETBL_INDEX_def PAGEDIR_INDEX_def Let_def)
qed

lemma mmu_of_absent:
  assumes "agree D d s" and "cr3 s = d - KERN_BASE" and "PAGEDIR_INDEX va \<notin> D"
  shows "mmu_translate s va = None"
proof -
  have "\<not> pde_present (tables (pdirs s d) (PAGEDIR_INDEX va))" using assms(1,3) unfolding agree_def Let_def by blast
  then show ?thesis using assms(2) by (simp add: mmu_translate_def pde_fields PAGEDIR_INDEX_def)
qed

lemma page_bounds: "va < 0xc0000000 \<longleftrightarrow> page_no va < 0xc0000" "va < 0xc0c00000 \<longleftrightarrow> page_no va < 0xc0c00"
    "va < 0x1000 \<longleftrightarrow> page_no va < 1" "va < 0x11000 \<longleftrightarrow> page_no va < 17"
  using less_page [of "0xc0000" va] less_page [of "0xc0c00" va] less_page [of 1 va] less_page [of 17 va] by simp_all

lemma boot_map_some: "boot_map (page_no va) \<noteq> None \<longleftrightarrow> KERN_BASE \<le> va \<and> va < KERN_BASE + 12 * M \<or> va < 0x11000"
  using page_bounds [of va] linorder_not_less [of va "0xc0000000"] by (auto simp: boot_map_def)

text \<open>Each of the four directory entries has a table: some page of it is mapped.\<close>

lemma boot_dirs_mapped:
  assumes "\<And>v. va_frame s d v = boot_map (page_no v)" and "PAGEDIR_INDEX va \<in> boot_dirs"
  shows "ref_tables (pdirs s d) (PAGEDIR_INDEX va) \<noteq> NULL"
proof -
  have "PAGEDIR_INDEX 0 = 0" "PAGEDIR_INDEX 0xc0000000 = 0x300" "PAGEDIR_INDEX 0xc0400000 = 0x301" "PAGEDIR_INDEX 0xc0800000 = 0x302"
    by (simp_all add: PAGEDIR_INDEX_def drop_bit_eq_div)
  then obtain v where v: "PAGEDIR_INDEX va = PAGEDIR_INDEX v" "v = 0 \<or> v = 0xc0000000 \<or> v = 0xc0400000 \<or> v = 0xc0800000"
    using assms(2) by fastforce
  then have "va_frame s d v \<noteq> None" unfolding assms(1) boot_map_some by auto
  then show ?thesis unfolding v(1) by (auto simp: va_frame_def Let_def)
qed

text \<open>C2: the processor's view. After \<open>vmm_init\<close> the walk from \<open>cr3\<close> through the directory and table words maps the
  kernel and the initial heap linearly, the pages from 0x1000 to 0x10fff to themselves and page 0 to a frame of its
  own, and finds nothing at any other address: exactly what \<open>virt2phys\<close> computes from the code's own pointers.\<close>

theorem vmm_init_mmu:
  assumes "boot_ready s"
  shows "\<exists>s'. vmm_init km s = Some s' \<and> (\<forall>va. mmu_translate s' va =
    (if KERN_BASE \<le> va \<and> va < KERN_BASE + 12 * M then Some (va - KERN_BASE)
     else if va < 0x1000 then Some (0xc00000 + va) else if va < 0x11000 then Some va else None))"
proof -
  obtain s1 where b: "vmm_init km s = Some ((enable_paging (switch_page_directory (kernel_page_dir s1) s1))
        \<lparr>interrupt_handlers := int_install_handler 14 Page_fault (interrupt_handlers s1)\<rparr>)" (is "_ = Some ?s'")
      "\<And>v. va_frame s1 (kernel_page_dir s1) v = boot_map (page_no v)" "\<not> paging_enabled s1"
    using vmm_init_builds [OF assms, of km] by (auto simp: boot_step_def boot_ok_def)
  let ?d = "kernel_page_dir ?s'"
  have d: "?d = kernel_page_dir s1" "cr3 ?s' = ?d - KERN_BASE"
    using b(3) by (simp_all add: enable_paging_def switch_page_directory_def virt2phys_def)
  have ag: "agree boot_dirs ?d ?s'" using vmm_init_agrees [OF b(1)] assms by (simp add: boot_ready_def)
  have fr: "va_frame ?s' ?d v = boot_map (page_no v)" for v using b(2) by (simp add: d(1))
  have "mmu_translate ?s' va = map_option (\<lambda>f. push_bit 12 (ucast f) + (va AND 0xfff)) (boot_map (page_no va))" for va
  proof (cases "PAGEDIR_INDEX va \<in> boot_dirs")
    case True
    then show ?thesis using mmu_of_agree [OF ag d(2) boot_dirs_mapped [OF fr]] unfolding fr by blast
  next
    case False
    then have "boot_map (page_no va) = None" using boot_map_some [of va] high_dir [of va] low_dir [of va] by blast
    then show ?thesis using mmu_of_absent [OF ag d(2) False] by simp
  qed
  moreover have "map_option (\<lambda>f. push_bit 12 (ucast f) + (va AND 0xfff)) (boot_map (page_no va)) =
    (if KERN_BASE \<le> va \<and> va < KERN_BASE + 12 * M then Some (va - KERN_BASE)
     else if va < 0x1000 then Some (0xc00000 + va) else if va < 0x11000 then Some va else None)" for va
    using boot_map_addr [of va] boot_map_some [of va] less_trans [of va "0x1000" "0x11000"]
    by (cases "boot_map (page_no va)") (auto split: if_splits)
  ultimately show ?thesis using b(1) by auto
qed

theorem vmm_init_mmu_witness:
  "\<exists>s'. vmm_init (\<lambda>_ _. None) demo_boot_state = Some s' \<and> mmu_translate s' 0xc0b8f00d = Some 0xb8f00d \<and> mmu_translate s' 0x40000000 = None"
proof -
  have "boot_ready demo_boot_state"
    by (simp add: boot_ready_def demo_boot_state_def pmm_ok_def used_set_def blk_used_def)
  from vmm_init_mmu [OF this, of "\<lambda>_ _. None"] show ?thesis by auto
qed

end
