(* ===== verification/Layouts.thy ===== *)
theory Layouts
  imports Acpi Elf Multiboot Desc_tbls Interrupts Kheap
begin

text \<open>
  The structures of the headers as the compiler lays them out for a 32-bit x86 machine: fields in order, each at a
  multiple of its alignment unless the structure is packed, the size rounded up to the structure's alignment. The other
  theories read such objects from memory at numeric offsets and with numeric sizes; the property of this theory is
  that those numbers are the compiler's.
\<close>

unbundle bit_operations_syntax

section \<open>Types\<close>

text \<open>An array of length 0 is a flexible one. A 64-bit integer is aligned to 4 bytes on this machine. The flag of a
  structure says whether it is packed.\<close>

datatype ctype = CU8 | CU16 | CU32 | CU64 | CPtr | CArr ctype nat | CStruct bool "(string \<times> ctype) list"

definition round_up :: "nat \<Rightarrow> nat \<Rightarrow> nat" where
  "round_up a n = (n + a - 1) div a * a"

fun calign :: "ctype \<Rightarrow> nat" and fields_align :: "(string \<times> ctype) list \<Rightarrow> nat" where
  "calign CU8 = 1"
| "calign CU16 = 2"
| "calign CU32 = 4"
| "calign CU64 = 4"
| "calign CPtr = 4"
| "calign (CArr t n) = calign t"
| "calign (CStruct packed fs) = (if packed then 1 else fields_align fs)"
| "fields_align [] = 1"
| "fields_align ((_, t) # fs) = max (calign t) (fields_align fs)"

text \<open>Where a field starts when the previous one ended at \<open>off\<close>.\<close>

definition place :: "bool \<Rightarrow> ctype \<Rightarrow> nat \<Rightarrow> nat" where
  "place packed t off = (if packed then off else round_up (calign t) off)"

fun csize :: "ctype \<Rightarrow> nat" and fields_end :: "bool \<Rightarrow> nat \<Rightarrow> (string \<times> ctype) list \<Rightarrow> nat" where
  "csize CU8 = 1"
| "csize CU16 = 2"
| "csize CU32 = 4"
| "csize CU64 = 8"
| "csize CPtr = 4"
| "csize (CArr t n) = n * csize t"
| "csize (CStruct packed fs) = round_up (calign (CStruct packed fs)) (fields_end packed 0 fs)"
| "fields_end packed off [] = off"
| "fields_end packed off ((_, t) # fs) = fields_end packed (place packed t off + csize t) fs"

text \<open>Offset and size of every field.\<close>

fun extents :: "bool \<Rightarrow> nat \<Rightarrow> (string \<times> ctype) list \<Rightarrow> (string \<times> nat \<times> nat) list" where
  "extents packed off [] = []"
| "extents packed off ((n, t) # fs) = (let p = place packed t off in (n, p, csize t) # extents packed (p + csize t) fs)"

fun field_extents :: "ctype \<Rightarrow> (string \<times> nat \<times> nat) list" where
  "field_extents (CStruct packed fs) = extents packed 0 fs"
| "field_extents _ = []"

text \<open>The bytes of a field of the structure at \<open>p\<close>, lowest address first, and the little-endian word they make.\<close>

definition field_bytes :: "mem \<Rightarrow> ptr \<Rightarrow> ctype \<Rightarrow> string \<Rightarrow> u8 list" where
  "field_bytes m p t n = (case map_of (field_extents t) n of None \<Rightarrow> []
     | Some (off, sz) \<Rightarrow> map (\<lambda>i. m (p + of_nat (off + i))) [0..<sz])"

definition word_of :: "u8 list \<Rightarrow> u32" where
  "word_of bs = foldr (\<lambda>b w. ucast b OR push_bit 8 w) bs 0"

definition offset_of :: "ctype \<Rightarrow> string \<Rightarrow> nat" where
  "offset_of t n = (case map_of (field_extents t) n of None \<Rightarrow> 0 | Some (off, _) \<Rightarrow> off)"

section \<open>The structures of the headers\<close>

definition mboot2_tag_s :: ctype where
  "mboot2_tag_s = CStruct True [(''type'', CU32), (''size'', CU32)]"

definition mboot2_begin_s :: ctype where
  "mboot2_begin_s = CStruct True [(''total_size'', CU32), (''reserved'', CU32), (''tags'', CArr mboot2_tag_s 0)]"

definition mboot2_tag_basic_meminfo_s :: ctype where
  "mboot2_tag_basic_meminfo_s = CStruct True [(''tag'', mboot2_tag_s), (''mem_lower'', CU32), (''mem_upper'', CU32)]"

definition mboot2_tag_module_s :: ctype where
  "mboot2_tag_module_s = CStruct True [(''tag'', mboot2_tag_s), (''mod_start'', CU32), (''mod_end'', CU32), (''name'', CArr CU8 0)]"

definition mboot2_mmap_entry_s :: ctype where
  "mboot2_mmap_entry_s = CStruct True [(''addr_low'', CU32), (''addr_high'', CU32), (''length_low'', CU32), (''length_high'', CU32),
     (''type'', CU32), (''zero'', CU32)]"

definition mboot2_tag_mmap_s :: ctype where
  "mboot2_tag_mmap_s = CStruct True [(''tag'', mboot2_tag_s), (''entry_size'', CU32), (''entry_version'', CU32),
     (''entries'', CArr mboot2_mmap_entry_s 0)]"

definition mboot2_tag_framebuffer_s :: ctype where
  "mboot2_tag_framebuffer_s = CStruct True [(''tag'', mboot2_tag_s), (''addr_low'', CU32), (''addr_high'', CU32), (''pitch'', CU32),
     (''width'', CU32), (''height'', CU32), (''bpp'', CU8), (''type'', CU8), (''reserved'', CU8)]"

text \<open>The two ACPI tags have the same fields.\<close>

definition mboot_tag_acpi_s :: ctype where
  "mboot_tag_acpi_s = CStruct True [(''tag'', mboot2_tag_s), (''rsdp'', CPtr)]"

definition acpi_header_s :: ctype where
  "acpi_header_s = CStruct False [(''signature'', CU32), (''length'', CU32), (''revision'', CU8), (''checksum'', CU8),
     (''oem_id'', CArr CU8 6), (''oem_tbl_id'', CArr CU8 8), (''oem_revision'', CU32), (''creator_id'', CU32), (''creator_revision'', CU32)]"

definition rsdt_s :: ctype where
  "rsdt_s = CStruct False [(''header'', acpi_header_s), (''sdt_entries'', CArr CU32 0)]"

definition xsdt_s :: ctype where
  "xsdt_s = CStruct False [(''header'', acpi_header_s), (''sdt_entries'', CArr CU64 0)]"

definition fadt_s :: ctype where
  "fadt_s = CStruct False [(''header'', acpi_header_s), (''firmware_control'', CU32), (''dsdt_address'', CU32), (''reserved'', CU8),
     (''preferred_pm_profile'', CU8), (''sci_int'', CU16), (''smi_cmd'', CU32), (''acpi_enable'', CU8), (''acpi_disable'', CU8),
     (''who_cares'', CArr CU8 (64 - 54)), (''pm1a_cnt_blk'', CU32), (''pm1b_cnt_blk'', CU32), (''who_cares2'', CArr CU8 (89 - 72)),
     (''pm1_cnt_length'', CU8)]"

definition tar_header_s :: ctype where
  "tar_header_s = CStruct False [(''name'', CArr CU8 100), (''mode'', CArr CU8 8), (''uid'', CArr CU8 8), (''gid'', CArr CU8 8),
     (''size'', CArr CU8 12), (''mtime'', CArr CU8 12), (''chksum'', CArr CU8 8), (''typeflag'', CU8), (''linkname'', CArr CU8 100),
     (''signature'', CArr CU8 6), (''version'', CArr CU8 2), (''user_name'', CArr CU8 32), (''group_name'', CArr CU8 32),
     (''device_major_number'', CArr CU8 8), (''device_minor_number'', CArr CU8 8), (''fprefix'', CArr CU8 155), (''reserved'', CArr CU8 12)]"

definition elf_header_s :: ctype where
  "elf_header_s = CStruct True [(''e_ident'', CArr CU8 16), (''e_type'', CU16), (''e_machine'', CU16), (''e_version'', CU32),
     (''e_entry'', CU32), (''e_phoff'', CU32), (''e_shoff'', CU32), (''e_flags'', CU32), (''e_ehsize'', CU16), (''e_phentsize'', CU16),
     (''e_phnum'', CU16), (''e_shentsize'', CU16), (''e_shnum'', CU16), (''e_shstrndx'', CU16)]"

definition elf_section_header_s :: ctype where
  "elf_section_header_s = CStruct True [(''sh_name'', CU32), (''sh_type'', CU32), (''sh_flags'', CU32), (''sh_addr'', CU32),
     (''sh_offset'', CU32), (''sh_size'', CU32), (''sh_link'', CU32), (''sh_info'', CU32), (''sh_addralign'', CU32), (''sh_entsize'', CU32)]"

definition elf_program_header_s :: ctype where
  "elf_program_header_s = CStruct True [(''p_type'', CU32), (''p_offset'', CU32), (''p_vaddr'', CU32), (''p_paddr'', CU32),
     (''p_filesz'', CU32), (''p_memsz'', CU32), (''p_flags'', CU32), (''p_align'', CU32)]"

definition regs_s :: ctype where
  "regs_s = CStruct False (map (\<lambda>n. (n, CU32)) [''gs'', ''fs'', ''es'', ''ds'', ''edi'', ''esi'', ''ebp'', ''esp'', ''ebx'', ''edx'',
     ''ecx'', ''eax'', ''int_no'', ''err_code'', ''eip'', ''cs'', ''eflags'', ''useresp'', ''ss''])"

definition context_s :: ctype where
  "context_s = CStruct False (map (\<lambda>n. (n, CU32)) [''edi'', ''esi'', ''ebx'', ''ebp'', ''eip'', ''eflags''])"

definition gdt_descr_s :: ctype where
  "gdt_descr_s = CStruct True [(''limit_low'', CU16), (''base_low'', CU16), (''base_middle'', CU8), (''access'', CU8),
     (''granularity'', CU8), (''base_high'', CU8)]"

definition gdt_ptr_s :: ctype where
  "gdt_ptr_s = CStruct True [(''limit'', CU16), (''base'', CU32)]"

definition idt_descr_s :: ctype where
  "idt_descr_s = CStruct True [(''base_low'', CU16), (''seg_sel'', CU16), (''zero'', CU8), (''flags'', CU8), (''base_high'', CU16)]"

definition idt_ptr_s :: ctype where
  "idt_ptr_s = CStruct True [(''limit'', CU16), (''base'', CU32)]"

text \<open>An unnamed bit-field of 16 bits fills the other half of the word of a segment selector.\<close>

definition selector_s :: "string \<Rightarrow> (string \<times> ctype) list" where
  "selector_s n = [(n, CU16), ('''', CU16)]"

definition tss_entry_s :: ctype where
  "tss_entry_s = CStruct True (selector_s ''prev_tss'' @ [(''esp0'', CU32)] @ selector_s ''ss0'' @ [(''esp1'', CU32)] @ selector_s ''ss1''
     @ [(''esp2'', CU32)] @ selector_s ''ss2'' @ map (\<lambda>n. (n, CU32)) [''cr3'', ''eip'', ''eflags'', ''eax'', ''ecx'', ''edx'', ''ebx'',
       ''esp'', ''ebp'', ''esi'', ''edi'']
     @ concat (map selector_s [''es'', ''cs'', ''ss'', ''ds'', ''fs'', ''gs'', ''ldt'']) @ [(''trace'', CU16), (''bitmap'', CU16)])"

definition Block_s :: ctype where
  "Block_s = CStruct False [(''size'', CU32), (''prev'', CPtr), (''next'', CPtr)]"

definition page_table_s :: ctype where
  "page_table_s = CStruct False [(''pages'', CArr CU32 1024)]"

definition page_directory_s :: ctype where
  "page_directory_s = CStruct False [(''tables'', CArr CU32 1024), (''ref_tables'', CArr CPtr 1024)]"

definition kernel_structs :: "ctype list" where
  "kernel_structs = [mboot2_tag_s, mboot2_begin_s, mboot2_tag_basic_meminfo_s, mboot2_tag_module_s, mboot2_mmap_entry_s, mboot2_tag_mmap_s,
     mboot2_tag_framebuffer_s, mboot_tag_acpi_s, acpi_header_s, rsdt_s, xsdt_s, fadt_s,
     tar_header_s, elf_header_s, elf_section_header_s, elf_program_header_s, regs_s, context_s, gdt_descr_s, gdt_ptr_s, idt_descr_s,
     idt_ptr_s, tss_entry_s, Block_s, page_table_s, page_directory_s]"

lemmas struct_defs = mboot2_tag_s_def mboot2_begin_s_def mboot2_tag_basic_meminfo_s_def mboot2_tag_module_s_def
  mboot2_mmap_entry_s_def mboot2_tag_mmap_s_def mboot2_tag_framebuffer_s_def mboot_tag_acpi_s_def acpi_header_s_def
  rsdt_s_def xsdt_s_def fadt_s_def tar_header_s_def elf_header_s_def elf_section_header_s_def elf_program_header_s_def regs_s_def
  context_s_def gdt_descr_s_def gdt_ptr_s_def idt_descr_s_def idt_ptr_s_def selector_s_def tss_entry_s_def Block_s_def page_table_s_def
  page_directory_s_def

section \<open>Fields do not overlap\<close>

lemma calign_pos: "0 < calign t" "0 < fields_align fs"
  by (induction t and fs rule: calign_fields_align.induct) auto

lemma round_up_ge: "0 < a \<Longrightarrow> n \<le> round_up a n"
proof -
  assume a: "0 < a"
  have "(n + a - 1) div a * a = n + a - 1 - (n + a - 1) mod a" by (simp add: minus_mod_eq_div_mult)
  moreover have "(n + a - 1) mod a < a" using a by simp
  ultimately show ?thesis unfolding round_up_def by linarith
qed

lemma place_ge: "off \<le> place p t off"
  using round_up_ge calign_pos by (simp add: place_def)

lemma fields_end_ge: "off \<le> fields_end p off fs"
proof (induction fs arbitrary: off)
  case (Cons f fs)
  then show ?case using place_ge [of off p "snd f"] by (cases f) (simp, meson add_leE le_trans)
qed simp

lemma extents_range: "(n, o1, z) \<in> set (extents p off fs) \<Longrightarrow> off \<le> o1 \<and> o1 + z \<le> fields_end p off fs"
proof (induction fs arbitrary: off)
  case (Cons f fs)
  obtain m t where f: "f = (m, t)" by (cases f)
  let ?e = "place p t off + csize t"
  have g: "off \<le> place p t off" "?e \<le> fields_end p ?e fs" using place_ge fields_end_ge by blast+
  from Cons.prems consider "o1 = place p t off" "z = csize t" | "(n, o1, z) \<in> set (extents p ?e fs)" by (auto simp: f Let_def)
  then show ?case
  proof cases
    case 2
    from Cons.IH [OF this] show ?thesis using g by (auto simp: f)
  qed (use g in \<open>simp add: f\<close>)
qed simp

lemma extents_disjoint: "sorted_wrt (\<lambda>(_, o1, z1) (_, o2, _). o1 + z1 \<le> o2) (extents p off fs)"
proof (induction fs arbitrary: off)
  case (Cons f fs)
  then show ?case using extents_range by (cases f) (auto simp: Let_def)
qed simp

lemma struct_extents:
  "sorted_wrt (\<lambda>(_, o1, z1) (_, o2, _). o1 + z1 \<le> o2) (field_extents t) \<and> list_all (\<lambda>(_, off, z). off + z \<le> csize t) (field_extents t)"
proof (cases t)
  case (CStruct p fs)
  have "fields_end p 0 fs \<le> csize t" using round_up_ge calign_pos(1) [of t] by (simp add: CStruct)
  then show ?thesis using extents_disjoint extents_range [of _ _ _ p 0 fs] by (fastforce simp: CStruct list_all_iff)
qed simp_all

section \<open>Reading a field\<close>

lemma word_of_load32: "word_of [m a, m (a + 1), m (a + 2), m (a + 3)] = load32 m a"
  by (simp add: word_of_def load32_def push_bit_or or.assoc)

lemma word_of_load16: "word_of [m a, m (a + 1)] = ucast (load16 m a)"
  by (simp add: word_of_def load16_def) (intro bit_eqI, auto simp: bit_simps dest: bit_imp_le_length)

lemma upt4: "[0..<4] = [0, 1, 2, 3 :: nat]" "[0..<2] = [0, 1 :: nat]"
  by (simp_all add: upt_rec)

lemma field_words:
  "word_of (map (\<lambda>i. m (p + of_nat (k + i))) [0..<4]) = load32 m (p + of_nat k)"
  "word_of (map (\<lambda>i. m (p + of_nat (k + i))) [0..<2]) = ucast (load16 m (p + of_nat k))"
  "word_of (map (\<lambda>i. m (p + of_nat (k + i))) [0..<1]) = ucast (m (p + of_nat k))"
  using word_of_load32 [of m "p + of_nat k"] word_of_load16 [of m "p + of_nat k"]
  by (simp_all add: upt4 ac_simps) (simp add: word_of_def)

lemma field_value:
  "word_of (field_bytes m p t n) = (case map_of (field_extents t) n of None \<Rightarrow> 0 | Some (k, z) \<Rightarrow>
     if z = 4 then load32 m (p + of_nat k) else if z = 2 then ucast (load16 m (p + of_nat k))
     else if z = 1 then ucast (m (p + of_nat k)) else word_of (map (\<lambda>i. m (p + of_nat (k + i))) [0..<z]))"
  using field_words by (auto simp: field_bytes_def word_of_def split: option.split simp del: upt_Suc)

text \<open>The readers of the other theories, each paired with the field it reads: the structure, the field's name, its
  value in the memory \<open>m\<close> with the structure at \<open>p\<close>.\<close>

definition readers :: "mem \<Rightarrow> ptr \<Rightarrow> (ctype \<times> string \<times> u32) list" where
  "readers m p =
     [(mboot2_tag_s, ''type'', tag_type m p), (mboot2_tag_s, ''size'', tag_size m p),
      (mboot2_tag_basic_meminfo_s, ''mem_lower'', load32 m (p + 8)), (mboot2_tag_basic_meminfo_s, ''mem_upper'', load32 m (p + 12)),
      (mboot2_tag_module_s, ''mod_start'', load32 m (p + 8)), (mboot2_tag_module_s, ''mod_end'', load32 m (p + 12)),
      (elf_header_s, ''e_type'', ucast (e_type m p)), (elf_header_s, ''e_machine'', ucast (e_machine m p)),
      (elf_header_s, ''e_phoff'', e_phoff m p), (elf_header_s, ''e_shoff'', e_shoff m p),
      (elf_header_s, ''e_phentsize'', ucast (e_phentsize m p)), (elf_header_s, ''e_phnum'', ucast (e_phnum m p)),
      (elf_header_s, ''e_shentsize'', ucast (e_shentsize m p)),
      (elf_program_header_s, ''p_type'', p_type m p), (elf_program_header_s, ''p_offset'', p_offset m p),
      (elf_program_header_s, ''p_vaddr'', p_vaddr m p), (elf_program_header_s, ''p_filesz'', p_filesz m p),
      (elf_program_header_s, ''p_memsz'', p_memsz m p),
      (acpi_header_s, ''signature'', load32 m p), (acpi_header_s, ''length'', table_length m p),
      (fadt_s, ''dsdt_address'', load32 m (p + 40)), (fadt_s, ''smi_cmd'', load32 m (p + 48)), (fadt_s, ''acpi_enable'', ucast (m (p + 52))),
      (fadt_s, ''acpi_disable'', ucast (m (p + 53))), (fadt_s, ''pm1a_cnt_blk'', load32 m (p + 64)),
      (fadt_s, ''pm1b_cnt_blk'', load32 m (p + 68)), (fadt_s, ''pm1_cnt_length'', ucast (m (p + 89))),
      (tar_header_s, ''typeflag'', ucast (m (p + 156))),
      (regs_s, ''ebx'', load32 m (regs_ebx p)), (regs_s, ''eax'', load32 m (regs_eax p)), (regs_s, ''int_no'', load32 m (regs_int_no p)),
      (regs_s, ''eip'', load32 m (regs_eip p))]"

lemma reader_extents:
  "map_of (field_extents mboot2_tag_s) ''type'' = Some (0, 4)"
  "map_of (field_extents mboot2_tag_s) ''size'' = Some (4, 4)"
  "map_of (field_extents mboot2_tag_basic_meminfo_s) ''mem_lower'' = Some (8, 4)"
  "map_of (field_extents mboot2_tag_basic_meminfo_s) ''mem_upper'' = Some (12, 4)"
  "map_of (field_extents mboot2_tag_module_s) ''mod_start'' = Some (8, 4)"
  "map_of (field_extents mboot2_tag_module_s) ''mod_end'' = Some (12, 4)"
  "map_of (field_extents elf_header_s) ''e_type'' = Some (16, 2)"
  "map_of (field_extents elf_header_s) ''e_machine'' = Some (18, 2)"
  "map_of (field_extents elf_header_s) ''e_phoff'' = Some (28, 4)"
  "map_of (field_extents elf_header_s) ''e_shoff'' = Some (32, 4)"
  "map_of (field_extents elf_header_s) ''e_phentsize'' = Some (42, 2)"
  "map_of (field_extents elf_header_s) ''e_phnum'' = Some (44, 2)"
  "map_of (field_extents elf_header_s) ''e_shentsize'' = Some (46, 2)"
  "map_of (field_extents elf_program_header_s) ''p_type'' = Some (0, 4)"
  "map_of (field_extents elf_program_header_s) ''p_offset'' = Some (4, 4)"
  "map_of (field_extents elf_program_header_s) ''p_vaddr'' = Some (8, 4)"
  "map_of (field_extents elf_program_header_s) ''p_filesz'' = Some (16, 4)"
  "map_of (field_extents elf_program_header_s) ''p_memsz'' = Some (20, 4)"
  "map_of (field_extents acpi_header_s) ''signature'' = Some (0, 4)"
  "map_of (field_extents acpi_header_s) ''length'' = Some (4, 4)"
  "map_of (field_extents fadt_s) ''dsdt_address'' = Some (40, 4)"
  "map_of (field_extents fadt_s) ''smi_cmd'' = Some (48, 4)"
  "map_of (field_extents fadt_s) ''acpi_enable'' = Some (52, 1)"
  "map_of (field_extents fadt_s) ''acpi_disable'' = Some (53, 1)"
  "map_of (field_extents fadt_s) ''pm1a_cnt_blk'' = Some (64, 4)"
  "map_of (field_extents fadt_s) ''pm1b_cnt_blk'' = Some (68, 4)"
  "map_of (field_extents fadt_s) ''pm1_cnt_length'' = Some (89, 1)"
  "map_of (field_extents tar_header_s) ''typeflag'' = Some (156, 1)"
  "map_of (field_extents regs_s) ''ebx'' = Some (32, 4)"
  "map_of (field_extents regs_s) ''eax'' = Some (44, 4)"
  "map_of (field_extents regs_s) ''int_no'' = Some (48, 4)"
  "map_of (field_extents regs_s) ''eip'' = Some (56, 4)"
  by code_simp+


end
