(* ===== verification/Kmain.thy ===== *)
theory Kmain
  imports Boot Cpuid Mount
begin

unbundle bit_operations_syntax

text \<open>
  \<open>kernel_main\<close> of kernel/kernel.c as one function: up to the drivers in \<open>kernel_core\<close>, the file systems, the
  system calls and the first task in \<open>kernel_services\<close>, with the lines each part logs; then \<open>stage2\<close>, which the first
  task runs. What the linker, the loader, the processor and the heap provide is in \<open>boot_env\<close>. The file systems work
  on the memory, clock and serial line of the machine. Lines that a call prints before it panics or hangs are
  not part of the result, and neither is the line for an archive member of another type.
\<close>

section \<open>The whole start-up\<close>

record boot_env =
  env_hw :: hardware
  env_cpuid :: cpuid_t
  env_fninit :: fpu_image
  env_km :: kmalloc_t
  env_info :: mem
  env_kernel_end :: u32
  env_gdt :: u32
  env_idt :: u32
  env_tss :: u32
  env_stub :: "nat \<Rightarrow> u32"
  env_vfs :: "ptr \<times> ptr"
  env_devfs :: "ptr \<times> ptr \<times> ptr"
  env_devices :: "(ptr \<times> ptr) \<times> (ptr \<times> ptr) \<times> (ptr \<times> ptr) \<times> (ptr \<times> ptr)"
  env_tarfs :: "ptr \<times> ptr \<times> ptr"
  env_entries :: "u32 \<Rightarrow> ptr \<times> ptr"
  env_task :: "ptr \<times> ptr \<times> ptr \<times> ptr \<times> ptr"
  env_stage2 :: u32

definition start_serial :: "boot_env \<Rightarrow> machine \<Rightarrow> machine" where
  "start_serial env m =
     (let (ok, _) = port_enable (env_hw env) PORT_COM1 (m_io m);
          (t, h) = serial_init (env_hw env) (handlers m) (m_io m);
          m = set_handlers t (m\<lparr>m_io := h\<rparr>)
      in if ok then log_line LOG_OK ''Serial Port(s) initialized'' m else log_line LOG_ERR ''COM1 initialization failed'' m)"

definition load_tables :: "boot_env \<Rightarrow> machine \<Rightarrow> machine" where
  "load_tables env m =
     (let c = gdt_init (env_gdt env) (tcpu (ms m));
          (c, h) = idt_init (env_idt env) (env_stub env) c (m_io m);
          c = tss_init (env_tss env) 5 0x10 0 c
      in m\<lparr>ms := (ms m)\<lparr>tcpu := c\<rparr>, m_io := h\<rparr>)"

definition print_cpu :: "boot_env \<Rightarrow> kerr + con_action list" where
  "print_cpu env = cat (map_sum id snd (print_cpu_vendor (env_cpuid env))) (print_cpu_features (env_cpuid env))"

text \<open>What the memory managers print: the sizes from the loader's tag and a line for each manager.\<close>

definition report_memory :: "mem \<Rightarrow> ptr \<Rightarrow> machine \<Rightarrow> machine" where
  "report_memory info mi m =
     (let m = printed (kprintf (Some (''Low Memory size: %dkb'' @ [CHR 0x0A])) [VInt (load32 info (mi + 8))]) m;
          m = printed (kprintf (Some (''High Memory size: %dkb'' @ [CHR 0x0A])) [VInt (load32 info (mi + 12))]) m
      in log_line LOG_OK ''Kernel Heap initialized'' (log_line LOG_OK ''Virtual Memory Manager initialized''
           (log_line LOG_OK ''Physical Memory Manager initialized'' m)))"

text \<open>\<open>Stopped\<close> is a return after a message; \<open>Started a e\<close> carries the bounds of the module.\<close>

datatype core_result = Stopped machine | Started u32 u32 machine

definition kernel_core :: "boot_env \<Rightarrow> u32 \<Rightarrow> ptr \<Rightarrow> machine \<Rightarrow> (kerr + core_result) option" where
  "kernel_core env magic mb2 m =
     (let m = start_serial env (m\<lparr>m_con := m_con m @ [Vga_clear, Vga_set_color VGA_COLOR_WHITE VGA_COLOR_BLACK]\<rparr>)
      in Option.bind (check_boot_info (env_info env) magic mb2 (0, 0)) (\<lambda>c.
           case c of
             Not_multiboot2 \<Rightarrow> Some (Inr (Stopped (log_line LOG_ERR ''Multiboot2 compatible bootloader not detected'' m)))
           | Unaligned_info \<Rightarrow> Some (Inr (Stopped (log_line LOG_ERR ''Multiboot2 info unaligned'' m)))
           | Module_at a e \<Rightarrow>
               let m = load_tables env m
               in case print_cpu env of
                    Inl x \<Rightarrow> Some (Inl x)
                  | Inr out \<Rightarrow>
                      let m = m\<lparr>m_con := m_con m @ out\<rparr>
                      in Option.bind (init_memory (env_kernel_end env) (env_km env) (env_info env) mb2 (tvm (ms m))) (\<lambda>r.
                           case r of
                             Inl x \<Rightarrow> Some (Inl x)
                           | Inr v \<Rightarrow>
                               Option.bind (mboot2_find_tag (env_info env) mb2 MBOOT2_TAG_BASIC_MEMINFO) (\<lambda>mi.
                                 Some (map_sum id (Started a e)
                                   (init_drivers (env_hw env) (check_edx_feature (env_cpuid env) 1 \<noteq> 0) (env_fninit env)
                                     (report_memory (env_info env) mi (m\<lparr>ms := (ms m)\<lparr>tvm := v\<rparr>\<rparr>))))))))"

text \<open>The file systems see the machine's memory, clock and devices.\<close>

definition fs_view :: "machine \<Rightarrow> fsys \<Rightarrow> fsys" where
  "fs_view m f = f\<lparr>fmem := kmem (tvm (ms m)), fclock := m_time m, fserial := m_serial m, fio := m_io m\<rparr>"

definition fs_write_back :: "fsys \<Rightarrow> machine \<Rightarrow> machine" where
  "fs_write_back f m = m\<lparr>ms := upd_mem (\<lambda>_. fmem f) (ms m), m_serial := fserial f, m_io := fio f\<rparr>"

definition mount_all :: "boot_env \<Rightarrow> u32 \<Rightarrow> u32 \<Rightarrow> fsys \<Rightarrow> (kerr + fsys) option" where
  "mount_all env a e f =
     (let (vn, vl) = env_vfs env; (dn, dc, dl) = env_devfs env; (tn, tl, tc) = env_tarfs env
      in Option.bind (devfs_init dn dc dl (env_devices env) (vfs_init vn vl f)) (\<lambda>f.
           tarfs_init tn tl tc (env_entries env) a e f))"

definition kernel_services :: "boot_env \<Rightarrow> u32 \<Rightarrow> u32 \<Rightarrow> machine \<times> fsys \<Rightarrow> (kerr + machine \<times> fsys) option" where
  "kernel_services env a e mf =
     (let (m, f) = mf;
          m = log_line LOG_OK ''Mounting ramdisk at /initrd'' (log_line LOG_OK ''Initializing devFS''
                (log_line LOG_OK ''Initializing VFS structures'' m))
      in Option.bind (mount_all env a e (fs_view m f)) (\<lambda>r.
           case r of
             Inl x \<Rightarrow> Some (Inl x)
           | Inr f \<Rightarrow>
               let m = log_line LOG_OK ''Initializing multitasking'' (syscalls_init (fs_write_back f m));
                   (lst, t, pd, stk, cell) = env_task env
               in map_option (map_sum id (\<lambda>(_, s). (m\<lparr>ms := s\<rparr>, f)))
                    (multitasking_init (env_km env) lst t pd stk cell (env_stage2 env) (ms m))))"

definition kernel_main :: "boot_env \<Rightarrow> u32 \<Rightarrow> ptr \<Rightarrow> machine \<times> fsys \<Rightarrow> (kerr + machine \<times> fsys) option" where
  "kernel_main env magic mb2 mf =
     Option.bind (kernel_core env magic mb2 (fst mf)) (\<lambda>r.
       case r of
         Inl x \<Rightarrow> Some (Inl x)
       | Inr (Stopped m) \<Rightarrow> Some (Inr (m, snd mf))
       | Inr (Started a e m) \<Rightarrow> kernel_services env a e (m, snd mf))"

section \<open>The first task\<close>

definition welecome_banner :: string where
  "welecome_banner = concat (map (\<lambda>l. l @ [CHR 0x0A])
     ['''', ''Welecome to:'',
      ''         _                        ___    _____    '',
      ''        (_)                      /   '' @ [CHR 0x5C] @ ''  / ____|  '',
      ''  _ __   _   __ _   __ _  _   _ |     || (___     '',
      '' | '' @ [CHR 0x27] @ ''_ '' @ [CHR 0x5C] @ '' | | / _'' @ [CHR 0x60] @ '' | / _'' @ [CHR 0x60] @ '' || | | || | | | ''
        @ [CHR 0x5C] @ ''___ '' @ [CHR 0x5C] @ '' '',
      '' | |_) || || (_| || (_| || |_| ||     | ____) |   '',
      '' | .__/ |_| '' @ [CHR 0x5C] @ ''__, | '' @ [CHR 0x5C] @ ''__, | '' @ [CHR 0x5C] @ ''__, | '' @ [CHR 0x5C] @ ''___/ |_____/'',
      '' | |         __/ |  __/ |  __/ |                  '',
      '' |_|        |___/  |___/  |___/                   '',
      replicate 4 (CHR 0x09) @ ''By: James Steffes''])"

text \<open>What \<open>stage2\<close> does before it idles; the loop after it only halts until the next interrupt.\<close>

definition stage2 :: "machine \<Rightarrow> machine" where
  "stage2 m = printed (kprintf (Some (''%s'' @ replicate 4 (CHR 0x09) @ ''Version %d.%d (%s)'' @ [CHR 0x0A]))
       [VStr welecome_banner, VInt 1, VInt 0, VStr ''kerplunk''])
     (m\<lparr>m_con := m_con m @ [Vga_set_color VGA_COLOR_PINK VGA_COLOR_BLACK]\<rparr>)"

section \<open>What each part leaves alone\<close>

lemma kprintf_prints:
  "list_all piece_ok ps \<Longrightarrow> f = concat (map piece_fmt ps) \<Longrightarrow> ap = concat (map piece_args ps) \<Longrightarrow> \<exists>out. kprintf (Some f) ap = Inr (1, out)"
  using kprintf_pieces by blast

lemma cat_ok: "(\<exists>x. a = Inr x) \<Longrightarrow> (\<exists>y. b = Inr y) \<Longrightarrow> \<exists>z. cat a b = Inr z"
  by (auto simp: cat_def)

lemma print_flags_ok:
  assumes "\<forall>i < 31. bit w i \<longrightarrow> i < length tbl"
  shows "\<exists>out. print_flags tbl w = Inr out"
proof -
  have "\<exists>out. print_flag tbl w i = Inr out" if "i < 31" for i
    using assms that kprintf_prints [of "[PStr (tbl ! i), PLit '' '']", OF _ refl refl] by (auto simp: print_flag_def flag_name_def)
  then have l: "set is \<subseteq> {..<31} \<Longrightarrow> \<exists>out. foldr (\<lambda>i. cat (print_flag tbl w i)) is (Inr []) = Inr out" for "is"
    by (induction "is") (auto intro!: cat_ok)
  show ?thesis unfolding print_flags_def by (rule l) auto
qed

text \<open>The processor is described unless it reports the one feature without a name.\<close>

lemma print_cpu_ok:
  assumes "env_cpuid env 1 = (eax, ebx, ecx, edx)" and "\<not> bit edx 30"
  shows "\<exists>out. print_cpu env = Inr out"
proof -
  have e: "\<exists>out. print_flags edx_feature_flags edx = Inr out"
  proof (rule print_flags_ok, intro allI impI)
    fix i assume "i < (31 :: nat)" "bit edx i"
    then have "i \<noteq> 30" using assms(2) by auto
    then show "i < length edx_feature_flags" using \<open>i < 31\<close> by (simp add: edx_feature_flags_def)
  qed
  have c: "\<exists>out. print_flags ecx_feature_flags ecx = Inr out"
    by (rule print_flags_ok) (simp add: ecx_feature_flags_def)
  have lit: "\<exists>x. map_sum id snd (kprintf (Some s) []) = Inr x" if "CHR ''%'' \<notin> set s" for s
    using kprintf_prints [of "[PLit s]" s "[]"] that by auto
  have v: "\<exists>x. map_sum id snd (print_cpu_vendor (env_cpuid env)) = Inr x"
    using kprintf_prints [of "[PLit ''CPU vendor: '', PStr (vendor_string (env_cpuid env)), PLit [CHR 0x0A]]", OF _ refl refl]
    by (auto simp: print_cpu_vendor_def)
  have "\<exists>x. print_cpu_features (env_cpuid env) = Inr x"
    unfolding print_cpu_features_def assms(1) by (auto intro!: cat_ok lit e c)
  then show ?thesis unfolding print_cpu_def by (intro cat_ok v)
qed

lemma start_serial_keeps: "\<exists>t. ms (start_serial env m) = (ms m)\<lparr>tvm := (tvm (ms m))\<lparr>interrupt_handlers := t\<rparr>\<rparr>"
  by (auto simp: start_serial_def set_handlers_def Let_def split: prod.splits)

lemma load_tables_keeps: "\<exists>c. ms (load_tables env m) = (ms m)\<lparr>tcpu := c\<rparr>"
  by (auto simp: load_tables_def Let_def split: prod.splits)

lemma load_tables_gates:
  "unat v < 48 \<or> v = 127 \<Longrightarrow> gate_base (idt (tcpu (ms (load_tables env m))) v) = env_stub env (unat v)"
  "interrupts_on (tcpu (ms (load_tables env m)))"
proof -
  obtain c h where i: "idt_init (env_idt env) (env_stub env) (gdt_init (env_gdt env) (tcpu (ms m))) (m_io m) = (c, h)" by fastforce
  have c: "idt (tcpu (ms (load_tables env m))) = idt c" "interrupts_on (tcpu (ms (load_tables env m))) = interrupts_on c"
    by (simp_all add: load_tables_def i tss_init_def gdt_set_descr_def Let_def)
  show "interrupts_on (tcpu (ms (load_tables env m)))" using idt_init_gates [OF i] c by simp
  show "gate_base (idt (tcpu (ms (load_tables env m))) v) = env_stub env (unat v)" if "unat v < 48 \<or> v = 127"
    using idt_init_gates [OF i] that c by presburger
qed

lemma report_memory_keeps [simp]: "ms (report_memory info mi m) = ms m"
  by (simp add: report_memory_def Let_def)

lemma fpu_init_keeps:
  "\<exists>t x y. ms (fpu_init b fi m) = (ms m)\<lparr>tvm := (tvm (ms m))\<lparr>interrupt_handlers := t, cr0 := x, cr4 := y\<rparr>\<rparr>"
proof (cases b)
  case False
  then have "ms (fpu_init b fi m) = ms m" by (simp add: fpu_init_def Let_def)
  also have "ms m = (ms m)\<lparr>tvm := (tvm (ms m))\<lparr>interrupt_handlers := handlers m, cr0 := cr0 (tvm (ms m)), cr4 := cr4 (tvm (ms m))\<rparr>\<rparr>" by simp
  finally show ?thesis by blast
qed (auto simp: fpu_init_def Let_def)

lemma init_drivers_keeps:
  assumes "init_drivers hw b fi m = Inr m'"
  shows "\<exists>t x y. ms m' = (ms m)\<lparr>tvm := (tvm (ms m))\<lparr>interrupt_handlers := t, cr0 := x, cr4 := y\<rparr>\<rparr>"
proof -
  obtain t dt h where m': "ms m' = ms (set_handlers t ((fpu_init b fi m)\<lparr>m_time := dt, m_io := h\<rparr>))"
    using assms by (auto simp: init_drivers_def Let_def split: sum.splits prod.splits)
  obtain t2 x y where f: "ms (fpu_init b fi m) = (ms m)\<lparr>tvm := (tvm (ms m))\<lparr>interrupt_handlers := t2, cr0 := x, cr4 := y\<rparr>\<rparr>"
    using fpu_init_keeps by blast
  have "ms m' = (ms m)\<lparr>tvm := (tvm (ms m))\<lparr>interrupt_handlers := t, cr0 := x, cr4 := y\<rparr>\<rparr>"
    unfolding m' by (simp add: set_handlers_def f)
  then show ?thesis by blast
qed

section \<open>What is printed\<close>

definition log_text :: "status \<Rightarrow> string \<Rightarrow> string" where
  "log_text st t = ''[ '' @ (case st of LOG_OK \<Rightarrow> ''OK'' | LOG_ERR \<Rightarrow> ''ERROR'' | LOG_WARN \<Rightarrow> ''WARNING'') @ '' ] '' @ t @ [CHR 0x0A]"

lemma vga_text_prefix: "vga_text (klog_prefix st) = ''[ '' @ (case st of LOG_OK \<Rightarrow> ''OK'' | LOG_ERR \<Rightarrow> ''ERROR'' | LOG_WARN \<Rightarrow> ''WARNING'') @ '' ] ''"
  by (cases st) (simp_all add: klog_prefix_def vga_puts_out_def serial_puts_out_def)

lemma log_line_text [simp]:
  "CHR ''%'' \<notin> set t \<Longrightarrow> vga_text (m_con (log_line st t m)) = vga_text (m_con m) @ log_text st t"
  by (simp add: log_line_con vga_text_prefix log_text_def con_putc_def)

lemma printed_pieces:
  assumes "list_all piece_ok ps" and "f = concat (map piece_fmt ps)" and "ap = concat (map piece_args ps)"
  shows "vga_text (m_con (printed (kprintf (Some f) ap) m)) = vga_text (m_con m) @ concat (map piece_text ps)"
  using kprintf_pieces [OF assms(1)] assms(2,3) by (auto simp: printed_def)

lemma set_handlers_con [simp]: "m_con (set_handlers t m) = m_con m"
  by (simp add: set_handlers_def)

lemma load_tables_con [simp]: "m_con (load_tables env m) = m_con m"
  by (simp add: load_tables_def Let_def split: prod.splits)

definition serial_text_line :: "boot_env \<Rightarrow> io \<Rightarrow> string" where
  "serial_text_line env h =
     (if fst (port_enable (env_hw env) PORT_COM1 h) then log_text LOG_OK ''Serial Port(s) initialized''
      else log_text LOG_ERR ''COM1 initialization failed'')"

lemma start_serial_text: "vga_text (m_con (start_serial env m)) = vga_text (m_con m) @ serial_text_line env (m_io m)"
  by (simp add: start_serial_def serial_text_line_def Let_def split: prod.splits)

definition memory_text :: "mem \<Rightarrow> ptr \<Rightarrow> string" where
  "memory_text info mi = ''Low Memory size: '' @ projr (itoa_s (load32 info (mi + 8)) 10) @ ''kb'' @ [CHR 0x0A]
     @ ''High Memory size: '' @ projr (itoa_s (load32 info (mi + 12)) 10) @ ''kb'' @ [CHR 0x0A]
     @ log_text LOG_OK ''Physical Memory Manager initialized'' @ log_text LOG_OK ''Virtual Memory Manager initialized''
     @ log_text LOG_OK ''Kernel Heap initialized''"

lemma report_memory_text: "vga_text (m_con (report_memory info mi m)) = vga_text (m_con m) @ memory_text info mi"
proof -
  have "vga_text (m_con (printed (kprintf (Some (l @ ''%dkb'' @ [CHR 0x0A])) [VInt v]) m)) = vga_text (m_con m) @ l @ projr (itoa_s v 10) @ ''kb'' @ [CHR 0x0A]"
    if "CHR ''%'' \<notin> set l" for l v m
    using printed_pieces [of "[PLit l, PDec v, PLit (''kb'' @ [CHR 0x0A])]" "l @ ''%dkb'' @ [CHR 0x0A]" "[VInt v]" m] that by simp
  from this [of "''Low Memory size: ''"] this [of "''High Memory size: ''"] show ?thesis
    by (simp add: report_memory_def memory_text_def Let_def)
qed

definition drivers_text :: "bool \<Rightarrow> string" where
  "drivers_text fp = log_text LOG_OK ''Enabling floating-point unit'' @ (if fp then [] else log_text LOG_ERR ''Builtin FPU not present'')
     @ log_text LOG_OK ''PIT initialized'' @ log_text LOG_OK ''PS/2 Keyboard device initialized'' @ log_text LOG_OK ''RTC initialized''"

lemma fpu_init_text: "vga_text (m_con (fpu_init fp fi m)) = vga_text (m_con m) @ log_text LOG_OK ''Enabling floating-point unit''
    @ (if fp then [] else log_text LOG_ERR ''Builtin FPU not present'')"
  using log_line_text [of "''Enabling floating-point unit''" LOG_OK] log_line_text [of "''Builtin FPU not present''" LOG_ERR]
  by (simp add: fpu_init_def Let_def log_line_def)

lemma init_drivers_text: "init_drivers hw fp fi m = Inr m' \<Longrightarrow> vga_text (m_con m') = vga_text (m_con m) @ drivers_text fp"
  by (auto simp: init_drivers_def drivers_text_def fpu_init_text Let_def split: sum.splits prod.splits)

section \<open>The core\<close>

text \<open>
  What the loader has to pass: aligned information with a list of tags that ends, the size of memory in whole groups of
  32 blocks and at least 3074 of them, and modules and kernel image below \<open>c\<close>. And what the kernel's data holds
  before it runs.
\<close>

definition loader_ok :: "mem \<Rightarrow> u32 \<Rightarrow> ptr \<Rightarrow> u32 \<Rightarrow> ptr list \<Rightarrow> ptr \<Rightarrow> bool" where
  "loader_ok info kend mb2 c ts mi \<longleftrightarrow> mb2 AND 7 = 0 \<and> tag_list info (mb2 + 8) ts \<and> tag_type info (mb2 + 8) \<noteq> MBOOT2_TAG_END
     \<and> find (\<lambda>t. tag_type info t = MBOOT2_TAG_BASIC_MEMINFO) ts = Some mi
     \<and> (\<forall>e \<in> set (kend # module_ends info ts). e \<le> c)
     \<and> 32 dvd unat ((load32 info (mi + 8) + load32 info (mi + 12)) * 1024 div 4096)
     \<and> 3074 \<le> unat ((load32 info (mi + 8) + load32 info (mi + 12)) * 1024 div 4096)"

definition cold :: "kstate \<Rightarrow> bool" where
  "cold s \<longleftrightarrow> bitmap_addr (pmm_st s) = 0 \<and> used_blocks (pmm_st s) = 0 \<and> \<not> kheap_enabled s \<and> \<not> paging_enabled s"

definition core_text :: "boot_env \<Rightarrow> ptr \<Rightarrow> io \<Rightarrow> string" where
  "core_text env mi h = serial_text_line env h @ vga_text (projr (print_cpu env)) @ memory_text (env_info env) mi
     @ drivers_text (check_edx_feature (env_cpuid env) 1 \<noteq> 0)"

definition vectors_ready :: "boot_env \<Rightarrow> machine \<Rightarrow> bool" where
  "vectors_ready env m \<longleftrightarrow> (\<forall>v. unat v < 48 \<or> v = 127 \<longrightarrow> gate_base (idt (tcpu (ms m)) v) = env_stub env (unat v))
     \<and> interrupts_on (tcpu (ms m))
     \<and> map (handlers m) [14, 32, 33, 40] = [Some Page_fault, Some Timer_irq_handler, Some Keyboard_irq_handler, Some Rtc_irq_handler]
     \<and> (check_edx_feature (env_cpuid env) 1 \<noteq> 0 \<longrightarrow> handlers m 7 = Some Fpu_exception_handler)"

lemma find_meminfo: "loader_ok info kend mb2 c ts mi \<Longrightarrow> mboot2_find_tag info mb2 MBOOT2_TAG_BASIC_MEMINFO = Some mi"
  using find_tag_loop_list [of info "mb2 + 8" ts MBOOT2_TAG_BASIC_MEMINFO] by (simp add: loader_ok_def mboot2_find_tag_def)

text \<open>The memory managers on the machine that \<open>load_tables\<close> left.\<close>

lemma init_memory_cold:
  assumes "loader_ok info kend mb2 c ts mi" and "c \<le> 0x10000000" and "cold s"
  shows "\<exists>v. init_memory kend km info mb2 (s\<lparr>interrupt_handlers := t\<rparr>) = Some (Inr v)
    \<and> (\<forall>va. KERN_BASE \<le> va \<and> va < KERN_BASE + 12 * M \<longrightarrow> virt2phys v (kernel_page_dir v) va = va - KERN_BASE)
    \<and> interrupt_handlers v = t(14 := Some Page_fault) \<and> current_page_dir v = kernel_page_dir v \<and> kmem v = kmem s
    \<and> unat (kernel_page_dir v) < 0xc0021003 + unat c \<and> heap_start v = KERN_BASE + 4 * M \<and> heap_end v = KERN_BASE + 12 * M"
proof -
  let ?s = "s\<lparr>interrupt_handlers := t\<rparr>"
  have l: "tag_list info (mb2 + 8) ts" "tag_type info (mb2 + 8) \<noteq> MBOOT2_TAG_END"
      "find (\<lambda>t. tag_type info t = MBOOT2_TAG_BASIC_MEMINFO) ts = Some mi" "\<forall>e \<in> set (kend # module_ends info ts). e \<le> c"
      "32 dvd unat ((load32 info (mi + 8) + load32 info (mi + 12)) * 1024 div 4096)"
      "3074 \<le> unat ((load32 info (mi + 8) + load32 info (mi + 12)) * 1024 div 4096)"
    using assms(1) unfolding loader_ok_def by blast+
  have f: "bitmap_addr (pmm_st ?s) = 0" "used_blocks (pmm_st ?s) = 0" "\<not> kheap_enabled ?s" "\<not> paging_enabled ?s"
    using assms(3) by (simp_all add: cold_def)
  let ?h = "kheap_init (KERN_BASE + 0x00400000) (KERN_BASE + 0x00400000 + 8 * M) (KERN_BASE + 0x0FFFFFFF)"
  obtain s1 where s1: "init_memory kend km info mb2 ?s = Some (Inr (?h s1))"
      "\<forall>va. KERN_BASE \<le> va \<and> va < KERN_BASE + 12 * M \<longrightarrow> virt2phys s1 (kernel_page_dir s1) va = va - KERN_BASE"
      "interrupt_handlers s1 = t(14 := Some Page_fault)" "current_page_dir s1 = kernel_page_dir s1" "kmem s1 = kmem s"
      "unat (kernel_page_dir s1) < 0xc0021003 + unat c"
    using init_memory_ok [OF l(1-4) assms(2) l(5,6) f, of km] by auto
  have k: "kernel_page_dir (?h s1) = kernel_page_dir s1" "interrupt_handlers (?h s1) = interrupt_handlers s1"
      "current_page_dir (?h s1) = current_page_dir s1" "kmem (?h s1) = kmem s1" "heap_start (?h s1) = KERN_BASE + 4 * M"
      "heap_end (?h s1) = KERN_BASE + 12 * M"
    by (simp_all add: kheap_init_def)
  show ?thesis using s1(2) by (intro exI [of _ "?h s1"]) (simp only: k s1(1,3,4,5,6) kheap_init_virt2phys simp_thms)
qed

lemma kernel_core_ready:
  assumes "loader_ok (env_info env) (env_kernel_end env) mb2 c ts mi" and "c \<le> 0x10000000" and "cold (tvm (ms m))"
    and "env_cpuid env 1 = (eax, ebx, ecx, edx)" and "\<not> bit edx 30"
    and "module_bounds_loop (env_info env) (mb2 + 8) (0, 0) = Some (a, e)"
  shows "\<exists>m' cp v. kernel_core env MBOOT2_MAGIC mb2 m = Some (Inr (Started a e m')) \<and> vectors_ready env m'
    \<and> (\<forall>va. KERN_BASE \<le> va \<and> va < KERN_BASE + 12 * M \<longrightarrow> virt2phys v (kernel_page_dir v) va = va - KERN_BASE)
    \<and> heap_start v = KERN_BASE + 4 * M \<and> heap_end v = KERN_BASE + 12 * M
    \<and> ms m' = (ms m)\<lparr>tcpu := cp, tvm := v\<rparr> \<and> kmem v = kmem (tvm (ms m)) \<and> current_page_dir v = kernel_page_dir v
    \<and> unat (kernel_page_dir v) < 0xc0021003 + unat c
    \<and> vga_text (m_con m') = vga_text (m_con m) @ core_text env mi (m_io m)"
proof -
  let ?m0 = "m\<lparr>m_con := m_con m @ [Vga_clear, Vga_set_color VGA_COLOR_WHITE VGA_COLOR_BLACK]\<rparr>"
  let ?m1 = "start_serial env ?m0"
  let ?m2 = "load_tables env ?m1"
  let ?fpu = "check_edx_feature (env_cpuid env) 1 \<noteq> 0"
  obtain t where t: "ms ?m1 = (ms m)\<lparr>tvm := (tvm (ms m))\<lparr>interrupt_handlers := t\<rparr>\<rparr>" using start_serial_keeps [of env ?m0] by auto
  obtain cp where cp: "ms ?m2 = (ms ?m1)\<lparr>tcpu := cp\<rparr>" using load_tables_keeps by blast
  have ck: "check_boot_info (env_info env) MBOOT2_MAGIC mb2 (0, 0) = Some (Module_at a e)"
    using assms(1,6) by (simp add: check_boot_info_def loader_ok_def)
  obtain out where out: "print_cpu env = Inr out" using print_cpu_ok [OF assms(4,5)] by blast
  obtain v where v: "init_memory (env_kernel_end env) (env_km env) (env_info env) mb2 (tvm (ms ?m2)) = Some (Inr v)"
      "\<forall>va. KERN_BASE \<le> va \<and> va < KERN_BASE + 12 * M \<longrightarrow> virt2phys v (kernel_page_dir v) va = va - KERN_BASE"
      "interrupt_handlers v = t(14 := Some Page_fault)" "current_page_dir v = kernel_page_dir v" "kmem v = kmem (tvm (ms m))"
      "unat (kernel_page_dir v) < 0xc0021003 + unat c" "heap_start v = KERN_BASE + 4 * M" "heap_end v = KERN_BASE + 12 * M"
    using init_memory_cold [OF assms(1-3), of "env_km env" t] by (auto simp: cp t)
  let ?m3 = "report_memory (env_info env) mi (?m2\<lparr>m_con := m_con ?m2 @ out, ms := (ms ?m2)\<lparr>tvm := v\<rparr>\<rparr>)"
  obtain m' where d: "init_drivers (env_hw env) ?fpu (env_fninit env) ?m3 = Inr m'"
      "handlers (syscalls_init m') = (\<lambda>v. if v = 32 then Some Timer_irq_handler else if v = 33 then Some Keyboard_irq_handler
          else if v = 40 then Some Rtc_irq_handler else if v = 127 then Some Syscall_dispatcher
          else if v = 7 \<and> ?fpu then Some Fpu_exception_handler else handlers ?m3 v)"
    using init_drivers_handlers by blast
  have core: "kernel_core env MBOOT2_MAGIC mb2 m = Some (Inr (Started a e m'))"
    using ck out v(1) d(1) find_meminfo [OF assms(1)] by (simp add: kernel_core_def Let_def)
  obtain t2 x y where k: "ms m' = (ms ?m3)\<lparr>tvm := v\<lparr>interrupt_handlers := t2, cr0 := x, cr4 := y\<rparr>\<rparr>"
    using init_drivers_keeps [OF d(1)] by auto
  let ?v = "v\<lparr>interrupt_handlers := t2, cr0 := x, cr4 := y\<rparr>"
  have mm: "ms m' = (ms m)\<lparr>tcpu := cp, tvm := ?v\<rparr>" by (simp add: k cp t)
  have hs: "handlers m' u = handlers (syscalls_init m') u" if "u \<noteq> 127" for u using that by (simp add: syscalls_init_handlers)
  have "vectors_ready env m'"
    using load_tables_gates(1) [of _ env ?m1] load_tables_gates(2) [of env ?m1] v(3) by (simp add: vectors_ready_def hs d(2) cp) (simp add: mm cp)
  moreover have "virt2phys ?v (kernel_page_dir ?v) va = virt2phys v (kernel_page_dir v) va" for va by (simp add: virt2phys_def Let_def)
  moreover have "vga_text (m_con m') = vga_text (m_con m) @ core_text env mi (m_io m)"
    using init_drivers_text [OF d(1)] by (simp add: report_memory_text start_serial_text core_text_def out)
  ultimately show ?thesis using core mm v(2,4-8) by (intro exI [of _ m'] exI [of _ cp] exI [of _ ?v]) simp
qed

section \<open>The services and the first task\<close>

definition services_text :: string where
  "services_text = concat (map (log_text LOG_OK) [''Initializing VFS structures'', ''Initializing devFS'', ''Mounting ramdisk at /initrd'',
     ''Initializing syscall handler'', ''Initializing multitasking''])"

definition mount_addresses :: "boot_env \<Rightarrow> ptr \<Rightarrow> ptr \<Rightarrow> nat \<Rightarrow> bool" where
  "mount_addresses env dn tn n \<longleftrightarrow>
     (case (env_vfs env, env_devfs env, env_tarfs env) of
        ((vn, rl), (d, dc, dl), (t, l, tc)) \<Rightarrow> d = dn \<and> t = tn
          \<and> fresh_mount (vn # dn # tn # map snd (four_devices (env_devices env))) (dc # tc # device_cells (env_devices env)) [rl, dl, l] (env_entries env) n)"

lemma mount_all_ok:
  assumes "mount_addresses env dn tn (length hs)" and "rootfs_lock s = 0" and "devfs_lock s = 0" and "root_files s = 0"
    and "tar_archive (fmem s) a e hs" and "length hs \<le> 64" and "tar_files (fmem s) hs nm"
  shows "\<exists>s'. mount_all env a e s = Some (Inr s') \<and> fmem s' = fmem s
    \<and> (\<forall>name. \<exists>p s''. finddir_fs (get_fs_root s') name s' = Some (p, s'')
         \<and> (if p = NULL then None else Some p) = map_of [(''initrd'', tn), (''dev'', dn)] name)"
proof -
  obtain vn rl dc dl l tc where e: "env_vfs env = (vn, rl)" "env_devfs env = (dn, dc, dl)" "env_tarfs env = (tn, l, tc)"
      "fresh_mount (vn # dn # tn # map snd (four_devices (env_devices env))) (dc # tc # device_cells (env_devices env)) [rl, dl, l] (env_entries env) (length hs)"
    using assms(1) by (auto simp: mount_addresses_def split: prod.splits)
  obtain s1 s' ts where s': "devfs_init dn dc dl (env_devices env) (vfs_init vn rl s) = Some s1"
      "tarfs_init tn l tc (env_entries env) a e s1 = Some (Inr s')"
      "mounted s' [tc, dc] [(''initrd'', tn), (''dev'', dn)] (device_cells (env_devices env)) (four_devices (env_devices env))"
      "fs_root s' = vn" "fs_finddir (fnodes s' vn) = Some Rootfs_finddir" "fs_flags (fnodes s' vn) = 0x02 OR 0x08" "fmem s' = fmem s"
    using mounts_in_a_row [OF assms(2-4) e(4) assms(5-7)] by blast
  have "vn \<noteq> NULL" using e(4) by (auto simp: fresh_mount_def)
  note r = root_lookup [OF s'(3) this s'(5,6)]
  have "\<exists>p s''. finddir_fs (get_fs_root s') name s' = Some (p, s'')
      \<and> (if p = NULL then None else Some p) = map_of [(''initrd'', tn), (''dev'', dn)] name" for name
    unfolding get_fs_root_def s'(4) using r by blast
  moreover have "mount_all env a e s = Some (Inr s')" using s'(1,2) by (simp add: mount_all_def e)
  ultimately show ?thesis using s'(7) by blast
qed

text \<open>The first task's list, structure, page directory, stack and list cell: on the heap, and the stack apart from
  the one in use.\<close>

definition task_addresses :: "boot_env \<Rightarrow> u32 \<Rightarrow> ptr \<Rightarrow> ptr \<Rightarrow> bool" where
  "task_addresses env esp t cell \<longleftrightarrow>
     (case env_task env of (lst, t', pd, stk, c) \<Rightarrow> t' = t \<and> c = cell \<and> lst \<noteq> NULL \<and> t \<noteq> NULL \<and> stk \<noteq> NULL \<and> cell \<noteq> NULL
        \<and> 0xc0400000 \<le> unat pd
        \<and> 24 \<le> unat (stk + 0x1000 - 24 - (esp - 20)) \<and> 24 \<le> unat (esp - 20 - (stk + 0x1000 - 24)))"

lemma syscalls_init_text: "vga_text (m_con (syscalls_init m)) = vga_text (m_con m) @ log_text LOG_OK ''Initializing syscall handler''"
  using log_line_text [of "''Initializing syscall handler''" LOG_OK] by (simp add: syscalls_init_def Let_def log_line_def)

lemma syscalls_init_keeps: "ms (syscalls_init m) = (ms m)\<lparr>tvm := (tvm (ms m))\<lparr>interrupt_handlers := (handlers m)(127 := Some Syscall_dispatcher)\<rparr>\<rparr>"
  by (simp add: syscalls_init_def int_install_handler_def Let_def)

lemma kernel_services_ok:
  assumes "mount_addresses env dn tn (length hs)" and "rootfs_lock f = 0" and "devfs_lock f = 0" and "root_files f = 0"
    and "tar_archive (kmem (tvm (ms m))) a e hs" and "length hs \<le> 64" and "tar_files (kmem (tvm (ms m))) hs nm"
    and "task_addresses env (r_esp (regs (ms m))) t cell" and "current_task (ms m) = NULL" and "ifr (task (ms m) NULL) = NULL"
    and "current_page_dir (tvm (ms m)) = kernel_page_dir (tvm (ms m))" and "unat (kernel_page_dir (tvm (ms m))) < 0xc0400000"
  shows "\<exists>m' f'. kernel_services env a e (m, f) = Some (Inr (m', f')) \<and> current_task (ms m') = t
    \<and> r_eip (regs (ms m')) = env_stage2 env \<and> r_eflags (regs (ms m')) = 0x202 \<and> task_queue (ms m') [cell] \<and> nth_task (ms m') [cell] 0 = t
    \<and> (\<forall>va. virt2phys (tvm (ms m')) (page_dir (task (ms m') t)) va = virt2phys (tvm (ms m)) (kernel_page_dir (tvm (ms m))) va)
    \<and> tcpu (ms m') = tcpu (ms m) \<and> handlers m' = (handlers m)(127 := Some Syscall_dispatcher)
    \<and> (\<forall>name. \<exists>p f''. finddir_fs (get_fs_root f') name f' = Some (p, f'')
         \<and> (if p = NULL then None else Some p) = map_of [(''initrd'', tn), (''dev'', dn)] name)
    \<and> vga_text (m_con m') = vga_text (m_con m) @ services_text"
proof -
  let ?m1 = "log_line LOG_OK ''Mounting ramdisk at /initrd'' (log_line LOG_OK ''Initializing devFS''
                (log_line LOG_OK ''Initializing VFS structures'' m))"
  obtain f' where f': "mount_all env a e (fs_view ?m1 f) = Some (Inr f')"
      "\<forall>name. \<exists>p f''. finddir_fs (get_fs_root f') name f' = Some (p, f'')
         \<and> (if p = NULL then None else Some p) = map_of [(''initrd'', tn), (''dev'', dn)] name"
    using mount_all_ok [OF assms(1), of "fs_view ?m1 f" a e nm] assms(2-7) by (auto simp: fs_view_def)
  let ?m2 = "log_line LOG_OK ''Initializing multitasking'' (syscalls_init (fs_write_back f' ?m1))"
  obtain lst pd stk where e: "env_task env = (lst, t, pd, stk, cell)" "lst \<noteq> NULL" "t \<noteq> NULL" "stk \<noteq> NULL" "cell \<noteq> NULL"
      "0xc0400000 \<le> unat pd" "24 \<le> unat (stk + 0x1000 - 24 - (r_esp (regs (ms m)) - 20))" "24 \<le> unat (r_esp (regs (ms m)) - 20 - (stk + 0x1000 - 24))"
    using assms(8) by (auto simp: task_addresses_def split: prod.splits)
  let ?s = "ms ?m2"
  have k: "?s = (upd_mem (\<lambda>_. fmem f') (ms m))\<lparr>tvm := (tvm (upd_mem (\<lambda>_. fmem f') (ms m)))\<lparr>interrupt_handlers := (handlers m)(127 := Some Syscall_dispatcher)\<rparr>\<rparr>"
    by (simp add: syscalls_init_keeps fs_write_back_def upd_mem_def)
  have v: "virt2phys (tvm ?s) d va = virt2phys (tvm (ms m)) d va" for d va unfolding k by (simp add: virt2phys_def upd_mem_def Let_def)
  have h: "current_task ?s = NULL" "ifr (task ?s NULL) = NULL" "current_page_dir (tvm ?s) = kernel_page_dir (tvm ?s)"
      "pd \<noteq> kernel_page_dir (tvm ?s)" "r_esp (regs ?s) = r_esp (regs (ms m))" "tcpu ?s = tcpu (ms m)"
      "handlers ?m2 = (handlers m)(127 := Some Syscall_dispatcher)" "kernel_page_dir (tvm ?s) = kernel_page_dir (tvm (ms m))"
    using assms(9-12) e(6) unfolding k by (auto simp: upd_mem_def)
  obtain s' where s': "multitasking_init (env_km env) lst t pd stk cell (env_stage2 env) ?s = Some (Inr (t, s'))" "current_task s' = t"
      "r_eip (regs s') = env_stage2 env" "r_eflags (regs s') = 0x202" "task_queue s' [cell]" "nth_task s' [cell] 0 = t"
      "\<forall>va. virt2phys (tvm s') (page_dir (task s' t)) va = virt2phys (tvm ?s) (kernel_page_dir (tvm ?s)) va"
      "tcpu s' = tcpu ?s" "interrupt_handlers (tvm s') = interrupt_handlers (tvm ?s)"
    using multitasking_init_starts [OF h(1,2) e(2-5) h(3,4) e(7,8) [folded h(5)], of "env_km env" "env_stage2 env"] by blast
  have "kernel_services env a e (m, f) = Some (Inr (?m2\<lparr>ms := s'\<rparr>, f'))"
    using f'(1) s'(1) e(1) by (simp add: kernel_services_def Let_def)
  moreover have "vga_text (m_con ?m2) = vga_text (m_con m) @ services_text"
    by (simp add: syscalls_init_text fs_write_back_def services_text_def)
  ultimately show ?thesis
    using s'(2-9) f'(2) h(6-8) v by (intro exI [of _ "?m2\<lparr>ms := s'\<rparr>"] exI [of _ f'] conjI) simp_all
qed

section \<open>Properties\<close>

text \<open>What \<open>kernel_main\<close> needs: the loader's information with everything below 3 MB, data as it is before the
  first instruction, a processor that does not report the one feature without a name, an archive of regular files
  in the module, and a heap that gives out addresses once.\<close>

definition boot_ready_env :: "boot_env \<Rightarrow> ptr \<Rightarrow> machine \<times> fsys \<Rightarrow> ptr list \<Rightarrow> ptr \<Rightarrow> ptr list \<Rightarrow> (nat \<Rightarrow> string) \<Rightarrow> ptr \<Rightarrow> ptr \<Rightarrow> ptr \<Rightarrow> ptr \<Rightarrow> bool" where
  "boot_ready_env env mb2 mf ts mi hs nm dn tn t cell \<longleftrightarrow>
     (let (m, f) = mf; (_, _, _, edx) = env_cpuid env 1
      in loader_ok (env_info env) (env_kernel_end env) mb2 0x300000 ts mi \<and> cold (tvm (ms m)) \<and> \<not> bit edx 30
         \<and> (case module_bounds_loop (env_info env) (mb2 + 8) (0, 0) of None \<Rightarrow> False
            | Some (a, e) \<Rightarrow> tar_archive (kmem (tvm (ms m))) a e hs)
         \<and> length hs \<le> 64 \<and> tar_files (kmem (tvm (ms m))) hs nm
         \<and> rootfs_lock f = 0 \<and> devfs_lock f = 0 \<and> root_files f = 0 \<and> mount_addresses env dn tn (length hs)
         \<and> task_addresses env (r_esp (regs (ms m))) t cell \<and> current_task (ms m) = NULL \<and> ifr (task (ms m) NULL) = NULL)"

lemma kernel_main_runs:
  assumes "boot_ready_env env mb2 (m, f) ts mi hs nm dn tn t cell"
  shows "\<exists>m' f'. kernel_main env MBOOT2_MAGIC mb2 (m, f) = Some (Inr (m', f')) \<and> vectors_ready env m' \<and> handlers m' 127 = Some Syscall_dispatcher
    \<and> current_task (ms m') = t \<and> r_eip (regs (ms m')) = env_stage2 env \<and> r_eflags (regs (ms m')) = 0x202
    \<and> task_queue (ms m') [cell] \<and> nth_task (ms m') [cell] 0 = t
    \<and> (\<forall>va. KERN_BASE \<le> va \<and> va < KERN_BASE + 12 * M \<longrightarrow> virt2phys (tvm (ms m')) (page_dir (task (ms m') t)) va = va - KERN_BASE)
    \<and> (\<forall>name. \<exists>p f''. finddir_fs (get_fs_root f') name f' = Some (p, f'')
         \<and> (if p = NULL then None else Some p) = map_of [(''initrd'', tn), (''dev'', dn)] name)
    \<and> vga_text (m_con m') = vga_text (m_con m) @ core_text env mi (m_io m) @ services_text"
proof -
  obtain eax ebx ecx edx where cpu: "env_cpuid env 1 = (eax, ebx, ecx, edx)" by (metis prod_cases4)
  note b = assms [unfolded boot_ready_env_def Let_def prod.case cpu]
  obtain a e where ae: "module_bounds_loop (env_info env) (mb2 + 8) (0, 0) = Some (a, e)" "tar_archive (kmem (tvm (ms m))) a e hs"
    using b by (auto split: option.splits)
  have c: "(0x300000 :: u32) \<le> 0x10000000" "unat (0x300000 :: u32) = 0x300000" by simp_all
  obtain m1 cp v where m1: "kernel_core env MBOOT2_MAGIC mb2 m = Some (Inr (Started a e m1))" "vectors_ready env m1"
      "\<forall>va. KERN_BASE \<le> va \<and> va < KERN_BASE + 12 * M \<longrightarrow> virt2phys v (kernel_page_dir v) va = va - KERN_BASE"
      "ms m1 = (ms m)\<lparr>tcpu := cp, tvm := v\<rparr>" "kmem v = kmem (tvm (ms m))" "current_page_dir v = kernel_page_dir v"
      "unat (kernel_page_dir v) < 0xc0021003 + unat (0x300000 :: u32)"
      "vga_text (m_con m1) = vga_text (m_con m) @ core_text env mi (m_io m)"
    using kernel_core_ready [OF _ c(1) _ cpu _ ae(1), of ts mi m] b by blast
  have mt: "tvm (ms m1) = v" "regs (ms m1) = regs (ms m)" "current_task (ms m1) = current_task (ms m)" "task (ms m1) = task (ms m)"
    by (simp_all add: m1(4))
  have pre: "mount_addresses env dn tn (length hs)" "rootfs_lock f = 0" "devfs_lock f = 0" "root_files f = 0"
      "tar_archive (kmem (tvm (ms m1))) a e hs" "length hs \<le> 64" "tar_files (kmem (tvm (ms m1))) hs nm"
      "task_addresses env (r_esp (regs (ms m1))) t cell" "current_task (ms m1) = NULL" "ifr (task (ms m1) NULL) = NULL"
      "current_page_dir (tvm (ms m1)) = kernel_page_dir (tvm (ms m1))" "unat (kernel_page_dir (tvm (ms m1))) < 0xc0400000"
    using b ae(2) m1(5-7) unfolding c(2) by (simp_all add: mt)
  obtain m' f' where r: "kernel_services env a e (m1, f) = Some (Inr (m', f'))" "current_task (ms m') = t"
      "r_eip (regs (ms m')) = env_stage2 env" "r_eflags (regs (ms m')) = 0x202" "task_queue (ms m') [cell]" "nth_task (ms m') [cell] 0 = t"
      "\<forall>va. virt2phys (tvm (ms m')) (page_dir (task (ms m') t)) va = virt2phys (tvm (ms m1)) (kernel_page_dir (tvm (ms m1))) va"
      "tcpu (ms m') = tcpu (ms m1)" "handlers m' = (handlers m1)(127 := Some Syscall_dispatcher)"
      "\<forall>name. \<exists>p f''. finddir_fs (get_fs_root f') name f' = Some (p, f'')
         \<and> (if p = NULL then None else Some p) = map_of [(''initrd'', tn), (''dev'', dn)] name"
      "vga_text (m_con m') = vga_text (m_con m1) @ services_text"
    using kernel_services_ok [OF pre] by blast
  have "vectors_ready env m'" using m1(2) by (simp add: vectors_ready_def r(8,9))
  moreover have "kernel_main env MBOOT2_MAGIC mb2 (m, f) = Some (Inr (m', f'))" using m1(1) r(1) by (simp add: kernel_main_def)
  moreover have "\<forall>va. KERN_BASE \<le> va \<and> va < KERN_BASE + 12 * M \<longrightarrow> virt2phys (tvm (ms m')) (page_dir (task (ms m') t)) va = va - KERN_BASE"
    using r(7) m1(3) mt(1) by simp
  ultimately show ?thesis using r(2-6,9-11) m1(8) by (intro exI [of _ m'] exI [of _ f'] conjI) simp_all
qed

text \<open>C1: the kernel starts. Under \<open>boot_ready_env\<close>, \<open>kernel_main\<close> returns into \<open>stage2\<close> as its first and only task,
  with interrupts enabled: all 49 vectors go to their stubs, the page-fault, timer, keyboard, clock and system-call
  handlers are in place, and with such a unit the floating-point handler, the task's page directory maps the kernel and
  the heap linearly, and the root directory holds exactly dev and initrd.\<close>

theorem kernel_main_boots:
  assumes "boot_ready_env env mb2 (m, f) ts mi hs nm dn tn t cell"
  shows "\<exists>m' f'. kernel_main env MBOOT2_MAGIC mb2 (m, f) = Some (Inr (m', f'))
    \<and> current_task (ms m') = t \<and> r_eip (regs (ms m')) = env_stage2 env \<and> r_eflags (regs (ms m')) = 0x202
    \<and> task_queue (ms m') [cell] \<and> nth_task (ms m') [cell] 0 = t
    \<and> vectors_ready env m' \<and> handlers m' 127 = Some Syscall_dispatcher
    \<and> (\<forall>va. KERN_BASE \<le> va \<and> va < KERN_BASE + 12 * M \<longrightarrow> virt2phys (tvm (ms m')) (page_dir (task (ms m') t)) va = va - KERN_BASE)
    \<and> (\<forall>name. \<exists>p f''. finddir_fs (get_fs_root f') name f' = Some (p, f'')
         \<and> (if p = NULL then None else Some p) = map_of [(''initrd'', tn), (''dev'', dn)] name)"
  using kernel_main_runs [OF assms] by blast

text \<open>A loader's information with 12 MB of memory and a module at 0x1000, and the archive there.\<close>

definition demo_boot_info :: mem where
  "demo_boot_info = (\<lambda>_. 0)(112 := 4, 116 := 16, 124 := 128, 125 := 48, 128 := 3, 132 := 16, 137 := 0x10, 141 := 0x16, 148 := 8)"

definition demo_env :: boot_env where
  "demo_env = \<lparr>env_hw = \<lambda>_ _. 0, env_cpuid = \<lambda>_. (0, 0, 0, 1), env_fninit = [], env_km = \<lambda>_ _. None,
     env_info = demo_boot_info, env_kernel_end = 0x2000, env_gdt = 0, env_idt = 0, env_tss = 0,
     env_stub = \<lambda>n. 0xc0100000 + 16 * of_nat n, env_vfs = (0x500, 0x20), env_devfs = (0x510, 0x700, 0x30),
     env_devices = demo_devices, env_tarfs = (0x560, 0x40, 0x750),
     env_entries = \<lambda>i. (0x800 + i, 0x900 + i), env_task = (0x10, 0x7000, 0xc0500000, 0xc000, 0x200), env_stage2 = 0xc0101234\<rparr>"

definition demo_image :: mem where
  "demo_image x = demo_tar (x - KERN_BASE)"

definition demo_start :: machine where
  "demo_start = demo_machine\<lparr>ms := demo_sched\<lparr>current_task := NULL, tvm := demo_boot_state\<lparr>pmm_st := demo_pmm, kmem := demo_image\<rparr>\<rparr>\<rparr>"

lemma demo_loader: "loader_ok demo_boot_info 0x2000 104 0x300000 [112, 128, 144] 112"
    "module_bounds_loop demo_boot_info (104 + 8) (0, 0) = Some (0xc0001000, 0xc0001600)"
proof -
  note ev = demo_boot_info_def tag_type_def tag_size_def next_tag_def load32_def module_ends_def
  show "loader_ok demo_boot_info 0x2000 104 0x300000 [112, 128, 144] 112" unfolding loader_ok_def by (simp add: ev)
  show "module_bounds_loop demo_boot_info (104 + 8) (0, 0) = Some (0xc0001000, 0xc0001600)"
    by (subst module_bounds_loop.simps, simp add: ev, subst module_bounds_loop.simps, simp add: ev)
qed

lemma demo_image_ok: "tar_archive demo_image 0xc0001000 0xc0001600 [0xc0001000, 0xc0001200]" "tar_files demo_image [0xc0001000, 0xc0001200] (\<lambda>_. ''x'')"
proof -
  have g: "tar_getsize demo_image 0xc000107c = 0" "tar_getsize demo_image 0xc000127c = 1" by code_simp+
  show "tar_archive demo_image 0xc0001000 0xc0001600 [0xc0001000, 0xc0001200]"
    using g by (simp add: next_header_def) (simp add: demo_image_def demo_tar_def)
  have "str_at demo_image 128 0xc0001200 = Some ''x''" by code_simp
  then show "tar_files demo_image [0xc0001000, 0xc0001200] (\<lambda>_. ''x'')" by (simp add: tar_files_def) (simp add: demo_image_def demo_tar_def)
qed

lemma demo_boot: "boot_ready_env demo_env 104 (demo_start, demo_fs) [112, 128, 144] 112 [0xc0001000, 0xc0001200] (\<lambda>_. ''x'') 0x510 0x560 0x7000 0x200"
proof -
  have e: "env_info demo_env = demo_boot_info" "env_kernel_end demo_env = 0x2000" "env_cpuid demo_env 1 = (0, 0, 0, 1)"
    by (simp_all add: demo_env_def)
  have m: "cold (tvm (ms demo_start))" "kmem (tvm (ms demo_start)) = demo_image" "current_task (ms demo_start) = NULL"
      "ifr (task (ms demo_start) NULL) = NULL" "r_esp (regs (ms demo_start)) = 0x9000"
    by (simp_all add: demo_start_def cold_def demo_pmm_def demo_boot_state_def demo_sched_def zero_task_def)
  have a: "mount_addresses demo_env 0x510 0x560 (length [0xc0001000, 0xc0001200 :: ptr])"
    using demo_fresh by (simp add: mount_addresses_def demo_env_def)
  have t: "task_addresses demo_env 0x9000 0x7000 0x200" by (simp add: task_addresses_def demo_env_def)
  have f: "rootfs_lock demo_fs = 0" "devfs_lock demo_fs = 0" "root_files demo_fs = 0" by (simp_all add: demo_fs_def)
  show ?thesis unfolding boot_ready_env_def Let_def prod.case e m demo_loader using demo_loader(1) demo_image_ok m(1) f a t by (simp del: tar_archive.simps)
qed

theorem kernel_main_boots_witness:
  "\<exists>m' f' p f''. kernel_main demo_env MBOOT2_MAGIC 104 (demo_start, demo_fs) = Some (Inr (m', f')) \<and> current_task (ms m') = 0x7000
     \<and> r_eip (regs (ms m')) = 0xc0101234 \<and> finddir_fs (get_fs_root f') ''initrd'' f' = Some (0x560, f'')"
proof -
  obtain m' f' where r: "kernel_main demo_env MBOOT2_MAGIC 104 (demo_start, demo_fs) = Some (Inr (m', f'))" "current_task (ms m') = 0x7000"
      "r_eip (regs (ms m')) = env_stage2 demo_env"
      "\<And>name. \<exists>p f''. finddir_fs (get_fs_root f') name f' = Some (p, f'')
         \<and> (if p = NULL then None else Some p) = map_of [(''initrd'', 0x560), (''dev'', 0x510)] name"
    using kernel_main_boots [OF demo_boot] by blast
  have "env_stage2 demo_env = 0xc0101234" by (simp add: demo_env_def)
  then show ?thesis using r(1-3) r(4) [of "''initrd''"] by (auto split: if_splits)
qed



text \<open>The first task prints the banner and the version on both consoles, in pink on black, and leaves the rest of the
  machine alone.\<close>

theorem stage2_prints:
  "\<exists>out. stage2 m = m\<lparr>m_con := m_con m @ Vga_set_color VGA_COLOR_PINK VGA_COLOR_BLACK # out\<rparr>
     \<and> vga_text out = welecome_banner @ replicate 4 (CHR 0x09) @ ''Version 1.0 (kerplunk)'' @ [CHR 0x0A]
     \<and> serial_text out = welecome_banner @ replicate 4 (CHR 0x09) @ ''Version 1.0 (kerplunk)'' @ [CHR 0x0A]"
proof -
  let ?ps = "[PStr welecome_banner, PLit (replicate 4 (CHR 0x09) @ ''Version ''), PDec 1, PLit ''.'', PDec 0, PLit '' ('', PStr ''kerplunk'', PLit ('')'' @ [CHR 0x0A])]"
  have "list_all piece_ok ?ps" by simp
  from kprintf_pieces [OF this] show ?thesis
    by (auto simp: stage2_def printed_def itoa_s_def itoa_def itoa_loop.simps)
qed

text \<open>C38: without a Multiboot2 loader, or with boot information that is not aligned to 8 bytes, \<open>kernel_main\<close>
  returns after setting up the serial line and printing one message: descriptor tables, memory managers, tasks
  and file systems are as before.\<close>

theorem kernel_main_refuses:
  assumes "magic \<noteq> MBOOT2_MAGIC \<or> mb2 AND 7 \<noteq> 0"
  shows "\<exists>m' t. kernel_main env magic mb2 (m, f) = Some (Inr (m', f))
    \<and> ms m' = (ms m)\<lparr>tvm := (tvm (ms m))\<lparr>interrupt_handlers := t\<rparr>\<rparr>
    \<and> vga_text (m_con m') = vga_text (m_con m) @ serial_text_line env (m_io m) @ log_text LOG_ERR
        (if magic \<noteq> MBOOT2_MAGIC then ''Multiboot2 compatible bootloader not detected'' else ''Multiboot2 info unaligned'')"
proof -
  let ?m0 = "m\<lparr>m_con := m_con m @ [Vga_clear, Vga_set_color VGA_COLOR_WHITE VGA_COLOR_BLACK]\<rparr>"
  obtain t where t: "ms (start_serial env ?m0) = (ms m)\<lparr>tvm := (tvm (ms m))\<lparr>interrupt_handlers := t\<rparr>\<rparr>"
    using start_serial_keeps [of env ?m0] by auto
  show ?thesis
  proof (cases "magic = MBOOT2_MAGIC")
    case True
    with assms have "mb2 AND 7 \<noteq> 0" by simp
    with True show ?thesis by (simp add: kernel_main_def kernel_core_def check_boot_info_def t start_serial_text Let_def) blast
  next
    case False
    then show ?thesis by (simp add: kernel_main_def kernel_core_def check_boot_info_def t start_serial_text Let_def) blast
  qed
qed

theorem kernel_main_refuses_witness:
  "\<exists>m'. kernel_main demo_env 0x1badb002 104 (demo_machine, demo_fs) = Some (Inr (m', demo_fs)) \<and> current_task (ms m') = current_task (ms demo_machine)"
proof -
  obtain m' t where "kernel_main demo_env 0x1badb002 104 (demo_machine, demo_fs) = Some (Inr (m', demo_fs))"
      "ms m' = (ms demo_machine)\<lparr>tvm := (tvm (ms demo_machine))\<lparr>interrupt_handlers := t\<rparr>\<rparr>"
    using kernel_main_refuses [of "0x1badb002" 104 demo_env demo_machine demo_fs] by auto
  then show ?thesis by simp
qed

end
