(* ===== verification/Krandom.thy ===== *)
theory Krandom
  imports Fs_ops
begin

text \<open>
  The generator behind the device \<open>rand\<close>, kernel/fs/devices/rand.c: a multiply-with-carry generator with 4096 words of
  state. The code divides by 2^32 - 1 with shifts and an end-around carry in 64-bit arithmetic; \<open>cmwc\<close> is the same step with
  the division written out on natural numbers.
\<close>

unbundle bit_operations_syntax

section \<open>The reference step\<close>

text \<open>The remainder is taken from 1 to 2^32 - 1; it is 0 only when the dividend is.\<close>

definition cmwc :: "nat \<Rightarrow> nat \<Rightarrow> nat \<times> nat" where
  "cmwc q c = (let t = 18782 * q + c
     in if t = 0 then (0, 0) else ((t - 1) mod (2 ^ 32 - 1) + 1, (t - 1) div (2 ^ 32 - 1)))"

section \<open>Division by shifts\<close>

lemma unat_u64_32: "unat (ucast (w :: u32) :: u64) = unat w"
  using unsigned_less [of w, where 'a = nat] by (simp add: unsigned_ucast_eq take_bit_nat_eq_self)

text \<open>One step of division by \<open>2 ^ 32 - 1\<close> from the two halves of a number: their sum, with the carry added at both ends.\<close>

lemma carry_step:
  fixes x c x' c' :: u32
  assumes t: "t = hi * 2 ^ 32 + lo" and hi: "hi < 2 ^ 32 - 1" and lo: "lo < 2 ^ 32"
    and c: "unat c = hi" and x: "unat x = (lo + hi) mod 2 ^ 32"
    and r: "(x', c') = (if x < c then (x + 1, c + 1) else (x, c))"
  shows "unat c' * (2 ^ 32 - 1) + unat x' = t \<and> (0 < t \<longrightarrow> 0 < unat x')"
proof (cases "lo + hi < 2 ^ 32")
  case True
  then have "\<not> x < c" using c x by (simp add: word_less_nat_alt)
  then have "unat c' = hi" "unat x' = lo + hi" using r c x True by auto
  then show ?thesis using t by (auto simp: algebra_simps)
next
  case False
  then have "(lo + hi) mod 2 ^ 32 = (lo + hi - 2 ^ 32) mod 2 ^ 32" by (intro le_mod_geq) simp
  then have x: "unat x = lo + hi - 2 ^ 32" using x hi lo by simp
  then have "x < c" using c lo hi False by (simp add: word_less_nat_alt)
  then have "c' = c + 1" "x' = x + 1" using r by auto
  moreover have "unat (c + 1) = hi + 1" using c hi by (simp add: unat_word_ariths)
  moreover have "unat (x + 1) = unat x + 1" using x hi lo by (simp add: unat_word_ariths)
  ultimately show ?thesis using x t False by (simp add: algebra_simps)
qed

lemma quotient_remainder:
  fixes b :: nat
  assumes "c * b + y = t" and "y \<le> b" and "0 < b" and "0 < t \<longrightarrow> 0 < y"
  shows "(if t = 0 then (0, 0) else ((t - 1) mod b + 1, (t - 1) div b)) = (y, c)"
proof (cases y)
  case (Suc z)
  then have t: "t - 1 = c * b + z" "0 < t" using assms(1) by auto
  have "z < b" using Suc assms(2) by simp
  then have "(c * b + z) mod b = z" "(c * b + z) div b = c" by auto
  then show ?thesis using t Suc by simp
next
  case 0
  then have "t = 0" using assms(4) by simp
  then show ?thesis using assms(1,3) 0 by simp
qed

lemma mwc_product: "unat (18782 * ucast q + ucast c :: u64) = 18782 * unat q + unat c" for q c :: u32
proof -
  have "unat q < 2 ^ 32" "unat c < 2 ^ 32" using unsigned_less [of q, where 'a = nat] unsigned_less [of c, where 'a = nat] by simp_all
  then show ?thesis by (simp add: unat_word_ariths unat_u64_32)
qed

section \<open>Property\<close>

text \<open>C32: the generator of the device \<open>rand\<close> is the multiply-with-carry generator of \<open>cmwc\<close>. A call moves to the next of the
  4096 words, replaces it by the complement of the reference's remainder, which it returns, and keeps the quotient as the
  new carry; the carry is at most 18782 after the first call, so the condition on it holds for ever.\<close>

theorem rand_is_cmwc:
  assumes "rand_c s < 0xffffffff" and "i = (rand_i s + 1) AND 4095" and "cmwc (unat (rand_Q s i)) (unat (rand_c s)) = (y, c)"
  shows "\<exists>x. rand s = (x, s\<lparr>rand_i := i, rand_c := of_nat c, rand_Q := (rand_Q s)(i := x)\<rparr>)
    \<and> x = 0xfffffffe - of_nat y \<and> c \<le> 18782"
proof -
  let ?b = "2 ^ 32 - 1 :: nat" and ?t = "18782 * ucast (rand_Q s i) + ucast (rand_c s) :: u64"
  let ?c = "ucast (drop_bit 32 ?t) :: u32"
  let ?x = "(ucast ?t :: u32) + ?c"
  define t where "t = unat ?t"
  obtain x' c' where r: "(x', c') = (if ?x < ?c then (?x + 1, ?c + 1) else (?x, ?c))" by fastforce
  have t: "t = 18782 * unat (rand_Q s i) + unat (rand_c s)" unfolding t_def by (rule mwc_product)
  have lim: "t \<le> 18782 * ?b + unat (rand_c s)" "unat (rand_c s) < ?b"
    using t assms(1) unsigned_less [of "rand_Q s i", where 'a = nat] by (simp_all add: word_less_nat_alt)
  have hi: "t div 2 ^ 32 < 2 ^ 32 - 1" using lim by (simp add: div_less_iff_less_mult)
  then have cu: "unat ?c = t div 2 ^ 32"
    by (simp add: t_def drop_bit_eq_div unsigned_ucast_eq unat_div take_bit_nat_eq_self)
  have lo: "unat (ucast ?t :: u32) = t mod 2 ^ 32" by (simp add: t_def unsigned_ucast_eq take_bit_eq_mod)
  have xu: "unat ?x = (t mod 2 ^ 32 + t div 2 ^ 32) mod 2 ^ 32" using lo cu by (simp add: unat_word_ariths)
  have e: "unat c' * ?b + unat x' = t" "0 < t \<longrightarrow> 0 < unat x'"
    using carry_step [OF div_mult_mod_eq [symmetric] hi _ cu xu r] by auto
  have "unat x' \<le> ?b" using unsigned_less [of x', where 'a = nat] by simp
  from quotient_remainder [OF e(1) this _ e(2)] have "(y, c) = (unat x', unat c')"
    using assms(3) by (simp only: cmwc_def Let_def t [symmetric]) simp
  then have q: "y = unat x'" "c = unat c'" by simp_all
  have "unat c' * ?b < 18783 * ?b" using e lim by linarith
  then have "c \<le> 18782" using q by simp
  moreover have "rand s = (0xfffffffe - x', s\<lparr>rand_i := i, rand_c := c', rand_Q := (rand_Q s)(i := 0xfffffffe - x')\<rparr>)"
    unfolding rand_def Let_def assms(2) [symmetric] r [symmetric] by simp
  ultimately show ?thesis using q by simp
qed

theorem rand_is_cmwc_witness:
  "\<exists>x. rand (demo_fs\<lparr>rand_c := 362436, rand_i := 4095, rand_Q := (\<lambda>_. 0)(0 := 0x10000)\<rparr>)
     = (x, demo_fs\<lparr>rand_c := 0, rand_i := 0, rand_Q := (\<lambda>_. 0)(0 := x)\<rparr>) \<and> x = 0xfffffffe - (18782 * 0x10000 + 362436)"
proof -
  let ?s = "demo_fs\<lparr>rand_c := 362436, rand_i := 4095, rand_Q := (\<lambda>_. 0)(0 := 0x10000)\<rparr>"
  have "cmwc (unat (rand_Q ?s 0)) (unat (rand_c ?s)) = (1231259588, 0)" by (simp add: cmwc_def)
  from rand_is_cmwc [of ?s 0, OF _ _ this] show ?thesis by simp
qed

end
