(* ===== verification/Preempt.thy ===== *)
theory Preempt
  imports Tasks
begin

text \<open>
  A task that loses the processor and gets it back, kernel/sys/task.c and kernel/sys/context_switch.asm. While a task does
  not run, the others run and are scheduled: \<open>others_step\<close> is one call of \<open>schedule\<close> that does not pick the task, or a piece of
  the running program that does not write to the six words the task left on its stack. The locale \<open>step_invariant\<close> carries
  the saved frame along these steps.
\<close>

unbundle bit_operations_syntax

section \<open>What a call of the scheduler changes\<close>

text \<open>The state in which a switch happens: registers, memory, stacks and directories of the tasks are those of the call.\<close>

definition same_frames :: "sched \<Rightarrow> sched \<Rightarrow> bool" where
  "same_frames s u \<longleftrightarrow> regs u = regs s \<and> current_task u = current_task s \<and> kmem (tvm u) = kmem (tvm s)
     \<and> (\<forall>x. kstack (task u x) = kstack (task s x) \<and> page_dir (task u x) = page_dir (task s x))"

lemma schedule_effect:
  assumes "schedule s = Some (Inr s')" and "current_task s \<noteq> NULL" and "task_list s \<noteq> NULL"
  shows "\<exists>u. same_frames s u \<and> s' = context_switch (current_task s') u \<and> current_page_dir (tvm u) = page_dir (task s (current_task s'))"
proof -
  obtain n s1 where p: "pick_next (n_next (tlists s) (self (task s (current_task s)))) s = Some (Inr (n, s1))" "s' = switch_to n s1"
    using assms schedule_pick [of s] by (auto simp: map_option_case map_sum_def split: option.splits sum.splits)
  obtain l where l: "s1 = s\<lparr>tlists := l\<rparr>" using pick_next_tlists [OF p(1)] by blast
  show ?thesis
    using p(2) by (intro exI conjI) (auto simp: switch_to_def Let_def l same_frames_def switch_page_directory_def)
qed

section \<open>The steps of the others\<close>

inductive others_step :: "ptr \<Rightarrow> ptr \<Rightarrow> sched \<Rightarrow> sched \<Rightarrow> bool" for t sp where
  switch: "schedule s = Some (Inr s') \<Longrightarrow> current_task s \<noteq> NULL \<Longrightarrow> task_list s \<noteq> NULL \<Longrightarrow> current_task s' \<noteq> t \<Longrightarrow>
    apart 24 sp (r_esp (regs s) - 20) \<Longrightarrow> apart 24 sp (kstack (task s (current_task s'))) \<Longrightarrow> others_step t sp s s'"
| program: "\<forall>i < 24. k (sp + of_nat i) = kmem (tvm s) (sp + of_nat i) \<Longrightarrow>
    others_step t sp s ((upd_mem (\<lambda>_. k) s)\<lparr>regs := g, timer_ticks := n\<rparr>)"

inductive_cases others_stepE: "others_step t sp s s'"

text \<open>The saved state of a task that is not running.\<close>

definition parked :: "ptr \<Rightarrow> ptr \<Rightarrow> u32 list \<Rightarrow> ptr \<Rightarrow> sched \<Rightarrow> bool" where
  "parked t sp ws pd s \<longleftrightarrow> current_task s \<noteq> t \<and> kstack (task s t) = sp \<and> page_dir (task s t) = pd
     \<and> load_words (kmem (tvm s)) sp 6 = ws"

lemma apart_bytes:
  assumes "apart n a b" and "i < n" and "c < n"
  shows "a + i \<noteq> b + c"
proof
  assume e: "a + i = b + c"
  show False
  proof (cases "c \<le> i")
    case True
    have "b - a = i - c" using e by (simp add: algebra_simps)
    moreover have "i - c \<le> i" using True by (simp add: word_le_nat_alt unat_sub)
    ultimately show False using assms(1,2) unfolding apart_def by (metis leD order.strict_trans1)
  next
    case False
    have "a - b = c - i" using e by (simp add: algebra_simps)
    moreover have "c - i \<le> c" using False by (simp add: word_le_nat_alt unat_sub)
    ultimately show False using assms(1,3) unfolding apart_def by (metis leD order.strict_trans1)
  qed
qed

lemma load_context_frame:
  assumes "apart 24 sp (kstack (task s n))"
  shows "load_words (kmem (tvm (load_context n s))) sp 6 = load_words (kmem (tvm s)) sp 6"
proof (rule load_words_cong)
  fix i :: nat assume "i < 4 * 6"
  then have "(of_nat i :: u32) < 24" by (simp add: word_less_nat_alt unat_of_nat take_bit_nat_eq_self)
  from apart_bytes [OF assms this]
  have "sp + of_nat i \<noteq> kstack (task s n) + c" if "c < 24" for c using that by blast
  note ne = this [of 12] this [of 13] this [of 14] this [of 15] this [of 16] this [of 17] this [of 18] this [of 19]
  show "kmem (tvm (load_context n s)) (sp + of_nat i) = kmem (tvm s) (sp + of_nat i)"
    using ne by (simp add: load_context_def upd_mem_def store32_def Let_def add.assoc)
qed

lemma context_switch_parked:
  assumes "parked t sp ws pd u" and "n \<noteq> t" and "apart 24 sp (r_esp (regs u) - 20)" and "apart 24 sp (kstack (task u n))"
  shows "parked t sp ws pd (context_switch n u)"
proof -
  let ?s = "save_context u"
  have ks: "kstack (task ?s n) = (if n = current_task u then r_esp (regs u) - 20 else kstack (task u n))"
    by (simp add: save_context_def upd_task_def upd_mem_def Let_def)
  have "load_words (kmem (tvm (context_switch n u))) sp 6 = ws"
    unfolding context_switch_def
    using load_context_frame [of sp ?s n] save_context_frame [OF assms(3)] assms(1,3,4) ks by (simp add: parked_def)
  then show ?thesis using assms(1,2) by (auto simp: parked_def)
qed

lemma others_step_parked: "others_step t sp s s' \<Longrightarrow> parked t sp ws pd s \<Longrightarrow> parked t sp ws pd s'"
proof (erule others_stepE)
  assume p: "parked t sp ws pd s" and sch: "schedule s = Some (Inr s')" "current_task s \<noteq> NULL" "task_list s \<noteq> NULL"
    and n: "current_task s' \<noteq> t" and a: "apart 24 sp (r_esp (regs s) - 20)" "apart 24 sp (kstack (task s (current_task s')))"
  obtain u where u: "same_frames s u" "s' = context_switch (current_task s') u" using schedule_effect [OF sch] by blast
  have "parked t sp ws pd u" using p u(1) by (simp add: parked_def same_frames_def)
  from context_switch_parked [OF this n] a u(1) have "parked t sp ws pd (context_switch (current_task s') u)"
    by (simp add: same_frames_def)
  then show "parked t sp ws pd s'" using u(2) by simp
next
  fix k g n
  assume p: "parked t sp ws pd s" and k: "\<forall>i < 24. k (sp + of_nat i) = kmem (tvm s) (sp + of_nat i)"
    and s': "s' = (upd_mem (\<lambda>_. k) s)\<lparr>regs := g, timer_ticks := n\<rparr>"
  have "load_words k sp 6 = load_words (kmem (tvm s)) sp 6" using k by (intro load_words_cong) simp
  then show "parked t sp ws pd s'" using p s' by (simp add: parked_def upd_mem_def)
qed

interpretation others: step_invariant "others_step t sp" "parked t sp ws pd" for t sp ws pd
  by unfold_locales (rule others_step_parked)

lemma switched_away_parked:
  assumes "t = current_task u" and "n \<noteq> t" and "sp = r_esp (regs u) - 20" and "apart 24 sp (kstack (task u n))"
    and "ws = [r_ebx (regs u), r_esi (regs u), r_edi (regs u), r_ebp (regs u), r_eip (regs u), r_eflags (regs u)]"
  shows "parked t sp ws (page_dir (task u t)) (context_switch n u)"
proof -
  have "kstack (task (save_context u) n) = kstack (task u n)"
    using assms(1,2) by (simp add: save_context_def upd_task_def upd_mem_def Let_def)
  then have "load_words (kmem (tvm (context_switch n u))) sp 6 = ws"
    unfolding context_switch_def using load_context_frame [of sp "save_context u" n] assms(3-5) save_context_words [of u] by simp
  then show ?thesis using assms(1-3) by (simp add: parked_def)
qed

lemma resume_parked:
  assumes "parked t sp [a, b, c, d, e, f] pd u" and "apart 24 sp (r_esp (regs u) - 20)"
  shows "regs (context_switch t u) = \<lparr>r_ebx = a, r_esi = b, r_edi = c, r_ebp = d, r_eip = e, r_eflags = f, r_esp = sp + 24\<rparr>"
proof -
  have "kstack (task (save_context u) t) = sp" using assms(1) by (auto simp: parked_def save_context_def upd_task_def upd_mem_def Let_def)
  moreover have "load_words (kmem (tvm (save_context u))) sp 6 = [a, b, c, d, e, f]"
    using save_context_frame [OF assms(2)] assms(1) by (simp add: parked_def)
  ultimately show ?thesis by (simp add: context_switch_def load_context_def load_words_6)
qed

section \<open>Property\<close>



end
