(* ===== verification/Loader.thy ===== *)
theory Loader
  imports Elf Mount
begin

unbundle bit_operations_syntax

text \<open>
  The program loader on whole images, kernel/sys/elf.c. An image is described by its own bytes: \<open>segment_at\<close> says which
  addresses a program header fills and \<open>segment_byte\<close> with what, and \<open>loaded\<close> is the memory after a number of headers, read from
  the image as it was. \<open>image_ok\<close> is what an image needs for that: headers and file parts inside the image, segments below the
  kernel and away from the image, and page tables for them.
\<close>

section \<open>What an image asks for\<close>

text \<open>Two blocks of memory, \<open>n\<close> bytes at \<open>a\<close> and \<open>k\<close> bytes at \<open>b\<close>, that share no byte.\<close>

definition blocks_apart :: "ptr \<Rightarrow> nat \<Rightarrow> ptr \<Rightarrow> nat \<Rightarrow> bool" where
  "blocks_apart a n b k \<longleftrightarrow> n \<le> unat (b - a) \<and> k \<le> unat (a - b)"

definition ph :: "mem \<Rightarrow> ptr \<Rightarrow> nat \<Rightarrow> ptr" where
  "ph m h i = elf_get_program_header m h (of_nat i)"

definition segment_at :: "mem \<Rightarrow> ptr \<Rightarrow> nat \<Rightarrow> ptr \<Rightarrow> bool" where
  "segment_at m h i x \<longleftrightarrow> p_type m (ph m h i) = PT_LOAD \<and> unat (x - p_vaddr m (ph m h i)) < unat (p_memsz m (ph m h i))"

definition segment_byte :: "mem \<Rightarrow> ptr \<Rightarrow> nat \<Rightarrow> ptr \<Rightarrow> u8" where
  "segment_byte m h i x =
     (let d = x - p_vaddr m (ph m h i)
      in if unat d < unat (p_filesz m (ph m h i)) then m (h + p_offset m (ph m h i) + d) else 0)"

primrec loaded :: "mem \<Rightarrow> ptr \<Rightarrow> nat \<Rightarrow> mem" where
  "loaded m h 0 = m"
| "loaded m h (Suc i) = (\<lambda>x. if segment_at m h i x then segment_byte m h i x else loaded m h i x)"

text \<open>The pages of the file part of one segment, and of the first \<open>i\<close> headers.\<close>

definition segment_pages :: "mem \<Rightarrow> ptr \<Rightarrow> nat \<Rightarrow> nat set" where
  "segment_pages m h i =
     (if p_type m (ph m h i) = PT_LOAD
      then {page_no (p_vaddr m (ph m h i))..page_no (p_vaddr m (ph m h i) + p_filesz m (ph m h i))} else {})"

definition image_pages :: "mem \<Rightarrow> ptr \<Rightarrow> nat \<Rightarrow> nat set" where
  "image_pages m h n = (\<Union>i < n. segment_pages m h i)"

definition segment_ok :: "kstate \<Rightarrow> mem \<Rightarrow> ptr \<Rightarrow> nat \<Rightarrow> ptr \<Rightarrow> bool" where
  "segment_ok s m h len p \<longleftrightarrow> p_filesz m p \<le> p_memsz m p \<and> unat (p_vaddr m p) + unat (p_memsz m p) < unat KERN_BASE
     \<and> unat (p_offset m p) + unat (p_filesz m p) \<le> len \<and> blocks_apart (p_vaddr m p) (unat (p_memsz m p)) h len
     \<and> tables_cover s (current_page_dir s) (page_no (p_vaddr m p)) (page_no (p_vaddr m p + p_filesz m p))"

definition image_ok :: "kstate \<Rightarrow> mem \<Rightarrow> ptr \<Rightarrow> nat \<Rightarrow> bool" where
  "image_ok s m h len \<longleftrightarrow> 52 \<le> len \<and> len < 2 ^ 32
     \<and> (\<forall>i < unat (e_phnum m h). unat (ph m h i - h) + 32 \<le> len
          \<and> (p_type m (ph m h i) = PT_LOAD \<longrightarrow> segment_ok s m h len (ph m h i)))"

section \<open>The image stays as it was\<close>

definition same_image :: "ptr \<Rightarrow> nat \<Rightarrow> mem \<Rightarrow> mem \<Rightarrow> bool" where
  "same_image h len m m' \<longleftrightarrow> (\<forall>x. unat (x - h) < len \<longrightarrow> m' x = m x)"

lemma blocks_apart_bytes: "blocks_apart a n b k \<Longrightarrow> unat (x - a) < n \<Longrightarrow> \<not> unat (x - b) < k"
proof
  assume d: "blocks_apart a n b k" and x: "unat (x - a) < n" "unat (x - b) < k"
  show False
  proof (cases "unat (x - b) \<le> unat (x - a)")
    case True
    then have "unat ((x - a) - (x - b)) \<le> unat (x - a)" by (subst unat_sub) (simp_all add: word_le_nat_alt)
    moreover have "(x - a) - (x - b) = b - a" by simp
    ultimately show False using d x by (simp add: blocks_apart_def)
  next
    case False
    then have "unat ((x - b) - (x - a)) \<le> unat (x - b)" by (subst unat_sub) (simp_all add: word_le_nat_alt)
    moreover have "(x - b) - (x - a) = a - b" by simp
    ultimately show False using d x by (simp add: blocks_apart_def)
  qed
qed

lemma inside_add:
  fixes p h j :: u32
  assumes "unat (p - h) + k \<le> len" and "len < 2 ^ 32" and "unat j < k"
  shows "unat (p + j - h) < len"
proof -
  have "p + j - h = (p - h) + j" by simp
  moreover have "unat ((p - h) + j) = unat (p - h) + unat j" using assms by (intro unat_plus_small) simp
  ultimately have "unat (p + j - h) = unat (p - h) + unat j" by (simp only:)
  then show ?thesis using assms by linarith
qed

text \<open>The fields of the headers of an image that stayed as it was.\<close>

lemma same_image_fields:
  assumes s: "same_image h len m m'" and h: "52 \<le> len" "len < 2 ^ 32"
  shows "e_phnum m' h = e_phnum m h" "ph m' h i = ph m h i"
proof -
  have b: "m' (h + j) = m (h + j)" if "unat j < 52" for j
    using s h that inside_add [of h h 52 len j] by (auto simp: same_image_def)
  have "e_phnum m' h = e_phnum m h" "e_phoff m' h = e_phoff m h" "e_phentsize m' h = e_phentsize m h"
    using b [of 44] b [of 45] b [of 42] b [of 43] b [of 28] b [of 29] b [of 30] b [of 31]
    by (simp_all add: e_phnum_def e_phoff_def e_phentsize_def load16_def load32_def add.assoc)
  then show "e_phnum m' h = e_phnum m h" "ph m' h i = ph m h i" by (simp_all add: ph_def elf_get_program_header_def)
qed

lemma same_image_header:
  assumes s: "same_image h len m m'" and p: "unat (p - h) + 32 \<le> len" "len < 2 ^ 32"
  shows "p_type m' p = p_type m p" "p_offset m' p = p_offset m p" "p_vaddr m' p = p_vaddr m p"
    "p_filesz m' p = p_filesz m p" "p_memsz m' p = p_memsz m p"
proof -
  have b: "m' (p + j) = m (p + j)" if "unat j < 32" for j
    using s p that inside_add [of p h 32 len j] by (auto simp: same_image_def)
  have "load32 m' (p + j) = load32 m (p + j)" if "unat j < 28" for j
  proof -
    have "unat (j + k) < 32" if "unat k \<le> 3" for k
      using \<open>unat j < 28\<close> that by (subst unat_plus_small) simp_all
    then show ?thesis using b [of j] b [of "j + 1"] b [of "j + 2"] b [of "j + 3"] that by (simp add: load32_def add.assoc)
  qed
  from this [of 0] this [of 4] this [of 8] this [of 16] this [of 20]
  show "p_type m' p = p_type m p" "p_offset m' p = p_offset m p" "p_vaddr m' p = p_vaddr m p"
    "p_filesz m' p = p_filesz m p" "p_memsz m' p = p_memsz m p"
    by (simp_all add: p_type_def p_offset_def p_vaddr_def p_filesz_def p_memsz_def)
qed

lemma loaded_image:
  assumes "image_ok s m h len" and "i \<le> unat (e_phnum m h)"
  shows "same_image h len m (loaded m h i)"
  using assms(2)
proof (induction i)
  case 0
  then show ?case by (simp add: same_image_def)
next
  case (Suc i)
  then have "\<not> segment_at m h i x" if "unat (x - h) < len" for x
    using assms(1) that blocks_apart_bytes [of _ _ h len x] by (auto simp: image_ok_def segment_ok_def segment_at_def Suc_le_eq)
  with Suc show ?case by (simp add: same_image_def)
qed

section \<open>One segment and all of them\<close>

lemma grown_kmem: "grown s d P s' \<Longrightarrow> grown (s\<lparr>kmem := k\<rparr>) d P (s'\<lparr>kmem := k\<rparr>)"
proof -
  assume g: "grown s d P s'"
  then obtain pm tb where "s' = s\<lparr>pmm_st := pm, ptables := tb\<rparr>" unfolding grown_def by blast
  then have "s'\<lparr>kmem := k\<rparr> = s\<lparr>kmem := k\<rparr>\<lparr>pmm_st := pm, ptables := tb\<rparr>" by simp
  moreover have "va_frame (x\<lparr>kmem := k\<rparr>) d v = va_frame x d v" for x v by (simp add: va_frame_def)
  ultimately show ?thesis using g unfolding grown_def by metis
qed

lemma copy_loaded:
  assumes ok: "image_ok s m h len" and i: "i < unat (e_phnum m h)" and t: "p_type m (ph m h i) = PT_LOAD"
  shows "copy_segment h (ph m h i) (loaded m h i) = loaded m h (Suc i)"
proof
  fix x
  let ?p = "ph m h i" and ?k = "loaded m h i"
  have im: "same_image h len m ?k" using loaded_image [OF ok] i by simp
  have p: "unat (?p - h) + 32 \<le> len" "len < 2 ^ 32" and sg: "segment_ok s m h len ?p" using ok i t by (simp_all add: image_ok_def)
  note f = same_image_header [OF im p]
  let ?va = "p_vaddr m ?p" and ?o = "p_offset m ?p" and ?fs = "p_filesz m ?p" and ?ms = "p_memsz m ?p"
  have s: "?fs \<le> ?ms" "unat ?o + unat ?fs \<le> len" "blocks_apart ?va (unat ?ms) h len" using sg by (simp_all add: segment_ok_def)
  have "?va - (h + ?o) = (?va - h) - ?o" by simp
  moreover have "unat ((?va - h) - ?o) = unat (?va - h) - unat ?o"
    using s by (intro unat_sub) (simp add: word_le_nat_alt blocks_apart_def)
  ultimately have "unat (?va - (h + ?o)) = unat (?va - h) - unat ?o" by (simp only:)
  then have a: "unat ?fs \<le> unat (?va - (h + ?o))" using s(2,3) unfolding blocks_apart_def by linarith
  have b: "\<forall>j < 24. ?ms \<le> ?p + j - ?va"
  proof (intro allI impI)
    fix j :: u32 assume "j < 24"
    then have "unat (?p + j - h) < len" using inside_add [OF p, of j] by (simp add: word_less_nat_alt)
    then show "?ms \<le> ?p + j - ?va" using blocks_apart_bytes [OF s(3)] by (metis not_less word_le_nat_alt)
  qed
  have src: "?k (h + ?o + d) = m (h + ?o + d)" if "unat d < unat ?fs" for d
  proof -
    have "unat (h + ?o - h) + unat ?fs \<le> len" using s(2) by simp
    from inside_add [OF this p(2) that] show ?thesis using im by (simp add: same_image_def)
  qed
  show "copy_segment h ?p ?k x = loaded m h (Suc i) x"
    using elf_segment_loaded [of ?k ?p h x, unfolded f, OF s(1) a b] src s(1) t
    by (auto simp: segment_at_def segment_byte_def Let_def word_le_nat_alt)
qed

text \<open>The state after the first \<open>i\<close> headers of the image that \<open>s\<close> held.\<close>

definition after_headers :: "loader \<Rightarrow> ptr \<Rightarrow> nat \<Rightarrow> loader \<Rightarrow> bool" where
  "after_headers s h i s' \<longleftrightarrow> lfs s' = lfs s
     \<and> (\<exists>v. lvm s' = v\<lparr>kmem := loaded (kmem (lvm s)) h i\<rparr> \<and> grown (lvm s) (current_page_dir (lvm s)) (image_pages (kmem (lvm s)) h i) v)"

lemma after_none: "after_headers s h 0 s"
proof -
  have "lvm s = (lvm s)\<lparr>kmem := loaded (kmem (lvm s)) h 0\<rparr>" by simp
  moreover have "grown (lvm s) (current_page_dir (lvm s)) (image_pages (kmem (lvm s)) h 0) (lvm s)"
    by (simp add: image_pages_def grown_refl)
  ultimately show ?thesis unfolding after_headers_def by blast
qed

lemma load_segment_after:
  assumes ok: "image_ok (lvm s) (kmem (lvm s)) h len" and i: "i < unat (e_phnum (kmem (lvm s)) h)"
    and t: "p_type (kmem (lvm s)) (ph (kmem (lvm s)) h i) = PT_LOAD" and s': "after_headers s h i s'"
  shows "\<exists>s''. load_segment km h j (ph (kmem (lvm s)) h i) s' = Some s'' \<and> after_headers s h (Suc i) s''"
proof -
  let ?m = "kmem (lvm s)" and ?d = "current_page_dir (lvm s)"
  let ?p = "ph ?m h i" and ?k = "loaded ?m h i"
  let ?va = "p_vaddr ?m ?p" and ?fs = "p_filesz ?m ?p"
  obtain v where v: "lvm s' = v\<lparr>kmem := ?k\<rparr>" "grown (lvm s) ?d (image_pages ?m h i) v" and l: "lfs s' = lfs s"
    using s' by (auto simp: after_headers_def)
  have sg: "segment_ok (lvm s) ?m h len ?p" and p: "unat (?p - h) + 32 \<le> len" "len < 2 ^ 32"
    using ok i t by (simp_all add: image_ok_def)
  have f: "p_vaddr ?k ?p = ?va" "p_filesz ?k ?p = ?fs"
    using same_image_header [OF loaded_image [OF ok] p] i by simp_all
  have d: "current_page_dir v = ?d" using grown_keeps(3) [OF v(2)] .
  have "tables_inj (v\<lparr>kmem := ?k\<rparr>) ?d = tables_inj v ?d" by (simp add: tables_inj_def)
  then have c: "tables_cover (v\<lparr>kmem := ?k\<rparr>) ?d (page_no ?va) (page_no (?va + ?fs))"
    using sg grown_keeps [OF v(2)] by (simp add: segment_ok_def tables_cover_def)
  have "unat (?va + ?fs) < unat KERN_BASE"
    using sg by (subst unat_plus_small) (auto simp: segment_ok_def word_le_nat_alt)
  then have "?va + ?fs < 0xfffff000" by (simp add: word_less_nat_alt)
  from allocate_region_grows [OF c this, of km False True] obtain v2
    where v2: "allocate_region km ?d ?va (?va + ?fs) False False True (v\<lparr>kmem := ?k\<rparr>) = Some v2"
      "grown (v\<lparr>kmem := ?k\<rparr>) ?d {page_no ?va..page_no (?va + ?fs)} v2" by blast
  have k2: "kmem v2 = ?k" using grown_keeps(5) [OF v2(2)] by simp
  have "grown v ?d {page_no ?va..page_no (?va + ?fs)} (v2\<lparr>kmem := kmem v\<rparr>)" using grown_kmem [OF v2(2), of "kmem v"] by simp
  from grown_trans [OF v(2) this] have "grown (lvm s) ?d (image_pages ?m h (Suc i)) (v2\<lparr>kmem := kmem v\<rparr>)"
    using t by (simp add: image_pages_def segment_pages_def lessThan_Suc Un_commute)
  moreover have "v2\<lparr>kmem := copy_segment h ?p (kmem v2)\<rparr> = v2\<lparr>kmem := kmem v\<rparr>\<lparr>kmem := loaded ?m h (Suc i)\<rparr>"
    using copy_loaded [OF ok i t] k2 by simp
  ultimately have "\<exists>w. v2\<lparr>kmem := copy_segment h ?p (kmem v2)\<rparr> = w\<lparr>kmem := loaded ?m h (Suc i)\<rparr>
      \<and> grown (lvm s) ?d (image_pages ?m h (Suc i)) w" by blast
  then show ?thesis
    using v(1) v2(1) l d f by (simp add: load_segment_def Let_def after_headers_def del: loaded.simps)
qed

lemma elf_relocate_loop_after:
  assumes ok: "image_ok (lvm s) (kmem (lvm s)) h len" and "n = unat (e_phnum (kmem (lvm s)) h)"
    and "i \<le> n" and "after_headers s h i s'"
  shows "\<exists>s''. elf_relocate_loop km h h i s' = Some (0, s'') \<and> after_headers s h n s''"
  using assms(3,4)
proof (induction arbitrary: s' rule: inc_induct)
  case base
  then have "e_phnum (kmem (lvm s')) h = e_phnum (kmem (lvm s)) h"
    using same_image_fields(1) [OF loaded_image [OF ok]] ok assms(2) by (auto simp: after_headers_def image_ok_def)
  then have "elf_relocate_loop km h h n s' = Some (0, s')"
    using assms(2) by (subst elf_relocate_loop.simps) (simp add: Let_def del: elf_relocate_loop.simps)
  with base show ?case by blast
next
  case (step i)
  let ?m = "kmem (lvm s)" and ?k = "kmem (lvm s')"
  have i: "i < unat (e_phnum ?m h)" using step assms(2) by simp
  have len: "52 \<le> len" "len < 2 ^ 32" and p: "unat (ph ?m h i - h) + 32 \<le> len" using ok i by (auto simp: image_ok_def)
  have "?k = loaded ?m h i" using step.prems by (auto simp: after_headers_def)
  then have im: "same_image h len ?m ?k" using loaded_image [OF ok] i by simp
  note e = same_image_fields [OF im len] and f = same_image_header [OF im p len(2)]
  have g: "elf_get_program_header ?k h (of_nat i) = ph ?m h i" using e(2) [of i] by (simp add: ph_def)
  show ?case
  proof (cases "p_type ?m (ph ?m h i) = PT_LOAD")
    case False
    then have "after_headers s h (Suc i) s'"
      using step.prems by (simp add: after_headers_def segment_at_def image_pages_def segment_pages_def lessThan_Suc)
    with step.IH False i e g f show ?thesis by (subst elf_relocate_loop.simps) (simp add: Let_def del: elf_relocate_loop.simps)
  next
    case True
    then have "segment_ok (lvm s) ?m h len (ph ?m h i)" using ok i by (simp add: image_ok_def)
    then have "\<not> segment_refused ?k (ph ?m h i)"
      using f by (auto simp: segment_refused_def segment_ok_def word_le_nat_alt word_less_nat_alt unat_word_ariths)
    moreover obtain s'' where "load_segment km h (of_nat i) (ph ?m h i) s' = Some s''" "after_headers s h (Suc i) s''"
      using load_segment_after [OF ok i True step.prems] by blast
    ultimately show ?thesis using step.IH True i e g f by (subst elf_relocate_loop.simps) (simp add: Let_def del: elf_relocate_loop.simps)
  qed
qed

section \<open>Properties\<close>

text \<open>The memory after the image of \<open>len\<close> bytes was read from \<open>data\<close> to \<open>buf\<close>.\<close>

definition with_image :: "mem \<Rightarrow> ptr \<Rightarrow> ptr \<Rightarrow> u32 \<Rightarrow> mem" where
  "with_image m buf data len = (\<lambda>x. if unat (x - buf) < unat len then m (data + (x - buf)) else m x)"

lemma read_image_ramdisk:
  fixes s nd
  defines "len \<equiv> fs_length (fnodes (lfs s) nd)" and "data \<equiv> headers (lfs s) (fs_inode (fnodes (lfs s) nd)) + 512"
  assumes "nd \<noteq> NULL" and "fs_read (fnodes (lfs s) nd) = Some Tarfs_read" and "unat len \<le> unat (buf - data)"
  shows "read_image hw nd buf s = Some (s\<lparr>lfs := (lfs s)\<lparr>fmem := with_image (kmem (lvm s)) buf data len\<rparr>,
    lvm := (lvm s)\<lparr>kmem := with_image (kmem (lvm s)) buf data len\<rparr>\<rparr>)"
proof -
  have "rep_movsb (unat len) buf data (kmem (lvm s)) = with_image (kmem (lvm s)) buf data len"
    using rep_movsb_bytes [OF assms(5)] by (auto simp: with_image_def)
  then show ?thesis using assms(3,4)
    by (simp add: read_image_def read_fs_def run_read_def tarfs_read_def memcpy_def len_def data_def Let_def)
qed

lemma ramdisk_program_loaded:
  fixes s nd buf
  defines "len \<equiv> fs_length (fnodes (lfs s) nd)" and "data \<equiv> headers (lfs s) (fs_inode (fnodes (lfs s) nd)) + 512"
  defines "m \<equiv> with_image (kmem (lvm s)) buf data len"
  assumes "nd \<noteq> NULL" and "fs_open (fnodes (lfs s) nd) = None" and "fs_read (fnodes (lfs s) nd) = Some Tarfs_read"
    and "unat len \<le> unat (buf - data)" and "image_ok (lvm s) m buf (unat len)"
  shows "\<exists>s' v. elf_load km hw opn cls nd buf s = Some (if elf_check_header m buf = 0 then - 1 else 0, s')
    \<and> lvm s' = kfree buf v \<and> kmem v = loaded m buf (unat (e_phnum m buf))
    \<and> (\<forall>x. page_no x \<in> image_pages m buf (unat (e_phnum m buf)) \<longrightarrow> va_frame v (current_page_dir (lvm s)) x \<noteq> None)
    \<and> (\<forall>x. va_frame (lvm s) (current_page_dir (lvm s)) x \<noteq> None \<or> page_no x \<notin> image_pages m buf (unat (e_phnum m buf))
          \<longrightarrow> va_frame v (current_page_dir (lvm s)) x = va_frame (lvm s) (current_page_dir (lvm s)) x)"
proof -
  let ?n = "unat (e_phnum m buf)" and ?d = "current_page_dir (lvm s)"
  let ?s1 = "s\<lparr>lfs := (lfs s)\<lparr>fmem := m\<rparr>, lvm := (lvm s)\<lparr>kmem := m\<rparr>\<rparr>"
  let ?s2 = "if elf_check_header m buf = 0 then elf_log ''ELF binary is not for this machine'' ?s1 else ?s1"
  have r: "read_image hw nd buf s = Some ?s1"
    using read_image_ramdisk [of nd s buf hw] assms(4,6,7) by (simp add: m_def len_def data_def)
  have s2: "lvm ?s2 = (lvm s)\<lparr>kmem := m\<rparr>" by (simp add: elf_log_def)
  have "tables_inj (x\<lparr>kmem := m\<rparr>) ?d = tables_inj x ?d" for x by (simp add: tables_inj_def)
  then have ok: "image_ok (lvm ?s2) (kmem (lvm ?s2)) buf (unat len)"
    using assms(8) by (simp add: s2 image_ok_def segment_ok_def tables_cover_def)
  have "after_headers ?s2 buf 0 ?s2" by (rule after_none)
  from elf_relocate_loop_after [OF ok refl _ this] obtain s3 where
    s3: "elf_relocate km buf buf ?s2 = Some (0, s3)" "after_headers ?s2 buf ?n s3" by (auto simp: s2 elf_relocate_def)
  obtain v where v: "lvm s3 = v\<lparr>kmem := loaded m buf ?n\<rparr>" "grown ((lvm s)\<lparr>kmem := m\<rparr>) ?d (image_pages m buf ?n) v"
    using s3(2) by (auto simp: after_headers_def s2)
  have fr: "va_frame (x\<lparr>kmem := k\<rparr>) d y = va_frame x d y" for x k d y by (simp add: va_frame_def)
  let ?s' = "s3\<lparr>lfs := close_fs cls nd (lfs s3), lvm := kfree buf (lvm s3)\<rparr>"
  have "elf_load km hw opn cls nd buf s = Some (if elf_check_header m buf = 0 then - 1 else 0, ?s')"
    using assms(4,5) r s3(1) by (simp add: elf_load_def open_fs_def Let_def)
  then show ?thesis using v fr by (intro exI [of _ ?s'] exI [of _ "lvm s3"]) (simp add: grown_def)
qed


text \<open>The archive with a program of 88 bytes: an ELF header, one program header at 0x34 and two bytes of a segment of five at 0x54.\<close>

definition demo_program :: mem where
  "demo_program = demo_tar(0x1286 := 48, 0x1285 := 51, 0x1284 := 49, 0x1400 := 0x7f, 0x1401 := 69, 0x1402 := 76, 0x1403 := 70, 0x1404 := 1,
     0x1405 := 1, 0x1406 := 1, 0x1410 := 2, 0x1412 := 3, 0x141c := 0x34, 0x142a := 0x20, 0x142c := 1,
     0x1434 := 1, 0x1438 := 0x54, 0x143d := 0x80, 0x143e := 4, 0x143f := 8, 0x1444 := 2, 0x1448 := 5, 0x1454 := 7, 0x1455 := 9)"

definition demo_user_space :: kstate where
  "demo_user_space = demo_boot_state\<lparr>paging_enabled := True, current_page_dir := 0x1000, kmem := demo_program,
     pdirs := \<lambda>_. \<lparr>tables = \<lambda>_. zero_pde, ref_tables = \<lambda>i. if i = 0x20 then 0xc0300000 else 0\<rparr>\<rparr>"

lemma demo_program_ok: "tar_archive demo_program 0x1000 0x1600 [0x1000, 0x1200]" "tar_files demo_program [0x1000, 0x1200] (\<lambda>_. ''x'')"
    "tar_getsize demo_program 0x127c = 88"
proof -
  have g: "tar_getsize demo_program 0x107c = 0" "tar_getsize demo_program 0x127c = 88" by code_simp+
  show "tar_archive demo_program 0x1000 0x1600 [0x1000, 0x1200]" using g by (simp add: next_header_def) (simp add: demo_program_def demo_tar_def)
  have "str_at demo_program 128 0x1200 = Some ''x''" by code_simp
  then show "tar_files demo_program [0x1000, 0x1200] (\<lambda>_. ''x'')" by (simp add: tar_files_def) (simp add: demo_program_def demo_tar_def)
  show "tar_getsize demo_program 0x127c = 88" by (rule g)
qed

abbreviation demo_binary :: mem where
  "demo_binary \<equiv> with_image demo_program 0x200000 0x1400 88"

lemma demo_binary_fields:
  "elf_check_header demo_binary 0x200000 = - 1" "e_phnum demo_binary 0x200000 = 1" "ph demo_binary 0x200000 0 = 0x200034"
  "p_type demo_binary 0x200034 = 1" "p_offset demo_binary 0x200034 = 0x54" "p_vaddr demo_binary 0x200034 = 0x8048000"
  "p_filesz demo_binary 0x200034 = 2" "p_memsz demo_binary 0x200034 = 5" "demo_binary 0x200054 = 7" "demo_binary 0x200055 = 9"
  by (simp_all add: elf_check_header_def e_ident_def e_machine_def e_type_def e_phnum_def ph_def elf_get_program_header_def e_phoff_def
      e_phentsize_def p_type_def p_offset_def p_vaddr_def p_filesz_def p_memsz_def load16_def load32_def with_image_def
      demo_program_def demo_tar_def)

lemma demo_binary_ok: "image_ok demo_user_space demo_binary 0x200000 88"
proof -
  have "PAGEDIR_INDEX v = 0x20" if "page_no v = 0x8048" for v
  proof -
    have "unat v div 4194304 = 32" using that by (simp add: page_no_def div_nat_eqI)
    then show ?thesis by (simp add: PAGEDIR_INDEX_def drop_bit_eq_div word_unat_eq_iff unat_div)
  qed
  then have "tables_cover demo_user_space 0x1000 0x8048 0x8048"
    by (simp add: tables_cover_def demo_user_space_def demo_boot_state_def tables_inj_def)
  then have "segment_ok demo_user_space demo_binary 0x200000 88 0x200034"
    by (simp add: segment_ok_def demo_binary_fields blocks_apart_def page_no_def demo_user_space_def)
  then show ?thesis by (simp add: image_ok_def demo_binary_fields)
qed


end
