(* ===== verification/Userland.thy ===== *)
theory Userland
  imports Entry
begin

unbundle bit_operations_syntax

text \<open>
  The program of the ramdisk, userland/start.asm and userland/init.c: the start code takes the three words of the
  stack into registers and puts them back as the arguments of \<open>main\<close>, which never returns. A loop that does not end has
  the value None.
\<close>

section \<open>The program\<close>

text \<open>The body of the loop is empty and its condition is the constant 1.\<close>

partial_function (option) spin_while :: "u32 \<Rightarrow> xstate \<Rightarrow> xstate option" where
  "spin_while c s = (if c \<noteq> 0 then spin_while c s else Some s)"

definition user_main :: "u32 \<Rightarrow> u32 \<Rightarrow> xstate \<Rightarrow> (u32 \<times> xstate) option" where
  "user_main argc argv s = Option.bind (spin_while 1 s) (\<lambda>s. Some (0, s))"

text \<open>Up to and including the call, which pushes the return address \<open>ret\<close>.\<close>

definition user_start :: "u32 \<Rightarrow> xstate \<Rightarrow> xstate" where
  "user_start ret s =
     (let (a, s) = pop s; (b, s) = pop s; (c, s) = pop s; (r, m) = s
      in push ret (push a (push b (push c (r\<lparr>x_eax := a, x_ebx := b, x_ecx := c\<rparr>, m)))))"

text \<open>The arguments of a called function are above its return address.\<close>

definition call_main :: "xstate \<Rightarrow> (u32 \<times> xstate) option" where
  "call_main s = (let (r, m) = s in user_main (load32 m (x_esp r + 4)) (load32 m (x_esp r + 8)) s)"

section \<open>Properties\<close>

text \<open>Saving and restoring the words leaves the stack as it was, with the return address below it.\<close>

lemma user_start_stack:
  "user_start ret (r, m) =
     (r\<lparr>x_eax := load32 m (x_esp r), x_ebx := load32 m (x_esp r + 4), x_ecx := load32 m (x_esp r + 8), x_esp := x_esp r - 4\<rparr>,
      store32 m (x_esp r - 4) ret)"
  by (simp add: user_start_def pop_def push_def Let_def add.commute store32_load32)

lemma spin_while_diverges: "c \<noteq> 0 \<Longrightarrow> spin_while c s = None"
proof (rule ccontr)
  assume "c \<noteq> 0" "spin_while c s \<noteq> None"
  then obtain y where "spin_while c s = Some y" by auto
  then have "c = 0"
    by (rule spin_while.raw_induct [rotated]) (auto split: if_splits)
  then show False using \<open>c \<noteq> 0\<close> by simp
qed

text \<open>The program passes the words of its stack to \<open>main\<close> as its arguments and does not return, so no task leaves it by the
  \<open>ret\<close> of the start code.\<close>

lemma user_program_runs_on:
  "call_main (user_start ret (r, m)) = user_main (load32 m (x_esp r)) (load32 m (x_esp r + 4)) (user_start ret (r, m))"
  "call_main (user_start ret (r, m)) = None"
proof -
  have a: "apart 4 (x - 4) x" "apart 4 (x - 4) (x + 4)" for x :: u32 by (simp_all add: apart_def)
  show "call_main (user_start ret (r, m)) = user_main (load32 m (x_esp r)) (load32 m (x_esp r + 4)) (user_start ret (r, m))"
    by (simp add: call_main_def user_start_stack load_store_apart a add.commute)
  show "call_main (user_start ret (r, m)) = None"
    by (simp add: call_main_def user_start_stack user_main_def spin_while_diverges)
qed

end
