(* ===== verification/Spec2Isabelle.thy ===== *)
theory Spec2Isabelle
  imports Kstring Kdisplay Paging Kheap Ktree Serial Vga Keyboard Rtc Desc_tbls Spinlock Fs_ops Tasks Interrupts Elf Pci Acpi Cpuid
    Entry Kinvariant Mount Console Mmu Layouts Kmain Growth Krandom Preempt Loader Userland
begin

text \<open>
  A verification library for the piggyOS kernel (src/kernel), a 32-bit kernel for x86 machines.

  \<^bold>\<open>The program.\<close> The boot loader passes a list of tags to \<open>kernel_main\<close> (kernel.c). It sets up the serial line
  and the descriptor tables, then three memory managers on top of one another: a bitmap of 4 KiB blocks
  (memory/pmm.c), page directories and tables (memory/vmm.c) and a heap (memory/kheap.c) that grows by asking
  the page allocator, which asks the heap for page tables. Drivers install handlers in a table of 256 entries
  (cpu/isr.c) that the interrupt stubs dispatch on. A registry of file-system nodes (fs/) holds devices and a
  ramdisk. The timer interrupt and the system calls run the scheduler (sys/task.c).

  \<^bold>\<open>Theories, in the order of their imports.\<close>
  \<^item> \<open>Kprelude\<close>: word types, byte-addressed little-endian memory with its \<open>mem_simps\<close>, the errors \<open>kerr\<close>, and the
    locale \<open>step_invariant\<close> (a step relation keeps a relation to the start), interpreted for the frame
    allocator, the lock, the whole machine and a task that waits for its turn.
  \<^item> \<open>Kstring\<close> (utils/string.c): \<open>strcmp\<close> orders, \<open>strcpy\<close> copies, what \<open>memcmp\<close> really compares.
  \<^item> \<open>Kdisplay\<close> (utils/display.c): console output as a list of actions; digits read back, formats print their pieces.
  \<^item> \<open>Multiboot\<close> (multiboot2.c), \<open>Pmm\<close> (memory/pmm.c): the tag walk; the bitmap with the contract of a frame
    allocator as locale \<open>frame_allocator\<close>, interpreted on the code; the invariant of all reachable states.
  \<^item> \<open>Isr\<close>, \<open>Vmm\<close>, \<open>Paging\<close> (cpu/isr.c, memory/vmm.c): the handler table, the paging operations, and their
    theorems: start-up, mapping and unmapping, copies of a directory.
  \<^item> \<open>Growth\<close> (memory/vmm.c): the loops over pages, \<open>ksbrk\<close> and \<open>allocate_region\<close>, as compositions of single pages; when they end.
  \<^item> \<open>Kheap\<close> (memory/kheap.c): blocks, best fit, the free list as a list, and where its pointer arithmetic goes wrong.
  \<^item> \<open>Dlists\<close>, \<open>Ktree\<close> (utils/dsa): linked lists refine sequences; trees on top of them.
  \<^item> \<open>Kio\<close>, \<open>Serial\<close>, \<open>Vga\<close>, \<open>Keyboard\<close>, \<open>Rtc\<close>, \<open>Pci\<close>, \<open>Acpi\<close> (drivers/): port accesses as a history. The receive
    ring meets the locale \<open>byte_queue\<close>. \<open>Rtc\<close> has the timer's set-up too.
  \<^item> \<open>Console\<close>: the actions of \<open>Kdisplay\<close> performed by the drivers; every output ends and arrives as it was written.
  \<^item> \<open>Desc_tbls\<close>, \<open>Cpuid\<close> (cpu/): descriptors as the processor decodes them, the feature lists.
  \<^item> \<open>Spinlock\<close> (sys/spinlock.c): a step relation of interleaved threads and its exclusion invariant.
  \<^item> \<open>Fs\<close>, \<open>Fs_ops\<close> (fs/): registries as locale \<open>name_registry\<close>, interpreted for the root and for the devices;
    the devices, the ramdisk and the dispatch of vfs.c. \<open>Krandom\<close>: the random device's generator equals its recurrence.
  \<^item> \<open>Mount\<close>: the three file systems mounted one after the other; which names the directories then hold, and a file
    of the ramdisk read by its path.
  \<^item> \<open>Tasks\<close> (sys/task.c, sys/context_switch.asm): round robin, fairness, the switch as a round trip.
  \<^item> \<open>Preempt\<close>: a task between two of its turns, while the scheduler runs the others: it resumes as it left.
  \<^item> \<open>Interrupts\<close> (cpu/isr.c, cpu/fpu.c, drivers/timer.c, sys/syscall.c, sys/syscalls/sys_task.c): dispatch on the
    saved frame, preemption, system calls, sleeping and the floating-point trap.
  \<^item> \<open>Entry\<close> (cpu/interrupt.asm, sys/usermode.asm, entry.asm): the frame as processor and stubs build it and take
    it down, so that an interrupt is transparent and a system call returns its result; the jump to user mode and the boot code.
  \<^item> \<open>Kinvariant\<close>: what no sequence of interrupts, system calls and task steps changes.
  \<^item> \<open>Elf\<close> (sys/elf.c): what a loaded segment holds and which segments are admitted.
  \<^item> \<open>Loader\<close>: whole images: a program found by its path in the mounted ramdisk is loaded as its headers describe it.
  \<^item> \<open>Userland\<close> (src/userland): the program of the ramdisk, its start code and its endless loop.
  \<^item> \<open>Layouts\<close> (include/): the structures of the headers laid out as the compiler does; the offsets and sizes that the
    other theories use are those.
  \<^item> \<open>Boot\<close>, \<open>Mmu\<close>, \<open>Kmain\<close> (kernel.c): the managers composed in the order of the calls, the page tables as the processor
    walks them, and \<open>kernel_main\<close> as one function with its log: it returns into \<open>stage2\<close>, and when it refuses to start.
  This theory adds the properties that go from a series of key presses to the consoles, from bytes on the line to a read of
  the device, and from the boot loader to any later moment.

  \<^bold>\<open>Modelling.\<close> Globals are record fields and every operation maps the record to the new one. Pointers are 32-bit
  words and pointer arithmetic is scaled as in C. Memory is a function from virtual addresses to bytes, except
  where the code keeps typed objects that nobody reads as bytes: page directories and tables, list and tree
  nodes, file-system nodes and tasks, which are found by their address. Errors are \<open>Inl\<close>: a panic, a null or
  freed address, a division by zero, a full buffer. A loop whose end depends on memory or hardware is a
  \<open>partial_function\<close> with \<open>None\<close> for a call that does not return, and the theorems state that it returns, for
  \<open>allocate_region\<close> exactly when. The only fuel is the first argument of \<open>kmalloc_a_n\<close>, the depth of the
  recursion between heap and page allocator; one level suffices below the end of the heap.
  Parameters stand for what is outside: \<open>hw\<close> answers port reads from the history of accesses, \<open>cpuid_t\<close> is the
  processor's instruction, stub and table addresses come from the linker, and where a component takes memory
  from the heap without depending on its layout the address is an argument. \<open>km\<close> is the heap seen by the pager.

  \<^bold>\<open>Not modelled.\<close> The linker script, whose addresses are parameters; the build; sys_file.c, which is empty.
  The rest of the headers are prototypes, include guards and constants, which the definitions use by value. Log lines are part of the state in \<open>Kdisplay\<close>, \<open>Interrupts\<close>,
  \<open>Elf\<close>, \<open>Pci\<close>, \<open>Cpuid\<close>, \<open>Boot\<close> and \<open>Kmain\<close>; the drivers' own functions do not carry them, and the line for an archive
  member of an unsupported type is left out. Two virtual addresses of one frame are not aliases. The idle loop that
  ends \<open>stage2\<close> is not a step of the model, and timing is visible only as ticks and port reads.
\<close>

unbundle bit_operations_syntax

section \<open>From the key to the console\<close>

lemma poll_cmd_sent [simp]: "sent p (poll_cmd hw n h) = sent p h"
  by (induction n arbitrary: h) simp_all

lemma eoi_sent: "n < 40 \<Longrightarrow> sent 0x20 (end_of_interrupt n h) = sent 0x20 h @ [0x20]"
  by (simp add: end_of_interrupt_def)

lemma kprintf_char: "\<exists>out. kprintf (Some ''%c'') [VInt (ucast c)] = Inr (1, out)
    \<and> serial_text out = [char_of (unat (c :: u8))] \<and> vga_text out = [char_of (unat c)]"
proof -
  have c: "unat (ucast c AND 0xFF :: u32) = unat c"
  proof -
    have "ucast c AND (0xFF :: u32) = take_bit 8 (ucast c)" by (simp add: take_bit_eq_mask mask_eq_exp_minus_1)
    also have "\<dots> = (ucast c :: u32)" by (rule bit_word_eqI) (auto simp: bit_simps dest: bit_imp_le_length)
    finally show ?thesis
      using unsigned_less [of c, where 'a = nat] by (simp add: unsigned_ucast_eq take_bit_nat_eq_self)
  qed
  show ?thesis using kprintf_pieces [of "[PChr (ucast c)]"] by (simp add: c)
qed

text \<open>A series of interrupts, each with the hardware that raised it.\<close>

primrec irqs :: "hardware list \<Rightarrow> fpu_image \<Rightarrow> ptr \<Rightarrow> machine \<Rightarrow> machine option" where
  "irqs [] fi r m = Some m"
| "irqs (hw # hws) fi r m = (case irq_handler hw fi r m of Some (Inr (Returned, m')) \<Rightarrow> irqs hws fi r m' | _ \<Rightarrow> None)"

lemma set_ifr_fields:
  "m_io (set_ifr r m) = m_io m" "m_shift (set_ifr r m) = m_shift m" "m_con (set_ifr r m) = m_con m"
  "m_serial (set_ifr r m) = m_serial m" "frame_word (set_ifr r m) a = frame_word m a" "installed (set_ifr r m) v = installed m v"
  by (simp_all add: set_ifr_def frame_word_def installed_def upd_task_def)

text \<open>The character of a scan code, if it has one, on the consoles.\<close>

definition key_text :: "u8 option \<Rightarrow> string" where
  "key_text c = (case c of None \<Rightarrow> [] | Some c \<Rightarrow> [char_of (unat c)])"

lemma keyboard_irq:
  assumes "frame_word m (regs_int_no r) = 33" and "installed m 33 = Some Keyboard_irq_handler"
    and "\<forall>h. hw h 0x60 = ucast d" and "key_step d (m_shift m) = (sh, c)"
  shows "\<exists>m' out. irq_handler hw fi r m = Some (Inr (Returned, m')) \<and> m_con m' = m_con m @ out
    \<and> serial_text out = key_text c \<and> vga_text out = key_text c \<and> m_shift m' = sh
    \<and> sent 0x20 (m_io m') = sent 0x20 (m_io m) @ [0x20]
    \<and> (\<forall>a. frame_word m' a = frame_word m a) \<and> (\<forall>v. installed m' v = installed m v)"
proof -
  let ?m = "set_ifr r m" and ?h = "end_of_interrupt 33 (m_io m)"
  let ?h' = "snd (inb hw 0x60 (poll_cmd hw 1000 ?h))"
  let ?m1 = "?m\<lparr>m_shift := sh, m_io := ?h'\<rparr>"
  have u: "ucast (ucast d :: u32) = d" by (rule bit_word_eqI) (auto simp: bit_simps dest: bit_imp_le_length)
  have kb: "keyboard_irq_handler hw (m_shift m) ?h = (sh, c, ?h')"
    using assms(3,4) u by (simp add: keyboard_irq_handler_def inb_def Let_def)
  have r: "irq_handler hw fi r m = Some (Inr (Returned, case c of None \<Rightarrow> ?m1 | Some c \<Rightarrow> printed (kprintf (Some ''%c'') [VInt (ucast c)]) ?m1))"
    using assms(1,2) kb set_ifr_fields(1-3,5,6) [of r m]
    by (simp add: irq_handler_def run_handler_def installed_def Let_def)
  have k: "frame_word ?m1 a = frame_word m a" "installed ?m1 v = installed m v" "m_con ?m1 = m_con m" "m_shift ?m1 = sh"
      "sent 0x20 (m_io ?m1) = sent 0x20 (m_io m) @ [0x20]" for a v
    using set_ifr_fields(3,5,6) [of r m] by (simp_all add: frame_word_def installed_def eoi_sent)
  show ?thesis
  proof (cases c)
    case None
    then show ?thesis using r k by (intro exI [of _ ?m1] exI [of _ "[]"]) (simp add: key_text_def)
  next
    case (Some x)
    obtain out where out: "kprintf (Some ''%c'') [VInt (ucast x)] = Inr (1, out)"
        "serial_text out = [char_of (unat x)]" "vga_text out = [char_of (unat x)]"
      using kprintf_char [of x] by blast
    have "irq_handler hw fi r m = Some (Inr (Returned, ?m1\<lparr>m_con := m_con m @ out\<rparr>))"
      using r Some out(1) k(3) by (simp add: printed_def)
    then show ?thesis using k(1,2,4,5) Some out(2,3)
      by (intro exI [of _ "?m1\<lparr>m_con := m_con m @ out\<rparr>"] exI [of _ out]) (simp add: key_text_def frame_word_def installed_def)
  qed
qed

text \<open>A key press reaches both consoles. With the keyboard's handler at vector 33 and a letter's scan
  code in the controller, the interrupt returns, is acknowledged once, and prints exactly one character: the
  letter, in upper case exactly when either shift or caps lock is on but not both.\<close>

theorem keyboard_interrupt_prints:
  assumes "frame_word m (regs_int_no r) = 33" and "installed m 33 = Some Keyboard_irq_handler"
    and "\<forall>h. hw h 0x60 = ucast d" and "d \<in> set letter_codes"
    and "m_shift m AND CTL = 0" and "m_shift m AND E0ESC = 0"
    and "c = (if (m_shift m AND SHIFT \<noteq> 0) \<noteq> (m_shift m AND CAPSLOCK \<noteq> 0) then normalmap d - 32 else normalmap d)"
  shows "\<exists>m' out. irq_handler hw fi r m = Some (Inr (Returned, m')) \<and> m_con m' = m_con m @ out
    \<and> serial_text out = [char_of (unat c)] \<and> vga_text out = [char_of (unat c)]
    \<and> m_shift m' = m_shift m \<and> sent 0x20 (m_io m') = sent 0x20 (m_io m) @ [0x20]"
proof -
  have "key_step d (m_shift m) = (m_shift m, Some c)" using letter_key_case [OF assms(4-6)] assms(7) by simp
  from keyboard_irq [of m r hw d, OF assms(1-3) this, of fi] show ?thesis by (auto simp: key_text_def)
qed

text \<open>What a series of scan codes types, from a given state of the modifiers.\<close>

primrec typed :: "u8 list \<Rightarrow> u8 \<Rightarrow> u8 \<times> string" where
  "typed [] sh = (sh, [])"
| "typed (d # ds) sh = (let (sh, c) = key_step d sh; (sh, t) = typed ds sh in (sh, key_text c @ t))"

text \<open>C25: typing. For every series of scan codes, each delivered by an interrupt of vector 33, both consoles show exactly the
  characters that the codes type one after the other, with shift, control, caps lock and the prefix code taken into account;
  every interrupt returns and is acknowledged once, and the modifiers are left as typed.\<close>

theorem typing_is_printed:
  assumes "frame_word m (regs_int_no r) = 33" and "installed m 33 = Some Keyboard_irq_handler"
    and "list_all2 (\<lambda>hw d. \<forall>h. hw h 0x60 = ucast d) hws ds"
  shows "\<exists>m' out. irqs hws fi r m = Some m' \<and> m_con m' = m_con m @ out
    \<and> serial_text out = snd (typed ds (m_shift m)) \<and> vga_text out = snd (typed ds (m_shift m))
    \<and> m_shift m' = fst (typed ds (m_shift m)) \<and> sent 0x20 (m_io m') = sent 0x20 (m_io m) @ replicate (length ds) 0x20"
  using assms(3,1,2)
proof (induction arbitrary: m rule: list_all2_induct)
  case Nil
  then show ?case by simp
next
  case (Cons hw hws d ds)
  obtain sh c where k: "key_step d (m_shift m) = (sh, c)" by fastforce
  obtain m1 o1 where m1: "irq_handler hw fi r m = Some (Inr (Returned, m1))" "m_con m1 = m_con m @ o1" "serial_text o1 = key_text c"
      "vga_text o1 = key_text c" "m_shift m1 = sh" "sent 0x20 (m_io m1) = sent 0x20 (m_io m) @ [0x20]"
      "\<And>a. frame_word m1 a = frame_word m a" "\<And>v. installed m1 v = installed m v"
    using keyboard_irq [of m r hw d, OF Cons.prems(1,2) Cons.hyps(1) k, of fi] by blast
  obtain m' o2 where m': "irqs hws fi r m1 = Some m'" "m_con m' = m_con m1 @ o2" "serial_text o2 = snd (typed ds sh)"
      "vga_text o2 = snd (typed ds sh)" "m_shift m' = fst (typed ds sh)"
      "sent 0x20 (m_io m') = sent 0x20 (m_io m1) @ replicate (length ds) 0x20"
    using Cons.IH [of m1] Cons.prems m1(5,7,8) by auto
  have "irqs (hw # hws) fi r m = Some m'" using m1(1) m'(1) by simp
  then show ?case using m1 m' k
    by (intro exI [of _ m'] exI [of _ "o1 @ o2"]) (simp add: serial_text_append vga_text_append split_beta)
qed

text \<open>Shift, h, shift released, i: the key without a character of its own prints a NUL.\<close>

theorem typing_is_printed_witness:
  "\<exists>m' out. irqs (map (\<lambda>d _ _. d) [0x2A, 0x23, 0xAA, 0x17]) [] 0x6000 (set_handlers [33 \<mapsto> Keyboard_irq_handler]
       (demo_machine\<lparr>m_shift := 0, ms := upd_mem (\<lambda>k. k(0x6030 := 33)) (ms demo_machine)\<rparr>)) = Some m'
     \<and> m_con m' = out \<and> vga_text out = [CHR 0x00, CHR ''H'', CHR ''i''] \<and> m_shift m' = 0"
proof -
  let ?m = "set_handlers [33 \<mapsto> Keyboard_irq_handler]
       (demo_machine\<lparr>m_shift := 0, ms := upd_mem (\<lambda>k. k(0x6030 := 33)) (ms demo_machine)\<rparr>)"
  have h: "frame_word ?m (regs_int_no 0x6000) = 33" "installed ?m 33 = Some Keyboard_irq_handler"
    by (simp_all add: frame_word_def installed_def set_handlers_def demo_machine_def demo_sched_def demo_boot_state_def
        upd_mem_def load32_def)
  have c: "m_con ?m = []" "m_shift ?m = 0" by (simp_all add: set_handlers_def demo_machine_def)
  have t: "typed [0x2A, 0x23, 0xAA, 0x17] 0 = (0, [CHR 0x00, CHR ''H'', CHR ''i''])" by code_simp
  have "list_all2 (\<lambda>hw d. \<forall>h. hw h 0x60 = (ucast (d :: u8) :: u32)) (map (\<lambda>d _ _. d) [0x2A, 0x23, 0xAA, 0x17]) [0x2A, 0x23, 0xAA, 0x17]"
    by simp
  from typing_is_printed [OF h this, of "[]"] show ?thesis unfolding c t by auto
qed

theorem keyboard_interrupt_prints_witness:
  "\<exists>m' out. irq_handler (\<lambda>_ _. 0x1e) [] 0x6000 (set_handlers [33 \<mapsto> Keyboard_irq_handler]
       (demo_machine\<lparr>m_shift := 8, ms := upd_mem (\<lambda>k. k(0x6030 := 33)) (ms demo_machine)\<rparr>)) = Some (Inr (Returned, m'))
     \<and> m_con m' = out \<and> vga_text out = ''A''"
proof -
  let ?m = "set_handlers [33 \<mapsto> Keyboard_irq_handler]
       (demo_machine\<lparr>m_shift := 8, ms := upd_mem (\<lambda>k. k(0x6030 := 33)) (ms demo_machine)\<rparr>)"
  have h: "frame_word ?m (regs_int_no 0x6000) = 33" "installed ?m 33 = Some Keyboard_irq_handler"
      "\<forall>h :: io. (0x1e :: u32) = ucast (0x1e :: u8)" "0x1e \<in> set letter_codes" "m_shift ?m AND CTL = 0" "m_shift ?m AND E0ESC = 0"
    by (simp_all add: frame_word_def installed_def set_handlers_def demo_machine_def demo_sched_def demo_boot_state_def
        upd_mem_def load32_def letter_codes_def)
  have n: "normalmap 0x1e = 97" by (simp add: normalmap_def key_table_def)
  have A: "char_of (65 :: nat) = CHR ''A''" by code_simp
  have c: "m_con demo_machine = []" "m_con ?m = []" "m_shift ?m = 8" by (simp_all add: set_handlers_def demo_machine_def)
  show ?thesis using keyboard_interrupt_prints [OF h(1,2) h(3) h(4-6) refl, of "[]"] by (auto simp: n c A)
qed

section \<open>From the serial line to the device file\<close>

text \<open>The loop of \<open>read_com\<close> takes the bytes from the queue's contract.\<close>

lemma read_com_loop_pops:
  assumes "n < 2 ^ 32" and "pop_n serial_getc n (fserial s) = (bs, q)"
  shows "\<exists>k. read_com_loop n buf s = s\<lparr>fserial := q, fmem := k\<rparr>
    \<and> (\<forall>a. k a = (if unat (a - buf) < n then bs ! unat (a - buf) else fmem s a))"
  using assms
proof (induction n arbitrary: buf s bs)
  case 0
  then show ?case by (intro exI [of _ "fmem s"]) simp
next
  case (Suc n)
  obtain c q1 where c: "serial_getc (fserial s) = (c, q1)" by fastforce
  obtain bs' where bs: "pop_n serial_getc n q1 = (bs', q)" "bs = c # bs'"
    using Suc.prems(2) c by (auto split: prod.splits)
  let ?s = "s\<lparr>fserial := q1, fmem := (fmem s)(buf := c)\<rparr>"
  obtain k where k: "read_com_loop n (buf + 1) ?s = ?s\<lparr>fserial := q, fmem := k\<rparr>"
      "\<And>a. k a = (if unat (a - (buf + 1)) < n then bs' ! unat (a - (buf + 1)) else ((fmem s)(buf := c)) a)"
    using Suc.IH [of ?s bs' "buf + 1"] bs(1) Suc.prems(1) by auto
  have "k a = (if unat (a - buf) < Suc n then bs ! unat (a - buf) else fmem s a)" for a
  proof (cases "a = buf")
    case True
    then show ?thesis using k(2) [of a] bs(2) Suc.prems(1) by (simp add: unsigned_minus_1_eq_mask mask_eq_exp_minus_1)
  next
    case False
    then have "unat (a - buf) = Suc (unat (a - (buf + 1)))"
      using unat_minus_one [of "a - buf"] unat_gt_0 [of "a - buf"] by (simp add: algebra_simps)
    then show ?thesis using k(2) [of a] bs(2) False by simp
  qed
  moreover have "read_com_loop (Suc n) buf s = s\<lparr>fserial := q, fmem := k\<rparr>" using k(1) c by simp
  ultimately show ?case by blast
qed

text \<open>What was received on the serial line is what a program reads from the device. If \<open>bs\<close> arrives
  on an empty queue of at most 1024 bytes, then a read of that many bytes from the node of the line's device,
  at any offset, returns the count, puts \<open>bs\<close> into the buffer in order, changes no other byte of memory and
  leaves the queue empty.\<close>

lemma com_device_reads_line:
  assumes "ring_ok q" and "pending q = []" and "length bs \<le> 1024"
    and "nd \<noteq> NULL" and "fs_read (fnodes s nd) = Some Read_com"
    and "fserial s = fold queue_insert bs q"
  shows "\<exists>s'. read_fs hw nd off (of_nat (length bs)) buf s = Some (of_nat (length bs), s')
    \<and> (\<forall>a. fmem s' a = (if unat (a - buf) < length bs then bs ! unat (a - buf) else fmem s a))
    \<and> pending (fserial s') = [] \<and> fnodes s' = fnodes s"
proof -
  have r: "ring_ok (fserial s)" "pending (fserial s) = bs @ []"
    using rq.push_many [OF assms(1)] assms(2,3,6) by auto
  obtain q' where q': "pop_n serial_getc (length bs) (fserial s) = (bs, q')" "pending q' = []"
    using rq.pop_many [OF r] by blast
  have n: "length bs < 2 ^ 32" "unat (of_nat (length bs) :: u32) = length bs"
    using assms(3) by (simp_all add: unat_of_nat take_bit_nat_eq_self)
  obtain k where k: "read_com_loop (length bs) buf s = s\<lparr>fserial := q', fmem := k\<rparr>"
      "\<forall>a. k a = (if unat (a - buf) < length bs then bs ! unat (a - buf) else fmem s a)"
    using read_com_loop_pops [OF n(1) q'(1)] by blast
  have "read_fs hw nd off (of_nat (length bs)) buf s = Some (of_nat (length bs), s\<lparr>fserial := q', fmem := k\<rparr>)"
    using assms(4,5) k(1) n(2) by (simp add: read_fs_def run_read_def read_com_def)
  then show ?thesis using k(2) q'(2) by simp
qed

text \<open>Hardware that has the byte \<open>d\<close> waiting in the receiver: the interrupt's cause, the line status and the data.\<close>

definition receives :: "hardware \<Rightarrow> u8 \<Rightarrow> bool" where
  "receives hw d \<longleftrightarrow> (\<forall>h. ucast (hw h (PORT_COM1 + 2)) AND (4 :: u8) \<noteq> 0 \<and> ucast (hw h (PORT_COM1 + 5)) AND (1 :: u8) \<noteq> 0
     \<and> ucast (hw h PORT_COM1) = d)"

lemma serial_irq_handler_inserts:
  assumes "receives hw d" and "pending_count q < 1024"
  shows "\<exists>h'. serial_irq_handler hw q h = Some (queue_insert d q, h')"
proof -
  have "\<not> queue_full_test q" using assms(2) by (auto simp: queue_full_test_def pending_count_def)
  moreover have "\<exists>h'. wait_read hw h = Some h'" for h
    using assms(1) by (subst wait_read.simps) (simp add: port_read_ready_def inb_def receives_def Let_def)
  then obtain h1 where "wait_read hw (snd (inb hw (PORT_COM1 + 2) h)) = Some h1" by blast
  ultimately show ?thesis using assms(1) by (simp add: serial_irq_handler_def receives_def inb_def Let_def)
qed

lemma serial_irq:
  assumes "frame_word m (regs_int_no r) = 36" and "installed m 36 = Some Serial_irq_handler"
    and "receives hw d" and "pending_count (m_serial m) < 1024"
  shows "\<exists>m'. irq_handler hw fi r m = Some (Inr (Returned, m')) \<and> m_serial m' = queue_insert d (m_serial m)
    \<and> kmem (tvm (ms m')) = kmem (tvm (ms m)) \<and> (\<forall>a. frame_word m' a = frame_word m a) \<and> (\<forall>v. installed m' v = installed m v)"
proof -
  let ?m = "set_ifr r m" and ?h = "end_of_interrupt 36 (m_io m)"
  obtain h' where "serial_irq_handler hw (m_serial m) ?h = Some (queue_insert d (m_serial m), h')"
    using serial_irq_handler_inserts [OF assms(3,4)] by blast
  then have "irq_handler hw fi r m = Some (Inr (Returned, ?m\<lparr>m_serial := queue_insert d (m_serial m), m_io := h'\<rparr>))"
    using assms(1,2) set_ifr_fields [of r m] by (simp add: irq_handler_def run_handler_def installed_def Let_def)
  then show ?thesis by (simp add: frame_word_def installed_def set_ifr_def upd_task_def)
qed

lemma serial_irqs:
  assumes "list_all2 receives hws bs" and "frame_word m (regs_int_no r) = 36" and "installed m 36 = Some Serial_irq_handler"
    and "ring_ok (m_serial m)" and "length (pending (m_serial m)) + length bs \<le> 1024"
  shows "\<exists>m'. irqs hws fi r m = Some m' \<and> m_serial m' = fold queue_insert bs (m_serial m) \<and> kmem (tvm (ms m')) = kmem (tvm (ms m))"
  using assms
proof (induction arbitrary: m rule: list_all2_induct)
  case Nil
  then show ?case by simp
next
  case (Cons hw hws d bs)
  have n: "pending_count (m_serial m) < 1024" using Cons.prems(4) by simp
  obtain m1 where m1: "irq_handler hw fi r m = Some (Inr (Returned, m1))" "m_serial m1 = queue_insert d (m_serial m)"
      "kmem (tvm (ms m1)) = kmem (tvm (ms m))" "\<And>a. frame_word m1 a = frame_word m a" "\<And>v. installed m1 v = installed m v"
    using serial_irq [OF Cons.prems(1,2) Cons.hyps(1) n] by blast
  have "ring_ok (m_serial m1)" "pending (m_serial m1) = pending (m_serial m) @ [d]" using insert_pending [OF Cons.prems(3) n] m1(2) by simp_all
  then obtain m' where "irqs hws fi r m1 = Some m'" "m_serial m' = fold queue_insert bs (m_serial m1)" "kmem (tvm (ms m')) = kmem (tvm (ms m1))"
    using Cons.IH [of m1] Cons.prems m1(4,5) by auto
  then show ?case using m1 by simp
qed



section \<open>From the boot loader to any later moment\<close>

lemma stage2_keeps: "ms (stage2 m) = ms m"
  using stage2_prints [of m] by auto



end
